(* ===== verification/Prelude.thy ===== *)
theory Prelude
  imports Main "HOL-Library.Word" "HOL-Library.Product_Lexorder"
begin

text \<open>
  Shared vocabulary of the development: the integer types of \<^verbatim>\<open>base/types.hh\<close>, the ways in
  which a simulator routine can stop (\<^verbatim>\<open>panic\<close>, \<^verbatim>\<open>fatal\<close>, a failed
  \<^verbatim>\<open>assert\<close>, a null or dangling pointer, a loop that does not end) as values of an error
  type, the error monad in which fallible routines are written, and the generic facts on
  lists, maps and words that the component theories use.
\<close>

unbundle bit_operations_syntax

subsection \<open>Machine types\<close>

type_synonym tick = "64 word"   \<comment> \<open>Tick, uint64\<close>
type_synonym addr = "64 word"   \<comment> \<open>Addr, uint64\<close>

subsection \<open>Errors\<close>

datatype sim_error =
    Panic string
  | Fatal string
  | AssertFail string
  | NullDeref
  | OutOfRange
  | Diverge

type_synonym 'a result = "sim_error + 'a"

definition ebind :: "'a result \<Rightarrow> ('a \<Rightarrow> 'b result) \<Rightarrow> 'b result" where
  "ebind m f = (case m of Inl e \<Rightarrow> Inl e | Inr x \<Rightarrow> f x)"

definition assert_that :: "string \<Rightarrow> bool \<Rightarrow> 'a result \<Rightarrow> 'a result" where
  "assert_that msg b m = (if b then m else Inl (AssertFail msg))"

text \<open>A loop written as \<^verbatim>\<open>partial_function (option)\<close> yields \<open>None\<close> when it does not end.\<close>

definition from_loop :: "'a result option \<Rightarrow> 'a result" where
  "from_loop r = (case r of None \<Rightarrow> Inl Diverge | Some x \<Rightarrow> x)"

definition deref :: "('p \<Rightarrow> 'a option) \<Rightarrow> 'p \<Rightarrow> 'a result" where
  "deref h p = (case h p of None \<Rightarrow> Inl NullDeref | Some e \<Rightarrow> Inr e)"

lemma ebind_simps [simp]:
  "ebind (Inl e) f = Inl e"
  "ebind (Inr x) f = f x"
  by (simp_all add: ebind_def)

lemma ebind_Inr_iff: "ebind m f = Inr y \<longleftrightarrow> (\<exists>x. m = Inr x \<and> f x = Inr y)"
  by (cases m) auto

lemma ebind_assoc: "ebind (ebind m f) g = ebind m (\<lambda>x. ebind (f x) g)"
  by (cases m) auto

lemma assert_that_True [simp]: "b \<Longrightarrow> assert_that msg b m = m"
  by (simp add: assert_that_def)

lemma assert_that_Inr_iff: "assert_that msg b m = Inr y \<longleftrightarrow> b \<and> m = Inr y"
  by (simp add: assert_that_def)

lemma from_loop_simps [simp]:
  "from_loop (Some x) = x"
  "from_loop None = Inl Diverge"
  by (simp_all add: from_loop_def)

lemma deref_Some [simp]: "h p = Some e \<Longrightarrow> deref h p = Inr e"
  by (simp add: deref_def)

lemma deref_None [simp]: "h p = None \<Longrightarrow> deref h p = Inl NullDeref"
  by (simp add: deref_def)

lemma deref_Inr_iff: "deref h p = Inr e \<longleftrightarrow> h p = Some e"
  by (simp add: deref_def split: option.splits)

lemmas result_iffs = ebind_Inr_iff assert_that_Inr_iff deref_Inr_iff

subsection \<open>Vectors\<close>

text \<open>Indexing and updating a \<^verbatim>\<open>std::vector\<close>; an index out of range is an error.\<close>

definition nthE :: "'a list \<Rightarrow> nat \<Rightarrow> 'a result" where
  "nthE xs i = (if i < length xs then Inr (xs ! i) else Inl OutOfRange)"

definition updE :: "nat \<Rightarrow> ('a \<Rightarrow> 'a) \<Rightarrow> 'a list \<Rightarrow> 'a list result" where
  "updE i f xs = (if i < length xs then Inr (xs[i := f (xs ! i)]) else Inl OutOfRange)"

lemma nthE_ok [simp]: "i < length xs \<Longrightarrow> nthE xs i = Inr (xs ! i)"
  by (simp add: nthE_def)

lemma updE_ok [simp]: "i < length xs \<Longrightarrow> updE i f xs = Inr (xs[i := f (xs ! i)])"
  by (simp add: updE_def)

lemma nthE_Inr_iff: "nthE xs i = Inr x \<longleftrightarrow> i < length xs \<and> x = xs ! i"
  by (auto simp: nthE_def)

lemma updE_Inr_iff: "updE i f xs = Inr ys \<longleftrightarrow> i < length xs \<and> ys = xs[i := f (xs ! i)]"
  by (auto simp: updE_def)

lemmas vector_iffs = nthE_Inr_iff updE_Inr_iff

subsection \<open>Flag words\<close>

text \<open>The \<^verbatim>\<open>Flags\<close> class of \<^verbatim>\<open>base/flags.hh\<close> over an unsigned integer type.\<close>

definition flags_isSet :: "'a::len word \<Rightarrow> 'a word \<Rightarrow> bool" where
  "flags_isSet f m \<longleftrightarrow> f AND m \<noteq> 0"

definition flags_noneSet :: "'a::len word \<Rightarrow> 'a word \<Rightarrow> bool" where
  "flags_noneSet f m \<longleftrightarrow> f AND m = 0"

definition flags_clear :: "'a::len word \<Rightarrow> 'a word \<Rightarrow> 'a word" where
  "flags_clear f m = f AND NOT m"

definition flags_set :: "'a::len word \<Rightarrow> 'a word \<Rightarrow> 'a word" where
  "flags_set f m = f OR m"

definition flags_assign :: "'a::len word \<Rightarrow> 'a word \<Rightarrow> bool \<Rightarrow> 'a word" where
  "flags_assign f m val = (f AND NOT m) OR (if val then m else 0)"

definition flags_update :: "'a::len word \<Rightarrow> 'a word \<Rightarrow> 'a word \<Rightarrow> 'a word" where
  "flags_update f fl m = (f AND NOT m) OR (fl AND m)"

lemma flags_isSet_set_same: "m \<noteq> 0 \<Longrightarrow> flags_isSet (flags_set f m) m"
  by (simp add: flags_isSet_def flags_set_def bit.conj_disj_distrib2)

lemma flags_isSet_clear_same [simp]: "\<not> flags_isSet (flags_clear f m) m"
  by (simp add: flags_isSet_def flags_clear_def and.assoc)

text \<open>Operations on one mask leave a disjoint mask alone.\<close>

lemma flags_isSet_clear_disjoint:
  assumes "m AND n = 0"
  shows "flags_isSet (flags_clear f m) n = flags_isSet f n"
proof -
  have "(f AND NOT m) AND n = f AND n"
  proof (rule bit_word_eqI)
    fix i assume "i < LENGTH('a)"
    have "bit (m AND n) i = False" using assms by simp
    then show "bit ((f AND NOT m) AND n) i = bit (f AND n) i"
      using \<open>i < LENGTH('a)\<close> by (auto simp: bit_simps)
  qed
  then show ?thesis by (simp add: flags_isSet_def flags_clear_def)
qed

lemma flags_isSet_set_disjoint:
  assumes "m AND n = 0"
  shows "flags_isSet (flags_set f m) n = flags_isSet f n"
proof -
  have "(f OR m) AND n = (f AND n) OR (m AND n)"
    by (simp add: bit.conj_disj_distrib2)
  then show ?thesis using assms by (simp add: flags_isSet_def flags_set_def)
qed

subsection \<open>State machines\<close>

text \<open>The states reached from an initial state by steps, and the rule for their invariants. Each
  component whose operations form a protocol interprets the locale on its own step relation.\<close>

inductive reach :: "('s \<Rightarrow> bool) \<Rightarrow> ('s \<Rightarrow> 's \<Rightarrow> bool) \<Rightarrow> 's \<Rightarrow> bool"
  for init :: "'s \<Rightarrow> bool" and step :: "'s \<Rightarrow> 's \<Rightarrow> bool" where
  reach_init: "init s \<Longrightarrow> reach init step s"
| reach_step: "reach init step s \<Longrightarrow> step s s' \<Longrightarrow> reach init step s'"

locale machine =
  fixes init :: "'s \<Rightarrow> bool" and step :: "'s \<Rightarrow> 's \<Rightarrow> bool" and inv :: "'s \<Rightarrow> bool"
  assumes init_inv: "init s \<Longrightarrow> inv s"
    and step_inv: "inv s \<Longrightarrow> step s s' \<Longrightarrow> inv s'"
begin

lemma reach_inv: "reach init step s \<Longrightarrow> inv s"
  by (induction rule: reach.induct) (auto intro: init_inv step_inv)

end

subsection \<open>Sequences of operations\<close>

text \<open>Running operations that return a value and may fail, and the same for a specification that
  cannot. The locale is the contract of an implementation: in related states an operation returns,
  with the value of the specification, and leads to related states. The number in the relation is
  the number of operations that may still follow.\<close>

fun runE :: "('op \<Rightarrow> 's \<Rightarrow> ('r \<times> 's) result) \<Rightarrow> 'op list \<Rightarrow> 's \<Rightarrow> ('r list \<times> 's) result" where
  "runE f [] s = Inr ([], s)"
| "runE f (x # xs) s = ebind (f x s) (\<lambda>(r, s1). ebind (runE f xs s1) (\<lambda>(rs, s2). Inr (r # rs, s2)))"

fun run_spec :: "('op \<Rightarrow> 'a \<Rightarrow> 'r \<times> 'a) \<Rightarrow> 'op list \<Rightarrow> 'a \<Rightarrow> 'r list \<times> 'a" where
  "run_spec g [] a = ([], a)"
| "run_spec g (x # xs) a = (let (r, a1) = g x a; (rs, a2) = run_spec g xs a1 in (r # rs, a2))"

lemma runE_append:
  "runE f (xs @ ys) s = ebind (runE f xs s) (\<lambda>(rs, s1). ebind (runE f ys s1) (\<lambda>(rs', s2). Inr (rs @ rs', s2)))"
proof (induction xs arbitrary: s)
  case Nil
  show ?case by (simp add: ebind_def split: sum.splits prod.splits)
next
  case (Cons x xs)
  then show ?case by (cases "f x s") (simp_all add: split_beta ebind_assoc)
qed

locale simulation =
  fixes impl :: "'op \<Rightarrow> 's \<Rightarrow> ('r \<times> 's) result" and spec :: "'op \<Rightarrow> 'a \<Rightarrow> 'r \<times> 'a"
    and allowed :: "'op \<Rightarrow> bool" and rel :: "nat \<Rightarrow> 's \<Rightarrow> 'a \<Rightarrow> bool"
  assumes simulates: "rel (Suc k) s a \<Longrightarrow> allowed x \<Longrightarrow> \<exists>s'. impl x s = Inr (fst (spec x a), s') \<and> rel k s' (snd (spec x a))"
begin

lemma runs:
  "rel (k + length xs) s a \<Longrightarrow> list_all allowed xs \<Longrightarrow>
   \<exists>s'. runE impl xs s = Inr (fst (run_spec spec xs a), s') \<and> rel k s' (snd (run_spec spec xs a))"
proof (induction xs arbitrary: s a)
  case (Cons x xs)
  obtain s1 where 1: "impl x s = Inr (fst (spec x a), s1)" "rel (k + length xs) s1 (snd (spec x a))"
    using simulates [of "k + length xs" s a x] Cons.prems by auto
  then show ?case using Cons.IH [OF 1(2)] Cons.prems(2) by (auto simp: split_beta Let_def)
qed simp

end

subsection \<open>Facts collections\<close>

named_theorems kept \<open>parts of the state that an operation leaves unchanged\<close>
named_theorems kept_pair \<open>the same for an operation that returns a value with the state\<close>

subsection \<open>Filtering with a test that may fail\<close>

fun filterE :: "('a \<Rightarrow> bool result) \<Rightarrow> 'a list \<Rightarrow> 'a list result" where
  "filterE f [] = Inr []"
| "filterE f (x # xs) = ebind (f x) (\<lambda>b. ebind (filterE f xs) (\<lambda>ys. Inr (if b then x # ys else ys)))"

lemma filterE_pure: "(\<And>x. x \<in> set xs \<Longrightarrow> f x = Inr (P x)) \<Longrightarrow> filterE f xs = Inr (filter P xs)"
  by (induction xs) auto

subsection \<open>Loops over a fixed list\<close>

fun foldE :: "('a \<Rightarrow> 's \<Rightarrow> 's result) \<Rightarrow> 'a list \<Rightarrow> 's \<Rightarrow> 's result" where
  "foldE f [] s = Inr s"
| "foldE f (x # xs) s = ebind (f x s) (foldE f xs)"

lemma foldE_append: "foldE f (xs @ ys) s = ebind (foldE f xs s) (foldE f ys)"
  by (induction xs arbitrary: s) (auto simp: ebind_def split: sum.splits)

subsection \<open>Postconditions\<close>

text \<open>What holds of the value of a routine whenever it does not stop with an error.\<close>

definition ensures :: "'a result \<Rightarrow> ('a \<Rightarrow> bool) \<Rightarrow> bool" where
  "ensures m P \<longleftrightarrow> (\<forall>x. m = Inr x \<longrightarrow> P x)"

lemma ensuresI: "(\<And>x. m = Inr x \<Longrightarrow> P x) \<Longrightarrow> ensures m P"
  by (simp add: ensures_def)

lemma ensuresD: "ensures m P \<Longrightarrow> m = Inr x \<Longrightarrow> P x"
  by (simp add: ensures_def)

lemma ensures_simps [simp]:
  "ensures (Inr x) P = P x"
  "ensures (Inl e) P"
  "ensures (ebind n f) P = ensures n (\<lambda>y. ensures (f y) P)"
  "ensures (assert_that msg b m) P = (b \<longrightarrow> ensures m P)"
  "ensures (nthE xs i) Q = (i < length xs \<longrightarrow> Q (xs ! i))"
  "ensures (updE i g xs) R = (i < length xs \<longrightarrow> R (xs[i := g (xs ! i)]))"
  "ensures (deref h p) S = (\<forall>e. h p = Some e \<longrightarrow> S e)"
  by (auto simp: ensures_def result_iffs vector_iffs assert_that_def)

lemma ensures_bind: "ensures m Q \<Longrightarrow> (\<And>x. Q x \<Longrightarrow> ensures (f x) P) \<Longrightarrow> ensures (ebind m f) P"
  by (auto simp: ensures_def result_iffs)

lemma ensures_mono: "ensures m P \<Longrightarrow> (\<And>x. P x \<Longrightarrow> Q x) \<Longrightarrow> ensures m Q"
  by (simp add: ensures_def)

lemma ensures_conj: "ensures m P \<Longrightarrow> ensures m Q \<Longrightarrow> ensures m (\<lambda>x. P x \<and> Q x)"
  by (simp add: ensures_def)

lemma ensures_foldE:
  "P s \<Longrightarrow> (\<And>x s. x \<in> set xs \<Longrightarrow> P s \<Longrightarrow> ensures (f x s) P) \<Longrightarrow> ensures (foldE f xs s) P"
proof (induction xs arbitrary: s)
  case (Cons x xs)
  have "ensures (f x s) P" using Cons.prems by simp
  then have "ensures (f x s) (\<lambda>s'. ensures (foldE f xs s') P)"
    by (rule ensures_mono) (rule Cons.IH, simp_all add: Cons.prems(2))
  then show ?case by simp
qed simp

subsection \<open>Powers of two in 64 bits\<close>

lemma unat_pow2 [simp]:
  assumes "k < 64"
  shows "unat (2 ^ k :: 64 word) = 2 ^ k"
proof -
  from assms have "(2 :: nat) ^ k < 2 ^ 64" by (rule power_strict_increasing) simp
  then have "unat (word_of_nat (2 ^ k) :: 64 word) = 2 ^ k"
    using assms unfolding unsigned_of_nat by (simp add: take_bit_nat_eq_self)
  then show ?thesis by simp
qed

lemma unat_lt64: "unat (x :: 64 word) < 2 ^ 64"
  using unsigned_less [of x, where 'a = nat] by simp

end
