(* ===== verification/EventQ.thy ===== *)
theory EventQ
  imports Prelude
begin

text \<open>
  The event queue of \<^verbatim>\<open>sim/eventq.{hh,cc}\<close> and \<^verbatim>\<open>sim/eventq_impl.hh\<close>, at the level
  of its pointers. Events live in a heap; a queue holds a pointer to the first event of a list
  of bins linked by \<^verbatim>\<open>nextBin\<close>, and each bin is a stack linked by \<^verbatim>\<open>nextInBin\<close>.
  Only the \<^verbatim>\<open>nextBin\<close> pointer of the top of a bin is meaningful, the others may be stale,
  exactly as the comments of the source say.
\<close>

subsection \<open>Events and queues\<close>

type_synonym evptr = nat
type_synonym qptr = nat

record event =
  nextBin :: "evptr option"
  nextInBin :: "evptr option"
  ev_when :: tick
  ev_priority :: int          \<comment> \<open>int8, only ever compared\<close>
  ev_flags :: "16 word"
  ev_queue :: "qptr option"   \<comment> \<open>the queue pointer of debug builds\<close>

type_synonym heap = "evptr \<Rightarrow> event option"

definition PublicRead :: "16 word" where "PublicRead = 0x003f"
definition PublicWrite :: "16 word" where "PublicWrite = 0x001d"
definition Squashed :: "16 word" where "Squashed = 0x0001"
definition Scheduled :: "16 word" where "Scheduled = 0x0002"
definition AutoDelete :: "16 word" where "AutoDelete = 0x0004"
definition IsExitEvent :: "16 word" where "IsExitEvent = 0x0010"
definition IsMainQueue :: "16 word" where "IsMainQueue = 0x0020"
definition Initialized :: "16 word" where "Initialized = 0x7a40"
definition InitMask :: "16 word" where "InitMask = 0xffc0"

lemmas flag_consts = PublicRead_def PublicWrite_def Squashed_def Scheduled_def AutoDelete_def
  IsExitEvent_def IsMainQueue_def Initialized_def InitMask_def

definition new_event :: "int \<Rightarrow> 16 word \<Rightarrow> event result" where
  "new_event p f =
     assert_that ''f.noneSet(~PublicWrite)'' (flags_noneSet f (NOT PublicWrite))
       (Inr \<lparr>nextBin = None, nextInBin = None, ev_when = 0, ev_priority = p,
             ev_flags = Initialized OR f, ev_queue = None\<rparr>)"

definition initialized :: "event \<Rightarrow> bool" where
  "initialized e \<longleftrightarrow> ev_flags e AND InitMask = Initialized"

definition scheduled :: "event \<Rightarrow> bool" where
  "scheduled e = flags_isSet (ev_flags e) Scheduled"

definition squashed :: "event \<Rightarrow> bool" where
  "squashed e = flags_isSet (ev_flags e) Squashed"

definition isExitEvent :: "event \<Rightarrow> bool" where
  "isExitEvent e = flags_isSet (ev_flags e) IsExitEvent"

definition isAutoDelete :: "event \<Rightarrow> bool" where
  "isAutoDelete e = flags_isSet (ev_flags e) AutoDelete"

definition squash :: "event \<Rightarrow> event" where
  "squash e = e\<lparr>ev_flags := flags_set (ev_flags e) Squashed\<rparr>"

definition setWhen :: "tick \<Rightarrow> qptr \<Rightarrow> event \<Rightarrow> event" where
  "setWhen t q e = e\<lparr>ev_when := t, ev_queue := Some q\<rparr>"

definition ev_less :: "event \<Rightarrow> event \<Rightarrow> bool" where
  "ev_less l r \<longleftrightarrow> ev_when l < ev_when r \<or> ev_when l = ev_when r \<and> ev_priority l < ev_priority r"

definition ev_le :: "event \<Rightarrow> event \<Rightarrow> bool" where
  "ev_le l r \<longleftrightarrow> ev_when l < ev_when r \<or> ev_when l = ev_when r \<and> ev_priority l \<le> ev_priority r"

definition ev_eq :: "event \<Rightarrow> event \<Rightarrow> bool" where
  "ev_eq l r \<longleftrightarrow> ev_when l = ev_when r \<and> ev_priority l = ev_priority r"

definition ev_ne :: "event \<Rightarrow> event \<Rightarrow> bool" where
  "ev_ne l r \<longleftrightarrow> ev_when l \<noteq> ev_when r \<or> ev_priority l \<noteq> ev_priority r"

subsection \<open>Insertion into and removal from the linked bins\<close>

definition insertBefore :: "heap \<Rightarrow> evptr \<Rightarrow> evptr option \<Rightarrow> (heap \<times> evptr) result" where
  "insertBefore h event cur =
     ebind (deref h event) (\<lambda>e.
       case cur of
         None \<Rightarrow> Inr (h(event \<mapsto> e\<lparr>nextBin := None, nextInBin := None\<rparr>), event)
       | Some c \<Rightarrow> ebind (deref h c) (\<lambda>ce.
           if ev_less e ce
           then Inr (h(event \<mapsto> e\<lparr>nextBin := Some c, nextInBin := None\<rparr>), event)
           else Inr (h(event \<mapsto> e\<lparr>nextBin := nextBin ce, nextInBin := Some c\<rparr>), event)))"

text \<open>The loop that \<^verbatim>\<open>insert\<close> and \<^verbatim>\<open>remove\<close> share: walk the tops of the bins
  while they are earlier than the event.\<close>

partial_function (option) find_bin ::
  "heap \<Rightarrow> event \<Rightarrow> evptr \<Rightarrow> evptr option \<Rightarrow> (evptr \<times> evptr option) result option" where
  "find_bin h e prev cur =
     (case cur of
        None \<Rightarrow> Some (Inr (prev, None))
      | Some c \<Rightarrow>
          (case h c of
             None \<Rightarrow> Some (Inl NullDeref)
           | Some ce \<Rightarrow> if ev_less ce e then find_bin h e c (nextBin ce)
                        else Some (Inr (prev, cur))))"

declare find_bin.simps [code]

definition eq_insert :: "heap \<Rightarrow> evptr option \<Rightarrow> evptr \<Rightarrow> (heap \<times> evptr option) result" where
  "eq_insert h hd_ptr event =
     ebind (deref h event) (\<lambda>e.
       case hd_ptr of
         None \<Rightarrow> ebind (insertBefore h event None) (\<lambda>(h', p). Inr (h', Some p))
       | Some hp \<Rightarrow> ebind (deref h hp) (\<lambda>he.
           if ev_le e he
           then ebind (insertBefore h event (Some hp)) (\<lambda>(h', p). Inr (h', Some p))
           else ebind (from_loop (find_bin h e hp (nextBin he))) (\<lambda>(prev, cur).
                ebind (insertBefore h event cur) (\<lambda>(h', p).
                ebind (deref h' prev) (\<lambda>pe.
                  Inr (h'(prev \<mapsto> pe\<lparr>nextBin := Some p\<rparr>), Some hp))))))"

partial_function (option) find_in_bin ::
  "heap \<Rightarrow> evptr \<Rightarrow> evptr \<Rightarrow> evptr option \<Rightarrow> (evptr \<times> evptr) result option" where
  "find_in_bin h event cur nxt =
     (if Some event \<noteq> nxt then
        (case nxt of
           None \<Rightarrow> Some (Inl (Panic ''event not found!''))
         | Some n \<Rightarrow> (case h n of None \<Rightarrow> Some (Inl NullDeref)
                      | Some ne \<Rightarrow> find_in_bin h event n (nextInBin ne)))
      else Some (Inr (cur, event)))"

declare find_in_bin.simps [code]

definition removeItem :: "heap \<Rightarrow> evptr \<Rightarrow> evptr \<Rightarrow> (heap \<times> evptr option) result" where
  "removeItem h event tp =
     ebind (deref h tp) (\<lambda>te.
       if event = tp then
         (case nextInBin te of
            None \<Rightarrow> Inr (h, nextBin te)
          | Some n \<Rightarrow> ebind (deref h n) (\<lambda>ne.
              Inr (h(n \<mapsto> ne\<lparr>nextBin := nextBin te\<rparr>), Some n)))
       else
         ebind (from_loop (find_in_bin h event tp (nextInBin te))) (\<lambda>(cur, n).
         ebind (deref h n) (\<lambda>ne.
         ebind (deref h cur) (\<lambda>ce.
           Inr (h(cur \<mapsto> ce\<lparr>nextInBin := nextInBin ne\<rparr>), Some tp)))))"

definition eq_remove :: "qptr \<Rightarrow> heap \<Rightarrow> evptr option \<Rightarrow> evptr \<Rightarrow> (heap \<times> evptr option) result" where
  "eq_remove this h hd_ptr event =
     (case hd_ptr of
        None \<Rightarrow> Inl (Panic ''event not found!'')
      | Some hp \<Rightarrow>
          ebind (deref h event) (\<lambda>e.
          assert_that ''event->queue == this'' (ev_queue e = Some this)
          (ebind (deref h hp) (\<lambda>he.
             if ev_eq he e then removeItem h event hp
             else ebind (from_loop (find_bin h e hp (nextBin he))) (\<lambda>(prev, cur).
               (case cur of
                  None \<Rightarrow> Inl (Panic ''event not found!'')
                | Some c \<Rightarrow> ebind (deref h c) (\<lambda>ce.
                    if ev_ne ce e then Inl (Panic ''event not found!'')
                    else ebind (removeItem h event c) (\<lambda>(h', p).
                         ebind (deref h' prev) (\<lambda>pe.
                           Inr (h'(prev \<mapsto> pe\<lparr>nextBin := p\<rparr>), hd_ptr))))))))))"

subsection \<open>The queue object and its methods\<close>

record event_queue =
  eq_this :: qptr              \<comment> \<open>the address of the queue object\<close>
  objName :: string
  head :: "evptr option"
  eq_curTick :: tick
  async_queue :: "evptr list"

text \<open>What a queue method can see and change: the heap of events, the queue it is called on and
  the two globals the methods read. Clients extend the record with their own state.\<close>

record sim =
  evheap :: heap
  evq :: event_queue
  inParallelMode :: bool
  curEventQueue :: "qptr option"

definition new_queue :: "qptr \<Rightarrow> string \<Rightarrow> event_queue" where
  "new_queue q n = \<lparr>eq_this = q, objName = n, head = None, eq_curTick = 0, async_queue = []\<rparr>"

definition eq_empty :: "event_queue \<Rightarrow> bool" where
  "eq_empty q \<longleftrightarrow> head q = None"

definition setCurTick :: "tick \<Rightarrow> 'z sim_scheme \<Rightarrow> 'z sim_scheme" where
  "setCurTick t s = s\<lparr>evq := (evq s)\<lparr>eq_curTick := t\<rparr>\<rparr>"

definition asyncInsert :: "evptr \<Rightarrow> event_queue \<Rightarrow> event_queue" where
  "asyncInsert event q = q\<lparr>async_queue := async_queue q @ [event]\<rparr>"

text \<open>\<^verbatim>\<open>insert\<close> and \<^verbatim>\<open>remove\<close> as methods: the new head is stored in the queue.\<close>

definition sim_insert :: "evptr \<Rightarrow> 'z sim_scheme \<Rightarrow> 'z sim_scheme result" where
  "sim_insert event s =
     ebind (eq_insert (evheap s) (head (evq s)) event) (\<lambda>(h, hp).
       Inr (s\<lparr>evheap := h, evq := (evq s)\<lparr>head := hp\<rparr>\<rparr>))"

definition sim_remove :: "evptr \<Rightarrow> 'z sim_scheme \<Rightarrow> 'z sim_scheme result" where
  "sim_remove event s =
     ebind (eq_remove (eq_this (evq s)) (evheap s) (head (evq s)) event) (\<lambda>(h, hp).
       Inr (s\<lparr>evheap := h, evq := (evq s)\<lparr>head := hp\<rparr>\<rparr>))"

definition upd_event :: "evptr \<Rightarrow> (event \<Rightarrow> event) \<Rightarrow> 'z sim_scheme \<Rightarrow> 'z sim_scheme result" where
  "upd_event event f s =
     ebind (deref (evheap s) event) (\<lambda>e. Inr (s\<lparr>evheap := (evheap s)(event \<mapsto> f e)\<rparr>))"

definition delete_event :: "evptr \<Rightarrow> 'z sim_scheme \<Rightarrow> 'z sim_scheme result" where
  "delete_event event s =
     ebind (deref (evheap s) event) (\<lambda>e.
       assert_that ''!scheduled()'' (\<not> scheduled e)
         (Inr (s\<lparr>evheap := (evheap s)(event := None)\<rparr>)))"

definition set_flag :: "16 word \<Rightarrow> event \<Rightarrow> event" where
  "set_flag m e = e\<lparr>ev_flags := flags_set (ev_flags e) m\<rparr>"

definition clear_flag :: "16 word \<Rightarrow> event \<Rightarrow> event" where
  "clear_flag m e = e\<lparr>ev_flags := flags_clear (ev_flags e) m\<rparr>"

definition schedule :: "evptr \<Rightarrow> tick \<Rightarrow> bool \<Rightarrow> 'z sim_scheme \<Rightarrow> 'z sim_scheme result" where
  "schedule event t global s =
     assert_that ''when >= getCurTick()'' (eq_curTick (evq s) \<le> t)
     (ebind (deref (evheap s) event) (\<lambda>e.
      assert_that ''!event->scheduled()'' (\<not> scheduled e)
      (assert_that ''event->initialized()'' (initialized e)
      (ebind (upd_event event (setWhen t (eq_this (evq s))) s) (\<lambda>s1.
       ebind (if inParallelMode s1 \<and> (curEventQueue s1 \<noteq> Some (eq_this (evq s1)) \<or> global)
              then Inr (s1\<lparr>evq := asyncInsert event (evq s1)\<rparr>)
              else sim_insert event s1) (\<lambda>s2.
         upd_event event (set_flag Scheduled) s2))))))"

definition deschedule :: "evptr \<Rightarrow> 'z sim_scheme \<Rightarrow> 'z sim_scheme result" where
  "deschedule event s =
     ebind (deref (evheap s) event) (\<lambda>e.
      assert_that ''event->scheduled()'' (scheduled e)
      (assert_that ''event->initialized()'' (initialized e)
      (assert_that ''!inParallelMode || this == curEventQueue()''
         (\<not> inParallelMode s \<or> curEventQueue s = Some (eq_this (evq s)))
      (ebind (sim_remove event s) (\<lambda>s1.
       ebind (upd_event event (clear_flag Scheduled \<circ> clear_flag Squashed) s1) (\<lambda>s2.
       ebind (deref (evheap s2) event) (\<lambda>e2.
         if isAutoDelete e2 then delete_event event s2 else Inr s2)))))))"

definition reschedule :: "evptr \<Rightarrow> tick \<Rightarrow> bool \<Rightarrow> 'z sim_scheme \<Rightarrow> 'z sim_scheme result" where
  "reschedule event t always s =
     assert_that ''when >= getCurTick()'' (eq_curTick (evq s) \<le> t)
     (ebind (deref (evheap s) event) (\<lambda>e.
      assert_that ''always || event->scheduled()'' (always \<or> scheduled e)
      (assert_that ''event->initialized()'' (initialized e)
      (assert_that ''!inParallelMode || this == curEventQueue()''
         (\<not> inParallelMode s \<or> curEventQueue s = Some (eq_this (evq s)))
      (ebind (if scheduled e then sim_remove event s else Inr s) (\<lambda>s1.
       ebind (upd_event event (setWhen t (eq_this (evq s1))) s1) (\<lambda>s2.
       ebind (sim_insert event s2) (\<lambda>s3.
         upd_event event (set_flag Scheduled \<circ> clear_flag Squashed) s3))))))))"

text \<open>Taking the head off the queue, the first half of \<^verbatim>\<open>serviceOne\<close>.\<close>

definition pop_head :: "'z sim_scheme \<Rightarrow> (evptr \<times> 'z sim_scheme) result" where
  "pop_head s =
     (case head (evq s) of
        None \<Rightarrow> Inl NullDeref
      | Some event \<Rightarrow>
          ebind (upd_event event (clear_flag Scheduled) s) (\<lambda>s1.
          ebind (deref (evheap s1) event) (\<lambda>e.
            case nextInBin e of
              Some n \<Rightarrow> ebind (upd_event n (\<lambda>ne. ne\<lparr>nextBin := nextBin e\<rparr>) s1) (\<lambda>s2.
                          Inr (event, s2\<lparr>evq := (evq s2)\<lparr>head := Some n\<rparr>\<rparr>))
            | None \<Rightarrow> Inr (event, s1\<lparr>evq := (evq s1)\<lparr>head := nextBin e\<rparr>\<rparr>))))"

definition auto_delete :: "evptr \<Rightarrow> 'z sim_scheme \<Rightarrow> 'z sim_scheme result" where
  "auto_delete event s =
     ebind (deref (evheap s) event) (\<lambda>e.
       if isAutoDelete e \<and> \<not> scheduled e then delete_event event s else Inr s)"

definition serviceOne ::
  "(evptr \<Rightarrow> 'z sim_scheme \<Rightarrow> 'z sim_scheme result) \<Rightarrow> 'z sim_scheme
     \<Rightarrow> (evptr option \<times> 'z sim_scheme) result" where
  "serviceOne process s =
     ebind (pop_head s) (\<lambda>(event, s1).
     ebind (deref (evheap s1) event) (\<lambda>e.
       if \<not> squashed e then
         ebind (process event (setCurTick (ev_when e) s1)) (\<lambda>s2.
         ebind (deref (evheap s2) event) (\<lambda>e2.
           if isExitEvent e2 then
             assert_that ''!AutoDelete || !IsMainQueue''
               (\<not> isAutoDelete e2 \<or> \<not> flags_isSet (ev_flags e2) IsMainQueue)
               (Inr (Some event, s2))
           else ebind (auto_delete event s2) (\<lambda>s3. Inr (None, s3))))
       else
         ebind (upd_event event (clear_flag Squashed) s1) (\<lambda>s2.
         ebind (auto_delete event s2) (\<lambda>s3. Inr (None, s3)))))"

partial_function (option) serviceEvents_loop ::
  "(evptr \<Rightarrow> 'z sim_scheme \<Rightarrow> 'z sim_scheme result) \<Rightarrow> tick \<Rightarrow> 'z sim_scheme
     \<Rightarrow> 'z sim_scheme result option" where
  "serviceEvents_loop process t s =
     (case head (evq s) of
        None \<Rightarrow> Some (Inr s)
      | Some hp \<Rightarrow>
          (case evheap s hp of
             None \<Rightarrow> Some (Inl NullDeref)
           | Some he \<Rightarrow>
               if ev_when he > t then Some (Inr s)
               else (case serviceOne process s of
                       Inl er \<Rightarrow> Some (Inl er)
                     | Inr (_, s') \<Rightarrow> serviceEvents_loop process t s')))"

definition serviceEvents ::
  "(evptr \<Rightarrow> 'z sim_scheme \<Rightarrow> 'z sim_scheme result) \<Rightarrow> tick \<Rightarrow> 'z sim_scheme
     \<Rightarrow> 'z sim_scheme result" where
  "serviceEvents process t s =
     ebind (from_loop (serviceEvents_loop process t s)) (\<lambda>s'. Inr (setCurTick t s'))"

fun insert_all :: "evptr list \<Rightarrow> 'z sim_scheme \<Rightarrow> 'z sim_scheme result" where
  "insert_all [] s = Inr s"
| "insert_all (event # evs) s = ebind (sim_insert event s) (insert_all evs)"

definition handleAsyncInsertions :: "'z sim_scheme \<Rightarrow> 'z sim_scheme result" where
  "handleAsyncInsertions s =
     assert_that ''this == curEventQueue()'' (curEventQueue s = Some (eq_this (evq s)))
     (ebind (insert_all (async_queue (evq s)) s) (\<lambda>s1.
        Inr (s1\<lparr>evq := (evq s1)\<lparr>async_queue := []\<rparr>\<rparr>)))"

definition replaceHead :: "evptr option \<Rightarrow> event_queue \<Rightarrow> evptr option \<times> event_queue" where
  "replaceHead p q = (head q, q\<lparr>head := p\<rparr>)"

subsection \<open>The self check of the queue\<close>

text \<open>\<^verbatim>\<open>debugVerify\<close>: the inner loop over one bin, which yields \<open>None\<close> when a check fails, and
  the outer loop over the bins. Both start from time 0 and priority 0.\<close>

partial_function (option) verify_bin ::
  "heap \<Rightarrow> evptr option \<Rightarrow> tick \<Rightarrow> int \<Rightarrow> evptr list
     \<Rightarrow> (tick \<times> int \<times> evptr list) option result option" where
  "verify_bin h p time priority seen =
     (case p of
        None \<Rightarrow> Some (Inr (Some (time, priority, seen)))
      | Some x \<Rightarrow>
          (case h x of
             None \<Rightarrow> Some (Inl NullDeref)
           | Some e \<Rightarrow>
               if ev_when e < time then Some (Inr None)
               else if ev_when e = time \<and> ev_priority e < priority then Some (Inr None)
               else if x \<in> set seen then Some (Inr None)
               else verify_bin h (nextInBin e) (ev_when e) (ev_priority e) (x # seen)))"

partial_function (option) verify_bins ::
  "heap \<Rightarrow> evptr option \<Rightarrow> tick \<Rightarrow> int \<Rightarrow> evptr list \<Rightarrow> bool result option" where
  "verify_bins h p time priority seen =
     (case p of
        None \<Rightarrow> Some (Inr True)
      | Some x \<Rightarrow>
          (case verify_bin h (Some x) time priority seen of
             None \<Rightarrow> None
           | Some (Inl er) \<Rightarrow> Some (Inl er)
           | Some (Inr None) \<Rightarrow> Some (Inr False)
           | Some (Inr (Some (time', priority', seen'))) \<Rightarrow>
               (case h x of
                  None \<Rightarrow> Some (Inl NullDeref)
                | Some e \<Rightarrow> verify_bins h (nextBin e) time' priority' seen')))"

definition debugVerify :: "'z sim_scheme \<Rightarrow> bool result" where
  "debugVerify s = from_loop (verify_bins (evheap s) (head (evq s)) 0 0 [])"

subsection \<open>Checkpoints\<close>

record event_cp =
  cp_when :: tick
  cp_priority :: int
  cp_flags :: "16 word"

definition ev_serialize :: "event \<Rightarrow> event_cp" where
  "ev_serialize e = \<lparr>cp_when = ev_when e, cp_priority = ev_priority e, cp_flags = ev_flags e\<rparr>"

definition ev_unserialize :: "event_cp \<Rightarrow> event \<Rightarrow> event result" where
  "ev_unserialize cp e =
     assert_that ''!scheduled()'' (\<not> scheduled e)
     (let e1 = e\<lparr>ev_when := cp_when cp, ev_priority := cp_priority cp\<rparr> in
      assert_that ''initialized()'' (initialized e1)
      (let e2 = e1\<lparr>ev_flags := flags_set (cp_flags cp) Initialized\<rparr> in
       Inr (if flags_isSet (ev_flags e2) Scheduled \<and> \<not> flags_isSet (ev_flags e2) Squashed
            then clear_flag (Squashed OR Scheduled) e2 else e2)))"

definition checkpointReschedule :: "evptr \<Rightarrow> 'z sim_scheme \<Rightarrow> 'z sim_scheme result" where
  "checkpointReschedule event s =
     ebind (deref (evheap s) event) (\<lambda>e.
       if flags_isSet (ev_flags e) Scheduled then sim_insert event s else Inr s)"

subsection \<open>The main event queues\<close>

text \<open>\<^verbatim>\<open>getEventQueue\<close> grows the vector of queues until the index is in range. Decimal
  printing of the index is a parameter.\<close>

function getEventQueue ::
  "(nat \<Rightarrow> string) \<Rightarrow> nat \<Rightarrow> event_queue list \<Rightarrow> event_queue \<times> event_queue list" where
  "getEventQueue dec index qs =
     (if length qs \<le> index
      then getEventQueue dec index (qs @ [new_queue (length qs) (''MainEventQueue-'' @ dec index)])
      else (qs ! index, qs))"
  by pat_completeness auto
termination
  by (relation "measure (\<lambda>(dec, index, qs). Suc index - length qs)") auto

declare getEventQueue.simps [simp del]

subsection \<open>The simulation loop of \<^verbatim>\<open>sim/simulate.cc\<close>\<close>

record simloop = sim +
  async_event :: bool
  async_statdump :: bool
  async_statreset :: bool
  async_io :: bool
  async_exit :: bool
  async_exception :: bool

text \<open>The asynchronous requests of signal handlers, in the order in which the loop tests them.
  Scheduling of the statistics event, polling and \<^verbatim>\<open>exitSimLoop\<close> belong to other parts of the
  simulator and are parameters. The result says whether the loop returns \<^verbatim>\<open>NULL\<close>.\<close>

definition service_async ::
  "(bool \<Rightarrow> bool \<Rightarrow> 'z simloop_scheme \<Rightarrow> 'z simloop_scheme result) \<Rightarrow>
   ('z simloop_scheme \<Rightarrow> 'z simloop_scheme result) \<Rightarrow>
   (string \<Rightarrow> 'z simloop_scheme \<Rightarrow> 'z simloop_scheme result) \<Rightarrow>
   'z simloop_scheme \<Rightarrow> (bool \<times> 'z simloop_scheme) result" where
  "service_async schedStatEvent pollQueue_service exitSimLoop s =
     (if \<not> async_event s then Inr (False, s)
      else
        let s0 = s\<lparr>async_event := False\<rparr> in
        ebind (if async_statdump s0 \<or> async_statreset s0
               then ebind (schedStatEvent (async_statdump s0) (async_statreset s0) s0) (\<lambda>s1.
                      Inr (s1\<lparr>async_statdump := False, async_statreset := False\<rparr>))
               else Inr s0) (\<lambda>s2.
        ebind (if async_io s2 then pollQueue_service (s2\<lparr>async_io := False\<rparr>) else Inr s2) (\<lambda>s3.
        ebind (if async_exit s3
               then exitSimLoop ''user interrupt received'' (s3\<lparr>async_exit := False\<rparr>)
               else Inr s3) (\<lambda>s4.
          if async_exception s4 then Inr (True, s4\<lparr>async_exception := False\<rparr>)
          else Inr (False, s4)))))"

definition simloop_guard :: "'z sim_scheme \<Rightarrow> unit result" where
  "simloop_guard s =
     assert_that ''!eventq->empty()'' (\<not> eq_empty (evq s))
       (case head (evq s) of
          None \<Rightarrow> Inl NullDeref
        | Some hp \<Rightarrow> ebind (deref (evheap s) hp) (\<lambda>he.
            assert_that ''event scheduled in the past'' (eq_curTick (evq s) \<le> ev_when he)
              (Inr ())))"

partial_function (option) simloop_iter ::
  "(evptr \<Rightarrow> 'z simloop_scheme \<Rightarrow> 'z simloop_scheme result) \<Rightarrow>
   ('z simloop_scheme \<Rightarrow> (bool \<times> 'z simloop_scheme) result) \<Rightarrow>
   'z simloop_scheme \<Rightarrow> (evptr option \<times> 'z simloop_scheme) result option" where
  "simloop_iter process async s =
     (case simloop_guard s of
        Inl er \<Rightarrow> Some (Inl er)
      | Inr _ \<Rightarrow>
          (case async s of
             Inl er \<Rightarrow> Some (Inl er)
           | Inr (stop, s1) \<Rightarrow>
               if stop then Some (Inr (None, s1))
               else (case serviceOne process s1 of
                       Inl er \<Rightarrow> Some (Inl er)
                     | Inr (Some x, s2) \<Rightarrow> Some (Inr (Some x, s2))
                     | Inr (None, s2) \<Rightarrow> simloop_iter process async s2)))"

definition doSimLoop where
  "doSimLoop process async s =
     ebind (handleAsyncInsertions (s\<lparr>curEventQueue := Some (eq_this (evq s))\<rparr>))
       (\<lambda>s1. from_loop (simloop_iter process async s1))"

end
