(* ===== verification/EventQ_Bins.thy ===== *)
theory EventQ_Bins
  imports EventQ
begin

text \<open>
  What the linked bins of the event queue stand for. The specification level is a list of bins,
  each a non-empty stack of events with one common (time, priority) key, in strictly increasing
  key order; insertion pushes on the stack of its key, removal takes an event out of its stack.
  \<^verbatim>\<open>wf_queue\<close> relates a heap and a head pointer to such a list, and the pointer routines are
  shown to implement the operations of the list.
\<close>

subsection \<open>The specification: ordered bins\<close>

type_synonym key = "tick \<times> int"

definition ev_key :: "event \<Rightarrow> key" where
  "ev_key e = (ev_when e, ev_priority e)"

fun bins_insert :: "(evptr \<Rightarrow> key) \<Rightarrow> evptr \<Rightarrow> evptr list list \<Rightarrow> evptr list list" where
  "bins_insert K x [] = [[x]]"
| "bins_insert K x (b # bs) =
     (if K x < K (hd b) then [x] # b # bs
      else if K x = K (hd b) then (x # b) # bs
      else b # bins_insert K x bs)"

fun bins_remove :: "evptr \<Rightarrow> evptr list list \<Rightarrow> evptr list list" where
  "bins_remove x [] = []"
| "bins_remove x (b # bs) =
     (if x \<in> set b then (if b = [x] then bs else remove1 x b # bs) else b # bins_remove x bs)"

definition bin_events :: "evptr list list \<Rightarrow> evptr set" where
  "bin_events bs = set (concat bs)"

definition same_key :: "(evptr \<Rightarrow> key) \<Rightarrow> evptr list \<Rightarrow> bool" where
  "same_key K b \<longleftrightarrow> (\<forall>x \<in> set b. K x = K (hd b))"

definition bins_ok :: "(evptr \<Rightarrow> key) \<Rightarrow> evptr list list \<Rightarrow> bool" where
  "bins_ok K bs \<longleftrightarrow>
     [] \<notin> set bs \<and> distinct (concat bs) \<and>
     (\<forall>b \<in> set bs. same_key K b) \<and>
     sorted_wrt (<) (map (K \<circ> hd) bs)"

lemma ev_less_key: "ev_less l r \<longleftrightarrow> ev_key l < ev_key r"
  by (auto simp: ev_less_def ev_key_def)

lemma ev_le_key: "ev_le l r \<longleftrightarrow> ev_key l \<le> ev_key r"
  by (auto simp: ev_le_def ev_key_def)

lemma ev_eq_key: "ev_eq l r \<longleftrightarrow> ev_key l = ev_key r"
  by (auto simp: ev_eq_def ev_key_def)

lemma ev_ne_key: "ev_ne l r \<longleftrightarrow> ev_key l \<noteq> ev_key r"
  by (auto simp: ev_ne_def ev_key_def)

lemmas ev_cmp_key = ev_less_key ev_le_key ev_eq_key ev_ne_key

lemma bin_events_simps [simp]:
  "bin_events [] = {}"
  "bin_events (b # bs) = set b \<union> bin_events bs"
  "bin_events (as @ bs) = bin_events as \<union> bin_events bs"
  by (auto simp: bin_events_def)

lemma bin_eventsI: "b \<in> set bs \<Longrightarrow> x \<in> set b \<Longrightarrow> x \<in> bin_events bs"
  by (auto simp: bin_events_def)

lemma bins_ok_Nil [simp]: "bins_ok K []"
  by (simp add: bins_ok_def)

lemma bins_ok_Cons:
  "bins_ok K (b # bs) \<longleftrightarrow>
     b \<noteq> [] \<and> distinct b \<and> set b \<inter> bin_events bs = {} \<and> same_key K b \<and>
     (\<forall>b' \<in> set bs. K (hd b) < K (hd b')) \<and> bins_ok K bs"
  by (auto simp: bins_ok_def bin_events_def)

lemma bins_ok_append:
  "bins_ok K (as @ bs) \<longleftrightarrow>
     bins_ok K as \<and> bins_ok K bs \<and> bin_events as \<inter> bin_events bs = {} \<and>
     (\<forall>a \<in> set as. \<forall>b \<in> set bs. K (hd a) < K (hd b))"
  by (induction as) (auto simp: bins_ok_Cons)

lemma set_bins_insert [simp]: "bin_events (bins_insert K x bs) = insert x (bin_events bs)"
  by (induction bs) auto

lemma bins_ok_key: "bins_ok K bs \<Longrightarrow> b \<in> set bs \<Longrightarrow> x \<in> set b \<Longrightarrow> K x = K (hd b)"
  by (simp add: bins_ok_def same_key_def)

lemma same_key_simps [simp]:
  "same_key K []"
  "same_key K [x]"
  by (simp_all add: same_key_def)

lemma same_keyD: "same_key K b \<Longrightarrow> x \<in> set b \<Longrightarrow> K x = K (hd b)"
  by (simp add: same_key_def)

lemma same_key_push: "same_key K b \<Longrightarrow> K x = K (hd b) \<Longrightarrow> same_key K (x # b)"
  by (simp add: same_key_def)

lemma hd_bins_insert:
  "b \<in> set (bins_insert K x bs) \<Longrightarrow> K (hd b) = K x \<or> (\<exists>b' \<in> set bs. K (hd b) = K (hd b'))"
  by (induction bs) (auto split: if_splits)

lemma bins_ok_insert:
  "bins_ok K bs \<Longrightarrow> x \<notin> bin_events bs \<Longrightarrow> bins_ok K (bins_insert K x bs)"
proof (induction bs)
  case Nil
  then show ?case by (simp add: bins_ok_Cons)
next
  case (Cons b bs)
  then have IH: "bins_ok K (bins_insert K x bs)"
    and b: "b \<noteq> []" "distinct b" "set b \<inter> bin_events bs = {}"
      "same_key K b" "\<forall>b' \<in> set bs. K (hd b) < K (hd b')"
    by (auto simp: bins_ok_Cons)
  consider "K x < K (hd b)" | "K x = K (hd b)" | "K (hd b) < K x" by fastforce
  then show ?case
  proof cases
    case 1
    moreover from 1 b have "\<forall>b' \<in> set bs. K x < K (hd b')" by (meson less_trans)
    ultimately show ?thesis using Cons.prems by (auto simp: bins_ok_Cons)
  next
    case 2
    then show ?thesis using Cons.prems b by (auto simp: bins_ok_Cons intro: same_key_push)
  next
    case 3
    then have "\<forall>b' \<in> set (bins_insert K x bs). K (hd b) < K (hd b')"
      using b(5) by (auto dest!: hd_bins_insert)
    moreover have "set b \<inter> bin_events (bins_insert K x bs) = {}"
      using b Cons.prems by auto
    ultimately show ?thesis using 3 b IH by (auto simp: bins_ok_Cons)
  qed
qed

lemma bins_insert_skip:
  "(\<forall>b \<in> set as. K (hd b) < K x) \<Longrightarrow> bins_insert K x (as @ bs) = as @ bins_insert K x bs"
  by (induction as) auto

lemma bins_remove_skip:
  "x \<notin> bin_events as \<Longrightarrow> bins_remove x (as @ bs) = as @ bins_remove x bs"
  by (induction as) auto

lemma bins_remove_notin: "x \<notin> bin_events bs \<Longrightarrow> bins_remove x bs = bs"
  by (induction bs) auto

lemma set_bins_remove:
  "bins_ok K bs \<Longrightarrow> bin_events (bins_remove x bs) = bin_events bs - {x}"
proof (induction bs)
  case (Cons b bs)
  then show ?case by (auto simp: bins_ok_Cons)
qed simp

lemma remove1_neq_Nil: "x \<in> set b \<Longrightarrow> b \<noteq> [x] \<Longrightarrow> remove1 x b \<noteq> []"
  by (cases b) (auto split: if_splits)

lemma hd_remove1_in: "x \<in> set b \<Longrightarrow> b \<noteq> [x] \<Longrightarrow> hd (remove1 x b) \<in> set b"
  by (meson hd_in_set notin_set_remove1 remove1_neq_Nil)

lemma hd_bins_remove:
  assumes "bins_ok K bs" "b \<in> set (bins_remove x bs)"
  shows "\<exists>b' \<in> set bs. K (hd b) = K (hd b')"
  using assms
proof (induction bs)
  case (Cons c bs)
  show ?case
  proof (cases "b = remove1 x c \<and> x \<in> set c \<and> c \<noteq> [x]")
    case True
    then have "hd b \<in> set c" by (simp add: hd_remove1_in)
    moreover have "same_key K c" using Cons.prems(1) by (simp add: bins_ok_Cons)
    ultimately have "K (hd b) = K (hd c)" by (blast dest: same_keyD)
    then show ?thesis by simp
  next
    case False
    with Cons.prems(2) have "b = c \<or> b \<in> set bs \<or> b \<in> set (bins_remove x bs)"
      by (simp split: if_splits) blast+
    then show ?thesis using Cons.IH Cons.prems(1) by (auto simp: bins_ok_Cons)
  qed
qed simp

lemma bins_ok_remove: "bins_ok K bs \<Longrightarrow> bins_ok K (bins_remove x bs)"
proof (induction bs)
  case (Cons b bs)
  then have ok: "bins_ok K bs" and b: "b \<noteq> []" "distinct b" "set b \<inter> bin_events bs = {}"
      "same_key K b" "\<forall>b' \<in> set bs. K (hd b) < K (hd b')"
    by (auto simp: bins_ok_Cons)
  show ?case
  proof (cases "x \<in> set b")
    case True
    show ?thesis
    proof (cases "b = [x]")
      case False
      then have "remove1 x b \<noteq> []" using True by (simp add: remove1_neq_Nil)
      have "hd (remove1 x b) \<in> set b" using True False by (rule hd_remove1_in)
      then have k: "K (hd (remove1 x b)) = K (hd b)" using b(4) by (blast dest: same_keyD)
      have "same_key K (remove1 x b)"
        using b(4) k by (metis same_key_def notin_set_remove1)
      then show ?thesis using True False b ok k \<open>remove1 x b \<noteq> []\<close>
        by (auto simp: bins_ok_Cons dest: notin_set_remove1)
    qed (use ok in simp)
  next
    case False
    have "\<forall>b' \<in> set (bins_remove x bs). K (hd b) < K (hd b')"
    proof
      fix b' assume "b' \<in> set (bins_remove x bs)"
      then obtain c where "c \<in> set bs" "K (hd b') = K (hd c)" using ok hd_bins_remove by blast
      then show "K (hd b) < K (hd b')" using b(5) by simp
    qed
    moreover have "set b \<inter> bin_events (bins_remove x bs) = {}"
      using b ok set_bins_remove [OF ok, of x] by blast
    ultimately show ?thesis using False b Cons by (simp add: bins_ok_Cons)
  qed
qed simp

text \<open>Removing an event that was just inserted gives the bins back.\<close>

lemma bins_remove_insert:
  "x \<notin> bin_events bs \<Longrightarrow> [] \<notin> set bs \<Longrightarrow> bins_remove x (bins_insert K x bs) = bs"
  by (induction bs) auto

end
