(* ===== verification/EventQ_Refine.thy ===== *)
theory EventQ_Refine
  imports EventQ_Bins
begin

text \<open>
  The pointer routines of the event queue implement the operations on ordered bins. The
  representation predicates follow the pointers: \<^verbatim>\<open>stack_at\<close> one bin, \<^verbatim>\<open>bins_seg\<close> a
  segment of the list of bins, \<^verbatim>\<open>wf_queue\<close> a whole well-formed queue.
\<close>

subsection \<open>Representation\<close>

fun stack_at :: "heap \<Rightarrow> evptr option \<Rightarrow> evptr list \<Rightarrow> bool" where
  "stack_at h p [] \<longleftrightarrow> p = None"
| "stack_at h p (x # xs) \<longleftrightarrow>
     p = Some x \<and> (\<exists>e. h x = Some e \<and> stack_at h (nextInBin e) xs)"

fun bins_seg :: "heap \<Rightarrow> evptr option \<Rightarrow> evptr list list \<Rightarrow> evptr option \<Rightarrow> bool" where
  "bins_seg h p [] q \<longleftrightarrow> p = q"
| "bins_seg h p (b # bs) q \<longleftrightarrow>
     (\<exists>x xs e. b = x # xs \<and> p = Some x \<and> h x = Some e \<and> stack_at h (nextInBin e) xs \<and>
        bins_seg h (nextBin e) bs q)"

definition key_at :: "heap \<Rightarrow> evptr \<Rightarrow> key" where
  "key_at h x = (case h x of None \<Rightarrow> (0, 0) | Some e \<Rightarrow> ev_key e)"

definition wf_queue :: "heap \<Rightarrow> evptr option \<Rightarrow> evptr list list \<Rightarrow> bool" where
  "wf_queue h p bs \<longleftrightarrow> bins_seg h p bs None \<and> bins_ok (key_at h) bs"

text \<open>The fields the linking routines write, and the ones they must not touch.\<close>

definition ev_links :: "event \<Rightarrow> evptr option \<times> evptr option" where
  "ev_links e = (nextBin e, nextInBin e)"

definition ev_core :: "event \<Rightarrow> tick \<times> int \<times> 16 word \<times> qptr option" where
  "ev_core e = (ev_when e, ev_priority e, ev_flags e, ev_queue e)"

definition same_core :: "heap \<Rightarrow> heap \<Rightarrow> bool" where
  "same_core h h' \<longleftrightarrow> (\<forall>x. map_option ev_core (h' x) = map_option ev_core (h x))"

lemma key_at_Some [simp]: "h x = Some e \<Longrightarrow> key_at h x = ev_key e"
  by (simp add: key_at_def)

lemma ev_key_core: "ev_core e = ev_core e' \<Longrightarrow> ev_key e = ev_key e'"
  by (simp add: ev_core_def ev_key_def)

lemma ev_key_upd_links [simp]:
  "ev_key (e\<lparr>nextBin := p\<rparr>) = ev_key e"
  "ev_key (e\<lparr>nextInBin := p\<rparr>) = ev_key e"
  "ev_key (e\<lparr>ev_flags := f\<rparr>) = ev_key e"
  by (simp_all add: ev_key_def)

lemma ev_core_upd_links [simp]:
  "ev_core (e\<lparr>nextBin := p\<rparr>) = ev_core e"
  "ev_core (e\<lparr>nextInBin := p\<rparr>) = ev_core e"
  by (simp_all add: ev_core_def)

lemma same_core_refl [simp]: "same_core h h"
  by (simp add: same_core_def)

lemma same_core_trans: "same_core h h' \<Longrightarrow> same_core h' h'' \<Longrightarrow> same_core h h''"
  by (simp add: same_core_def)

lemma same_core_upd:
  "h x = Some e \<Longrightarrow> ev_core e' = ev_core e \<Longrightarrow> same_core h (h(x \<mapsto> e'))"
  by (simp add: same_core_def)

lemma same_coreD:
  "same_core h h' \<Longrightarrow> h x = Some e \<Longrightarrow> \<exists>e'. h' x = Some e' \<and> ev_core e' = ev_core e"
  by (force simp: same_core_def map_option_eq_Some dest: spec [of _ x])

lemma same_core_key: "same_core h h' \<Longrightarrow> key_at h' = key_at h"
proof
  fix x assume "same_core h h'"
  then have "map_option ev_core (h' x) = map_option ev_core (h x)"
    by (simp add: same_core_def)
  then show "key_at h' x = key_at h x"
    by (auto simp: key_at_def intro: ev_key_core split: option.splits)
qed

lemma stack_at_cong:
  "(\<forall>x \<in> set xs. map_option nextInBin (h' x) = map_option nextInBin (h x)) \<Longrightarrow>
     stack_at h' p xs = stack_at h p xs"
proof (induction xs arbitrary: p)
  case (Cons x xs)
  then show ?case by (cases "h x"; cases "h' x") auto
qed simp

lemma stack_at_upd_other [simp]:
  "x \<notin> set xs \<Longrightarrow> stack_at (h(x := v)) p xs = stack_at h p xs"
  by (rule stack_at_cong) auto

lemma ev_links_cong:
  "map_option ev_links a = map_option ev_links b \<Longrightarrow> map_option nextInBin a = map_option nextInBin b"
  by (cases a; cases b) (auto simp: ev_links_def)

lemma bins_seg_cong:
  "(\<forall>x \<in> bin_events bs. map_option ev_links (h' x) = map_option ev_links (h x)) \<Longrightarrow>
     bins_seg h' p bs q = bins_seg h p bs q"
proof (induction bs arbitrary: p)
  case (Cons b bs)
  show ?case
  proof (cases b)
    case b: (Cons x xs)
    have "map_option ev_links (h' x) = map_option ev_links (h x)" using Cons.prems b by simp
    moreover have "\<And>r. stack_at h' r xs = stack_at h r xs"
      using Cons.prems b by (intro stack_at_cong) (auto intro: ev_links_cong)
    moreover have "\<And>r. bins_seg h' r bs q = bins_seg h r bs q"
      using Cons.prems by (intro Cons.IH) simp
    ultimately show ?thesis
      using b by (cases "h x"; cases "h' x") (auto simp: ev_links_def)
  qed simp
qed simp

lemma bins_seg_upd_other [simp]:
  "x \<notin> bin_events bs \<Longrightarrow> bins_seg (h(x := v)) p bs q = bins_seg h p bs q"
  by (rule bins_seg_cong) auto

lemma bins_seg_append:
  "bins_seg h p (as @ bs) q \<longleftrightarrow> (\<exists>r. bins_seg h p as r \<and> bins_seg h r bs q)"
  by (induction as arbitrary: p) auto

lemma bins_seg_hd: "bins_seg h p (b # bs) q \<Longrightarrow> p = Some (hd b)"
  by auto

lemma bins_seg_None [simp]: "bins_seg h None bs None \<longleftrightarrow> bs = []"
  by (cases bs) auto

lemma stack_at_dom: "stack_at h p xs \<Longrightarrow> x \<in> set xs \<Longrightarrow> \<exists>e. h x = Some e"
  by (induction xs arbitrary: p) auto

lemma bins_seg_dom: "bins_seg h p bs q \<Longrightarrow> x \<in> bin_events bs \<Longrightarrow> \<exists>e. h x = Some e"
  by (induction bs arbitrary: p) (auto dest: stack_at_dom)

lemma bins_seg_nonempty: "bins_seg h p bs q \<Longrightarrow> b \<in> set bs \<Longrightarrow> b \<noteq> []"
  by (induction bs arbitrary: p) auto

lemma bins_seg_last_in:
  assumes "bins_seg h p bs q" "bs \<noteq> []"
  shows "hd (last bs) \<in> bin_events bs"
proof -
  have "last bs \<in> set bs" using assms(2) by simp
  moreover have "last bs \<noteq> []" using bins_seg_nonempty [OF assms(1) calculation] .
  ultimately show ?thesis by (auto intro: bin_eventsI)
qed

subsection \<open>Insertion\<close>

lemma insertBefore_refines:
  assumes seg: "bins_seg h cur bs None" and ok: "bins_ok (key_at h) bs"
    and ev: "h event = Some e" "event \<notin> bin_events bs"
    and pos: "\<And>b bs'. bs = b # bs' \<Longrightarrow> \<not> key_at h (hd b) < ev_key e"
  shows "\<exists>e'. insertBefore h event cur = Inr (h(event \<mapsto> e'), event) \<and> ev_core e' = ev_core e \<and>
    bins_seg (h(event \<mapsto> e')) (Some event) (bins_insert (key_at h) event bs) None"
proof (cases bs)
  case Nil
  then show ?thesis using seg ev
    by (intro exI [of _ "e\<lparr>nextBin := None, nextInBin := None\<rparr>"]) (simp add: insertBefore_def)
next
  case (Cons b bs')
  then obtain x xs ce where b: "b = x # xs" "cur = Some x" "h x = Some ce"
    and st: "stack_at h (nextInBin ce) xs" and rest: "bins_seg h (nextBin ce) bs' None"
    using seg by auto
  have ge: "\<not> ev_key ce < ev_key e" using pos Cons b by fastforce
  have ne: "event \<noteq> x" "event \<notin> set xs" "event \<notin> bin_events bs'" using ev(2) Cons b by auto
  have st': "stack_at (h(event := v)) (nextInBin ce) xs" for v
    using st ne by simp
  have rest': "bins_seg (h(event := v)) (nextBin ce) bs' None" for v
    using rest ne by (simp add: bins_seg_upd_other)
  show ?thesis
  proof (cases "ev_key e < ev_key ce")
    case True
    then show ?thesis using Cons b ev st st' rest' ne
      by (intro exI [of _ "e\<lparr>nextBin := Some x, nextInBin := None\<rparr>"])
        (simp add: insertBefore_def ev_less_key)
  next
    case False
    then have "ev_key e = ev_key ce" using ge by (simp add: antisym not_less)
    then show ?thesis using Cons b ev st' rest' ne
      by (intro exI [of _ "e\<lparr>nextBin := nextBin ce, nextInBin := Some x\<rparr>"])
        (simp add: insertBefore_def ev_less_key)
  qed
qed

lemma find_bin_spec:
  assumes "bins_seg h cur bs None"
  shows "\<exists>as cs cur'. bs = as @ cs \<and>
    find_bin h e prev cur = Some (Inr (last (prev # map hd as), cur')) \<and>
    bins_seg h cur as cur' \<and> bins_seg h cur' cs None \<and>
    (\<forall>b \<in> set as. key_at h (hd b) < ev_key e) \<and>
    (\<forall>c cs'. cs = c # cs' \<longrightarrow> \<not> key_at h (hd c) < ev_key e)"
  using assms
proof (induction bs arbitrary: prev cur)
  case Nil
  then show ?case by (simp add: find_bin.simps)
next
  case (Cons b bs)
  then obtain x xs ce where b: "b = x # xs" "cur = Some x" "h x = Some ce"
    and st: "stack_at h (nextInBin ce) xs" and rest: "bins_seg h (nextBin ce) bs None"
    by auto
  show ?case
  proof (cases "ev_key ce < ev_key e")
    case True
    from Cons.IH [OF rest, of x] obtain as cs cur' where IH: "bs = as @ cs"
      "find_bin h e x (nextBin ce) = Some (Inr (last (x # map hd as), cur'))"
      "bins_seg h (nextBin ce) as cur'" "bins_seg h cur' cs None"
      "\<forall>b \<in> set as. key_at h (hd b) < ev_key e"
      "\<forall>c cs'. cs = c # cs' \<longrightarrow> \<not> key_at h (hd c) < ev_key e"
      by blast
    have "find_bin h e prev cur = Some (Inr (last (prev # map hd (b # as)), cur'))"
      using True IH(2) b by (subst find_bin.simps) (simp add: ev_less_key)
    moreover have "bins_seg h cur (b # as) cur'" using b st IH(3) by simp
    ultimately show ?thesis using IH True b
      by (intro exI [of _ "b # as"] exI [of _ cs] exI [of _ cur']) simp
  next
    case False
    then have "find_bin h e prev cur = Some (Inr (prev, cur))"
      using b by (subst find_bin.simps) (simp add: ev_less_key)
    then show ?thesis using Cons.prems False b
      by (intro exI [of _ "[]"] exI [of _ "b # bs"] exI [of _ cur]) simp
  qed
qed

text \<open>Redirecting the \<^verbatim>\<open>nextBin\<close> pointer of the last bin of a segment.\<close>

lemma bins_seg_relink:
  assumes "bins_seg h p as q" "as \<noteq> []" "distinct (concat as)" "h (hd (last as)) = Some pe"
    and "h' = h(hd (last as) \<mapsto> pe\<lparr>nextBin := q'\<rparr>)"
  shows "bins_seg h' p as q'"
  using assms
proof (induction as arbitrary: p)
  case (Cons b bs)
  then obtain x xs e where b: "b = x # xs" "p = Some x" "h x = Some e"
    and st: "stack_at h (nextInBin e) xs" and rest: "bins_seg h (nextBin e) bs q"
    by auto
  have st': "stack_at h' (nextInBin e) xs"
  proof -
    have "stack_at h' r xs = stack_at h r xs" for r
      by (rule stack_at_cong) (use Cons.prems(4,5) in auto)
    with st show ?thesis by simp
  qed
  show ?case
  proof (cases "bs = []")
    case True
    then have "h' x = Some (pe\<lparr>nextBin := q'\<rparr>)" "pe = e" using b Cons.prems by auto
    then show ?thesis using b st' True by simp
  next
    case False
    have "hd (last bs) \<in> bin_events bs" using rest False by (rule bins_seg_last_in)
    then have "hd (last bs) \<noteq> x" using Cons.prems(3) b by (auto simp: bin_events_def)
    then have "h' x = Some e" using False b Cons.prems(5) by simp
    moreover have "bins_seg h' (nextBin e) bs q'"
      using Cons.prems False by (intro Cons.IH [OF rest]) auto
    ultimately show ?thesis using b st' by simp
  qed
qed simp

definition only_changes :: "evptr set \<Rightarrow> heap \<Rightarrow> heap \<Rightarrow> bool" where
  "only_changes X h h' \<longleftrightarrow> same_core h h' \<and> (\<forall>x. x \<notin> X \<longrightarrow> h' x = h x)"

lemma only_changes_core: "only_changes X h h' \<Longrightarrow> same_core h h'"
  by (simp add: only_changes_def)

lemma only_changes_upd:
  "h x = Some e \<Longrightarrow> ev_core e' = ev_core e \<Longrightarrow> x \<in> X \<Longrightarrow> only_changes X h (h(x \<mapsto> e'))"
  by (auto simp: only_changes_def same_core_upd)

lemma only_changes_trans:
  "only_changes X h h' \<Longrightarrow> only_changes X h' h'' \<Longrightarrow> only_changes X h h''"
  by (auto simp: only_changes_def intro: same_core_trans)

lemma eq_insert_inner:
  assumes seg: "bins_seg h (Some hp) (b # bs) None" and ok: "bins_ok (key_at h) (b # bs)"
    and ev: "h event = Some e" "event \<notin> bin_events (b # bs)"
    and hp: "h hp = Some he" and gt: "ev_key he < ev_key e"
  shows "\<exists>h'. eq_insert h (Some hp) event = Inr (h', Some hp) \<and>
    bins_seg h' (Some hp) (bins_insert (key_at h) event (b # bs)) None \<and>
    only_changes (insert event (bin_events (b # bs))) h h'"
proof -
  let ?K = "key_at h"
  from seg hp obtain xs where b: "b = hp # xs" "stack_at h (nextInBin he) xs"
    and rest: "bins_seg h (nextBin he) bs None" by auto
  from find_bin_spec [OF rest, of e hp] obtain as cs cur where
    split: "bs = as @ cs" and fb: "find_bin h e hp (nextBin he) = Some (Inr (last (hp # map hd as), cur))"
    and sa: "bins_seg h (nextBin he) as cur" and sc: "bins_seg h cur cs None"
    and lo: "\<forall>b \<in> set as. ?K (hd b) < ev_key e"
    and hi: "\<forall>c cs'. cs = c # cs' \<longrightarrow> \<not> ?K (hd c) < ev_key e" by blast
  let ?as = "b # as"
  have okas: "bins_ok ?K ?as" and okcs: "bins_ok ?K cs"
    and dj: "bin_events ?as \<inter> bin_events cs = {}"
    using ok split bins_ok_append [of ?K "b # as" cs] by auto
  have seg_as: "bins_seg h (Some hp) ?as cur" using b hp sa by simp
  let ?l = "hd (last ?as)"
  have l: "last (hp # map hd as) = ?l" using b by (simp add: last_map)
  have lin: "?l \<in> bin_events ?as"
    by (rule bins_seg_last_in [OF seg_as]) simp
  from insertBefore_refines [OF sc okcs ev(1)] ev(2) split hi obtain e' where
    ib: "insertBefore h event cur = Inr (h(event \<mapsto> e'), event)" and ce: "ev_core e' = ev_core e"
    and sn: "bins_seg (h(event \<mapsto> e')) (Some event) (bins_insert ?K event cs) None" by auto
  let ?h1 = "h(event \<mapsto> e')"
  have ne: "?l \<noteq> event" using lin ev(2) split by auto
  obtain le where le: "h ?l = Some le" using bins_seg_dom [OF seg_as lin] by blast
  let ?h2 = "?h1(?l \<mapsto> le\<lparr>nextBin := Some event\<rparr>)"
  have r1: "bins_seg ?h1 (Some hp) ?as cur" using seg_as ev(2) split by (simp del: bins_seg.simps)
  have r2: "distinct (concat ?as)" using okas by (simp add: bins_ok_def)
  have r3: "?h1 ?l = Some le" using le ne by simp
  have s1: "bins_seg ?h2 (Some hp) ?as (Some event)"
    by (rule bins_seg_relink [OF r1 _ r2 r3 refl]) simp
  have "?l \<notin> bin_events (bins_insert ?K event cs)" using lin ne dj by auto
  then have s2: "bins_seg ?h2 (Some event) (bins_insert ?K event cs) None"
    using sn by (simp del: bins_seg.simps)
  have "bins_insert ?K event (b # bs) = ?as @ bins_insert ?K event cs"
    using bins_insert_skip [of ?as ?K event cs] lo gt b hp ev(1) split by simp
  moreover have "bins_seg ?h2 (Some hp) (?as @ bins_insert ?K event cs) None"
    using s1 s2 bins_seg_append by blast
  ultimately have "bins_seg ?h2 (Some hp) (bins_insert ?K event (b # bs)) None"
    by (simp only:)
  moreover have "eq_insert h (Some hp) event = Inr (?h2, Some hp)"
    using ev hp gt [folded not_le] fb l ib le ne by (simp add: eq_insert_def ev_le_key)
  moreover have "only_changes (insert event (bin_events (b # bs))) h ?h2"
  proof (rule only_changes_trans)
    show "only_changes (insert event (bin_events (b # bs))) h ?h1"
      by (rule only_changes_upd [of h event e]) (simp_all add: ev(1) ce)
    show "only_changes (insert event (bin_events (b # bs))) ?h1 ?h2"
      by (rule only_changes_upd [of ?h1 ?l le]) (use r3 lin split in auto)
  qed
  ultimately show ?thesis by blast
qed

text \<open>\<^verbatim>\<open>EventQueue::insert\<close> implements insertion into the ordered bins: it always returns, keeps
  the queue well formed, and changes nothing but link fields.\<close>

lemma eq_insert_refines:
  assumes wf: "wf_queue h p bs" and ev: "h event = Some e" "event \<notin> bin_events bs"
  shows "\<exists>h' p'. eq_insert h p event = Inr (h', p') \<and>
    wf_queue h' p' (bins_insert (key_at h) event bs) \<and>
    only_changes (insert event (bin_events bs)) h h'"
proof -
  have seg: "bins_seg h p bs None" and ok: "bins_ok (key_at h) bs"
    using wf by (auto simp: wf_queue_def)
  have fin: "wf_queue h' p' (bins_insert (key_at h) event bs)"
    if "bins_seg h' p' (bins_insert (key_at h) event bs) None" "same_core h h'" for h' p'
    using that bins_ok_insert [OF ok ev(2)] by (simp add: wf_queue_def same_core_key)
  show ?thesis
  proof (cases "\<exists>b bs'. bs = b # bs' \<and> key_at h (hd b) < ev_key e")
    case True
    then obtain b bs' hp he where b: "bs = b # bs'" "p = Some hp" "h hp = Some he" "hd b = hp"
      "ev_key he < ev_key e" using seg by auto
    from eq_insert_inner [of h hp b bs' event e he] seg ok ev b obtain h' where
      "eq_insert h p event = Inr (h', Some hp)"
      "bins_seg h' (Some hp) (bins_insert (key_at h) event bs) None"
      "only_changes (insert event (bin_events bs)) h h'" by blast
    then show ?thesis using fin only_changes_core by blast
  next
    case False
    from insertBefore_refines [OF seg ok ev] False obtain e' where
      ib: "insertBefore h event p = Inr (h(event \<mapsto> e'), event)" and ce: "ev_core e' = ev_core e"
      and sg: "bins_seg (h(event \<mapsto> e')) (Some event) (bins_insert (key_at h) event bs) None"
      by blast
    have "eq_insert h p event = Inr (h(event \<mapsto> e'), Some event)"
    proof (cases bs)
      case Nil
      then show ?thesis using seg ev ib by (simp add: eq_insert_def)
    next
      case (Cons b bs')
      then obtain hp he where "p = Some hp" "h hp = Some he" "hd b = hp" using seg by auto
      then show ?thesis using Cons False ev ib by (simp add: eq_insert_def ev_le_key not_less)
    qed
    moreover have "only_changes (insert event (bin_events bs)) h (h(event \<mapsto> e'))"
      using ev(1) ce by (simp add: only_changes_upd)
    ultimately show ?thesis using fin [OF sg] only_changes_core by blast
  qed
qed

subsection \<open>Removal\<close>

lemma find_in_bin_found:
  assumes "stack_at h nxt xs" "event \<in> set xs"
  shows "\<exists>us cur vs. c # xs = us @ cur # event # vs \<and>
    find_in_bin h event c nxt = Some (Inr (cur, event))"
  using assms
proof (induction xs arbitrary: c nxt)
  case (Cons x xs)
  then obtain xe where x: "nxt = Some x" "h x = Some xe" "stack_at h (nextInBin xe) xs" by auto
  show ?case
  proof (cases "x = event")
    case True
    then show ?thesis using x
      by (intro exI [of _ "[]"] exI [of _ c] exI [of _ xs]) (simp add: find_in_bin.simps)
  next
    case False
    with Cons.prems have "event \<in> set xs" by simp
    from Cons.IH [OF x(3) this, of x] obtain us cur vs where
      "x # xs = us @ cur # event # vs" "find_in_bin h event x (nextInBin xe) = Some (Inr (cur, event))"
      by blast
    then show ?thesis using x False
      by (intro exI [of _ "c # us"] exI [of _ cur] exI [of _ vs])
        (subst find_in_bin.simps, simp)
  qed
qed simp

lemma find_in_bin_missing:
  "stack_at h nxt xs \<Longrightarrow> event \<notin> set xs \<Longrightarrow>
     find_in_bin h event c nxt = Some (Inl (Panic ''event not found!''))"
proof (induction xs arbitrary: c nxt)
  case Nil
  then show ?case by (simp add: find_in_bin.simps)
next
  case (Cons x xs)
  then show ?case by (subst find_in_bin.simps) auto
qed

lemma stack_at_unlink:
  assumes "stack_at h p (us @ cur # event # vs)" "distinct (us @ cur # event # vs)"
    and "h cur = Some ce" "h event = Some ee" "h' = h(cur \<mapsto> ce\<lparr>nextInBin := nextInBin ee\<rparr>)"
  shows "stack_at h' p (us @ cur # vs)"
  using assms by (induction us arbitrary: p) auto

lemma removeItem_refines:
  assumes seg: "bins_seg h (Some tp) (b # bs) None" and ev: "event \<in> set b"
    and dist: "distinct (concat (b # bs))"
  shows "\<exists>h' p'. removeItem h event tp = Inr (h', p') \<and>
    bins_seg h' p' (bins_remove event (b # bs)) None \<and> only_changes (set b) h h'"
proof -
  from seg obtain xs te where b: "b = tp # xs" "h tp = Some te"
    and st: "stack_at h (nextInBin te) xs" and rest: "bins_seg h (nextBin te) bs None" by auto
  show ?thesis
  proof (cases "event = tp")
    case True
    show ?thesis
    proof (cases xs)
      case Nil
      then show ?thesis using True b st rest by (simp add: removeItem_def only_changes_def)
    next
      case (Cons y ys)
      then obtain ye where y: "nextInBin te = Some y" "h y = Some ye" "stack_at h (nextInBin ye) ys"
        using st by auto
      have "y \<notin> bin_events bs" "y \<notin> set ys" using dist b Cons by (auto simp: bin_events_def)
      then have "bins_seg (h(y \<mapsto> ye\<lparr>nextBin := nextBin te\<rparr>)) (Some y) (bins_remove event (b # bs)) None"
        using True b Cons y rest by simp
      moreover have "removeItem h event tp = Inr (h(y \<mapsto> ye\<lparr>nextBin := nextBin te\<rparr>), Some y)"
        using True b y by (simp add: removeItem_def)
      moreover have "only_changes (set b) h (h(y \<mapsto> ye\<lparr>nextBin := nextBin te\<rparr>))"
        using b Cons y by (simp add: only_changes_upd)
      ultimately show ?thesis by blast
    qed
  next
    case False
    then have "event \<in> set xs" using ev b by simp
    from find_in_bin_found [OF st this, of tp] obtain us cur vs where
      sp: "tp # xs = us @ cur # event # vs" and
      fd: "find_in_bin h event tp (nextInBin te) = Some (Inr (cur, event))" by blast
    have bsp: "b = us @ cur # event # vs" using sp b(1) by simp
    have cin: "cur \<in> set b" "event \<in> set b" using bsp by simp_all
    have "distinct b" using dist by simp
    then have db: "distinct (us @ cur # event # vs)" by (simp only: bsp)
    obtain ce ee where ce: "h cur = Some ce" and ee: "h event = Some ee"
      using cin bins_seg_dom [OF seg, of cur] bins_seg_dom [OF seg, of event] by auto
    let ?h = "h(cur \<mapsto> ce\<lparr>nextInBin := nextInBin ee\<rparr>)"
    have "stack_at h (Some tp) (us @ cur # event # vs)" using st b by (simp flip: sp)
    then have st': "stack_at ?h (Some tp) (us @ cur # vs)"
      using db ce ee by (rule stack_at_unlink) simp
    have rm: "remove1 event b = us @ cur # vs" using sp b(1) db by (simp add: remove1_append)
    then have bb: "bins_remove event (b # bs) = (us @ cur # vs) # bs" using ev b False by auto
    have hd: "us @ cur # vs = tp # remove1 event xs" using rm b False by simp
    obtain te' where te': "?h tp = Some te'" "nextBin te' = nextBin te"
      using b(2) ce by (cases "cur = tp") auto
    have "cur \<notin> bin_events bs" using cin(1) dist by (auto simp: bin_events_def)
    then have "bins_seg ?h (nextBin te) bs None" using rest by simp
    then have "bins_seg ?h (Some tp) (bins_remove event (b # bs)) None"
      using st' te' unfolding bb hd by auto
    moreover have "removeItem h event tp = Inr (?h, Some tp)"
      using False b fd ce ee by (simp add: removeItem_def)
    moreover have "only_changes (set b) h ?h" using ce cin by (simp add: only_changes_upd)
    ultimately show ?thesis by blast
  qed
qed

lemma only_changes_mono: "only_changes X h h' \<Longrightarrow> X \<subseteq> Y \<Longrightarrow> only_changes Y h h'"
  by (auto simp: only_changes_def)

lemma same_bin:
  assumes "bins_ok K (b # bs)" "event \<in> bin_events (b # bs)" "\<not> K (hd b) < K event"
  shows "event \<in> set b"
proof (rule ccontr)
  assume "event \<notin> set b"
  then obtain b' where "b' \<in> set bs" "event \<in> set b'" using assms(2) by (auto simp: bin_events_def)
  moreover from this have "K event = K (hd b')"
    using assms(1) by (auto simp: bins_ok_Cons intro: bins_ok_key)
  ultimately show False using assms(1,3) by (auto simp: bins_ok_Cons)
qed

lemma eq_remove_inner:
  assumes seg: "bins_seg h (Some hp) (b # bs) None" and ok: "bins_ok (key_at h) (b # bs)"
    and ev: "event \<in> bin_events (b # bs)" "h event = Some e" "ev_queue e = Some this"
    and hp: "h hp = Some he" and ne: "ev_key he \<noteq> ev_key e"
  shows "\<exists>h'. eq_remove this h (Some hp) event = Inr (h', Some hp) \<and>
    bins_seg h' (Some hp) (bins_remove event (b # bs)) None \<and>
    only_changes (bin_events (b # bs)) h h'"
proof -
  let ?K = "key_at h"
  from seg hp obtain xs where b: "b = hp # xs" "stack_at h (nextInBin he) xs"
    and rest: "bins_seg h (nextBin he) bs None" by auto
  from find_bin_spec [OF rest, of e hp] obtain as cs cur where
    split: "bs = as @ cs" and fb: "find_bin h e hp (nextBin he) = Some (Inr (last (hp # map hd as), cur))"
    and sa: "bins_seg h (nextBin he) as cur" and sc: "bins_seg h cur cs None"
    and lo: "\<forall>b \<in> set as. ?K (hd b) < ev_key e"
    and hi: "\<forall>c cs'. cs = c # cs' \<longrightarrow> \<not> ?K (hd c) < ev_key e" by blast
  let ?as = "b # as"
  have okas: "bins_ok ?K ?as" and okcs: "bins_ok ?K cs"
    and dj: "bin_events ?as \<inter> bin_events cs = {}"
    using ok split bins_ok_append [of ?K "b # as" cs] by auto
  have notas: "event \<notin> bin_events ?as"
  proof
    assume "event \<in> bin_events ?as"
    then obtain c where c: "c \<in> set ?as" "event \<in> set c" by (auto simp: bin_events_def)
    then have "ev_key e = ?K (hd c)" using okas ev(2) bins_ok_key by fastforce
    then show False using c lo ne b hp by auto
  qed
  then have evc: "event \<in> bin_events cs" using ev(1) split by auto
  then obtain c cs' where cs: "cs = c # cs'" by (cases cs) auto
  have inc: "event \<in> set c" using same_bin [of ?K c cs' event] okcs evc cs hi ev(2) by auto
  then have kc: "?K (hd c) = ev_key e" using okcs cs ev(2) bins_ok_key [of ?K cs c event] by simp
  obtain cp ce where cp: "cur = Some cp" "h cp = Some ce" "ev_key ce = ev_key e"
    using sc cs kc by auto
  have dcs: "distinct (concat (c # cs'))" using okcs cs by (simp add: bins_ok_def)
  from removeItem_refines [OF _ inc dcs, of h cp] sc cs cp obtain h1 p1 where
    ri: "removeItem h event cp = Inr (h1, p1)"
    and s1: "bins_seg h1 p1 (bins_remove event cs) None" and oc: "only_changes (set c) h h1" by auto
  have seg_as: "bins_seg h (Some hp) ?as cur" using b hp sa by simp
  let ?l = "hd (last ?as)"
  have l: "last (hp # map hd as) = ?l" using b by (simp add: last_map)
  have lin: "?l \<in> bin_events ?as" by (rule bins_seg_last_in [OF seg_as]) simp
  have same: "h1 x = h x" if "x \<in> bin_events ?as" for x
    using oc that dj cs by (auto simp: only_changes_def)
  have seg_as1: "bins_seg h1 (Some hp) ?as cur"
    using seg_as bins_seg_cong [of ?as h1 h] same by (simp del: bins_seg.simps)
  obtain le where le: "h1 ?l = Some le" using bins_seg_dom [OF seg_as1 lin] by blast
  let ?h2 = "h1(?l \<mapsto> le\<lparr>nextBin := p1\<rparr>)"
  have das: "distinct (concat ?as)" using okas by (simp add: bins_ok_def)
  have s2: "bins_seg ?h2 (Some hp) ?as p1"
    by (rule bins_seg_relink [OF seg_as1 _ das le refl]) simp
  have "?l \<notin> bin_events (bins_remove event cs)"
    using lin dj set_bins_remove [OF okcs, of event] by auto
  then have "bins_seg ?h2 p1 (bins_remove event cs) None" using s1 by (simp del: bins_seg.simps)
  then have "bins_seg ?h2 (Some hp) (?as @ bins_remove event cs) None"
    using s2 bins_seg_append by blast
  moreover have "bins_remove event (b # bs) = ?as @ bins_remove event cs"
    using bins_remove_skip [OF notas, of cs] split by (simp del: bins_remove.simps)
  moreover have "eq_remove this h (Some hp) event = Inr (?h2, Some hp)"
    using ev hp ne fb l cp ri le by (simp add: eq_remove_def ev_eq_key ev_ne_key)
  moreover have "only_changes (bin_events (b # bs)) h ?h2"
  proof (rule only_changes_trans)
    show "only_changes (bin_events (b # bs)) h h1"
      using oc by (rule only_changes_mono) (use cs split in auto)
    show "only_changes (bin_events (b # bs)) h1 ?h2"
      by (rule only_changes_upd [of h1 ?l le]) (use le lin split in auto)
  qed
  ultimately show ?thesis by (metis (no_types, lifting))
qed

text \<open>\<^verbatim>\<open>EventQueue::remove\<close> implements removal from the ordered bins.\<close>

lemma eq_remove_refines:
  assumes wf: "wf_queue h p bs"
    and ev: "event \<in> bin_events bs" "h event = Some e" "ev_queue e = Some this"
  shows "\<exists>h' p'. eq_remove this h p event = Inr (h', p') \<and>
    wf_queue h' p' (bins_remove event bs) \<and> only_changes (bin_events bs) h h'"
proof -
  have seg: "bins_seg h p bs None" and ok: "bins_ok (key_at h) bs"
    using wf by (auto simp: wf_queue_def)
  have fin: "wf_queue h' p' (bins_remove event bs)"
    if "bins_seg h' p' (bins_remove event bs) None" "same_core h h'" for h' p'
    using that bins_ok_remove [OF ok] by (simp add: wf_queue_def same_core_key)
  obtain b bs' where bs: "bs = b # bs'" using ev(1) by (cases bs) auto
  with seg obtain hp he where hp: "p = Some hp" "h hp = Some he" "hd b = hp" by auto
  have main: "\<exists>h' p'. eq_remove this h p event = Inr (h', p') \<and>
    bins_seg h' p' (bins_remove event bs) None \<and> only_changes (bin_events bs) h h'"
  proof (cases "ev_key he = ev_key e")
    case True
    then have "event \<in> set b"
      using same_bin [of "key_at h" b bs' event] ok ev bs hp by auto
    moreover have "distinct (concat (b # bs'))" using ok bs by (simp add: bins_ok_def)
    ultimately obtain h' p' where "removeItem h event hp = Inr (h', p')"
      "bins_seg h' p' (bins_remove event bs) None" "only_changes (set b) h h'"
      using removeItem_refines [of h hp b bs' event] seg bs hp by blast
    moreover have "only_changes (bin_events bs) h h'"
      using calculation(3) by (rule only_changes_mono) (simp add: bs)
    moreover have "eq_remove this h p event = removeItem h event hp"
      using True hp ev by (simp add: eq_remove_def ev_eq_key)
    ultimately show ?thesis by simp
  next
    case False
    then show ?thesis using eq_remove_inner [of h hp b bs' event e this he] seg ok ev bs hp
      by blast
  qed
  then show ?thesis using fin only_changes_core by blast
qed

text \<open>Removing an event that is not in the queue panics.\<close>

lemma removeItem_missing:
  assumes "bins_seg h (Some tp) (b # bs) None" "event \<notin> set b"
  shows "removeItem h event tp = Inl (Panic ''event not found!'')"
  using assms find_in_bin_missing by (auto simp: removeItem_def)

lemma eq_remove_missing:
  assumes wf: "wf_queue h p bs"
    and ev: "event \<notin> bin_events bs" "h event = Some e" "ev_queue e = Some this"
  shows "eq_remove this h p event = Inl (Panic ''event not found!'')"
proof (cases bs)
  case Nil
  then show ?thesis using wf by (simp add: wf_queue_def eq_remove_def)
next
  case (Cons b bs')
  have seg: "bins_seg h p (b # bs') None" using wf Cons by (simp add: wf_queue_def)
  then obtain hp he where hp: "p = Some hp" "h hp = Some he" and rest: "bins_seg h (nextBin he) bs' None"
    by auto
  show ?thesis
  proof (cases "ev_key he = ev_key e")
    case True
    then show ?thesis using removeItem_missing [of h hp b bs' event] seg hp ev Cons
      by (simp add: eq_remove_def ev_eq_key)
  next
    case False
    from find_bin_spec [OF rest, of e hp] obtain as cs cur where sp: "bs' = as @ cs"
      and fb: "find_bin h e hp (nextBin he) = Some (Inr (last (hp # map hd as), cur))"
      and sc: "bins_seg h cur cs None" by blast
    show ?thesis
    proof (cases cs)
      case Nil
      then show ?thesis using fb sc False hp ev by (simp add: eq_remove_def ev_eq_key)
    next
      case c: (Cons c cs')
      then obtain cp ce where cp: "cur = Some cp" "h cp = Some ce" using sc by auto
      moreover have "event \<notin> set c" using ev(1) Cons sp c by simp
      ultimately show ?thesis using fb sc False hp ev removeItem_missing [of h cp c cs' event] c
        by (auto simp: eq_remove_def ev_eq_key ev_ne_key)
    qed
  qed
qed

end
