(* ===== verification/EventQ_Sim.thy ===== *)
theory EventQ_Sim
  imports EventQ_Refine
begin

text \<open>
  The methods of the event queue object: the state invariant, its preservation by every method,
  the functional effect of each on the ordered bins, and the consequences for a simulation that
  services events through handlers which only use the methods of the queue.
\<close>

subsection \<open>Flags\<close>

lemma flag_disjoint [simp]:
  "Scheduled AND Squashed = 0" "Squashed AND Scheduled = 0"
  "Scheduled AND AutoDelete = 0" "Squashed AND AutoDelete = 0"
  "Scheduled AND IsExitEvent = 0" "Squashed AND IsExitEvent = 0"
  "Scheduled \<noteq> 0" "Squashed \<noteq> 0" "Scheduled AND InitMask = 0" "Squashed AND InitMask = 0"
  by (simp_all add: flag_consts)

lemma flag_keep:
  assumes "m AND n = 0"
  shows "flags_set f m AND n = f AND n" "flags_clear f m AND n = f AND n"
proof -
  show "flags_set f m AND n = f AND n"
    using assms by (simp add: flags_set_def bit.conj_disj_distrib2)
  show "flags_clear f m AND n = f AND n"
  proof (rule bit_word_eqI)
    fix i assume "i < LENGTH('a)"
    have "\<not> bit (m AND n) i" using assms by simp
    then show "bit (flags_clear f m AND n) i = bit (f AND n) i"
      using \<open>i < LENGTH('a)\<close> by (auto simp: flags_clear_def bit_simps)
  qed
qed

lemma flag_simps [simp]:
  "scheduled (set_flag Squashed e) = scheduled e"
  "scheduled (clear_flag Squashed e) = scheduled e"
  "squashed (set_flag Scheduled e) = squashed e"
  "squashed (clear_flag Scheduled e) = squashed e"
  "initialized (set_flag Scheduled e) = initialized e"
  "initialized (clear_flag Scheduled e) = initialized e"
  "initialized (set_flag Squashed e) = initialized e"
  "initialized (clear_flag Squashed e) = initialized e"
  "isAutoDelete (set_flag Scheduled e) = isAutoDelete e"
  "isAutoDelete (clear_flag Scheduled e) = isAutoDelete e"
  "isAutoDelete (clear_flag Squashed e) = isAutoDelete e"
  by (simp_all add: scheduled_def squashed_def initialized_def isAutoDelete_def set_flag_def
      clear_flag_def flags_isSet_def flag_keep)

lemma flag_own [simp]:
  "scheduled (set_flag Scheduled e)"
  "\<not> scheduled (clear_flag Scheduled e)"
  "\<not> squashed (clear_flag Squashed e)"
  by (simp_all add: scheduled_def squashed_def set_flag_def clear_flag_def flags_isSet_set_same)

lemma flag_fields [simp]:
  "ev_when (set_flag m e) = ev_when e" "ev_when (clear_flag m e) = ev_when e"
  "ev_priority (set_flag m e) = ev_priority e" "ev_priority (clear_flag m e) = ev_priority e"
  "ev_queue (set_flag m e) = ev_queue e" "ev_queue (clear_flag m e) = ev_queue e"
  "nextBin (set_flag m e) = nextBin e" "nextBin (clear_flag m e) = nextBin e"
  "nextInBin (set_flag m e) = nextInBin e" "nextInBin (clear_flag m e) = nextInBin e"
  by (simp_all add: set_flag_def clear_flag_def)

lemma setWhen_fields [simp]:
  "ev_when (setWhen t q e) = t" "ev_queue (setWhen t q e) = Some q"
  "ev_priority (setWhen t q e) = ev_priority e" "ev_flags (setWhen t q e) = ev_flags e"
  "nextBin (setWhen t q e) = nextBin e" "nextInBin (setWhen t q e) = nextInBin e"
  "scheduled (setWhen t q e) = scheduled e" "initialized (setWhen t q e) = initialized e"
  "isAutoDelete (setWhen t q e) = isAutoDelete e"
  by (simp_all add: setWhen_def scheduled_def initialized_def isAutoDelete_def)

subsection \<open>The invariant\<close>

text \<open>The events of the heap that are marked as scheduled on a queue.\<close>

definition sched_of :: "qptr \<Rightarrow> heap \<Rightarrow> evptr set" where
  "sched_of q h = {x. \<exists>e. h x = Some e \<and> scheduled e \<and> ev_queue e = Some q}"

text \<open>A queue object in state \<^verbatim>\<open>s\<close> holds the bins \<^verbatim>\<open>bs\<close>: the pointers represent them, the
  events marked as scheduled are exactly those in the bins or waiting in the asynchronous list,
  and no event of a bin lies in the past.\<close>

definition not_past :: "tick \<Rightarrow> heap \<Rightarrow> evptr set \<Rightarrow> bool" where
  "not_past now h X \<longleftrightarrow>
     (\<forall>x e. x \<in> X \<longrightarrow> h x = Some e \<longrightarrow> initialized e \<and> now \<le> ev_when e)"

definition sim_inv :: "'z sim_scheme \<Rightarrow> evptr list list \<Rightarrow> bool" where
  "sim_inv s bs \<longleftrightarrow>
     wf_queue (evheap s) (head (evq s)) bs \<and>
     sched_of (eq_this (evq s)) (evheap s) = bin_events bs \<union> set (async_queue (evq s)) \<and>
     set (async_queue (evq s)) \<inter> bin_events bs = {} \<and> distinct (async_queue (evq s)) \<and>
     not_past (eq_curTick (evq s)) (evheap s) (bin_events bs)"

lemma core_simps:
  assumes "ev_core e = ev_core e'"
  shows "scheduled e = scheduled e'" "squashed e = squashed e'" "initialized e = initialized e'"
    "isAutoDelete e = isAutoDelete e'" "ev_queue e = ev_queue e'" "ev_when e = ev_when e'"
    "ev_priority e = ev_priority e'"
  using assms
  by (simp_all add: ev_core_def scheduled_def squashed_def initialized_def isAutoDelete_def)

lemma same_core_sym: "same_core h h' \<Longrightarrow> same_core h' h"
  by (simp add: same_core_def)

lemma sched_of_core_subset: "same_core h h' \<Longrightarrow> sched_of q h \<subseteq> sched_of q h'"
  by (fastforce simp: sched_of_def dest: same_coreD core_simps)

lemma sched_of_core: "same_core h h' \<Longrightarrow> sched_of q h' = sched_of q h"
  by (simp add: sched_of_core_subset same_core_sym subset_antisym)

lemma sched_of_upd:
  "sched_of q (h(x \<mapsto> e)) =
     (if scheduled e \<and> ev_queue e = Some q then insert x (sched_of q h) else sched_of q h - {x})"
  by (auto simp: sched_of_def)

lemma sched_of_del: "sched_of q (h(x := None)) = sched_of q h - {x}"
  by (auto simp: sched_of_def)

lemma bins_ok_cong:
  assumes "\<forall>x \<in> bin_events bs. K x = K' x"
  shows "bins_ok K bs = bins_ok K' bs"
  using assms
proof (induction bs)
  case (Cons b bs)
  show ?case
  proof (cases "b = []")
    case False
    have k: "\<forall>x \<in> set b. K x = K' x" "K (hd b) = K' (hd b)" using Cons.prems False by auto
    then have sk: "same_key K b = same_key K' b" by (simp add: same_key_def)
    have "K (hd b') = K' (hd b')" if "bins_ok K bs \<or> bins_ok K' bs" "b' \<in> set bs" for b'
    proof -
      have "b' \<noteq> []" using that by (auto simp: bins_ok_def)
      then have "hd b' \<in> bin_events bs" using that(2) by (auto intro: bin_eventsI)
      then show ?thesis using Cons.prems by simp
    qed
    then have "(\<forall>b' \<in> set bs. K (hd b) < K (hd b')) = (\<forall>b' \<in> set bs. K' (hd b) < K' (hd b'))"
      if "bins_ok K bs \<or> bins_ok K' bs" using that k(2) by simp
    then show ?thesis using Cons sk by (auto simp: bins_ok_Cons)
  qed (simp add: bins_ok_Cons)
qed simp

lemma bins_insert_cong:
  assumes "\<forall>x \<in> insert y (bin_events bs). K x = K' x" "[] \<notin> set bs"
  shows "bins_insert K y bs = bins_insert K' y bs"
  using assms
proof (induction bs)
  case (Cons b bs)
  then have "K (hd b) = K' (hd b)" "K y = K' y" by auto
  then show ?case using Cons by auto
qed simp

lemma wf_queue_cong:
  assumes "\<forall>x \<in> bin_events bs. map_option ev_links (h' x) = map_option ev_links (h x) \<and>
    key_at h' x = key_at h x"
  shows "wf_queue h' p bs = wf_queue h p bs"
  using assms bins_seg_cong [of bs h' h p None] bins_ok_cong [of bs "key_at h'" "key_at h"]
  by (simp add: wf_queue_def)

lemma key_at_upd: "key_at (h(x \<mapsto> e)) = (key_at h)(x := ev_key e)"
  by (auto simp: key_at_def)

lemma wf_queue_upd_other: "x \<notin> bin_events bs \<Longrightarrow> wf_queue (h(x := v)) p bs = wf_queue h p bs"
  by (rule wf_queue_cong) (auto simp: key_at_def)

lemma wf_queue_upd_flag:
  "h x = Some e \<Longrightarrow> wf_queue (h(x \<mapsto> e\<lparr>ev_flags := f\<rparr>)) p bs = wf_queue h p bs"
  by (rule wf_queue_cong) (auto simp: key_at_def ev_links_def)

lemma wf_queue_nonempty: "wf_queue h p bs \<Longrightarrow> [] \<notin> set bs"
  by (simp add: wf_queue_def bins_ok_def)

lemma wf_queue_dom: "wf_queue h p bs \<Longrightarrow> x \<in> bin_events bs \<Longrightarrow> \<exists>e. h x = Some e"
  by (auto simp: wf_queue_def dest: bins_seg_dom)

subsection \<open>The methods and the invariant\<close>

lemma sim_invD:
  assumes "sim_inv s bs"
  shows "wf_queue (evheap s) (head (evq s)) bs"
    "sched_of (eq_this (evq s)) (evheap s) = bin_events bs \<union> set (async_queue (evq s))"
    "set (async_queue (evq s)) \<inter> bin_events bs = {}" "distinct (async_queue (evq s))"
    "not_past (eq_curTick (evq s)) (evheap s) (bin_events bs)"
  using assms by (auto simp: sim_inv_def)

lemma not_pastD:
  "not_past now h X \<Longrightarrow> x \<in> X \<Longrightarrow> h x = Some e \<Longrightarrow> initialized e \<and> now \<le> ev_when e"
  by (simp add: not_past_def)

lemma not_past_core:
  assumes "not_past now h X" "\<forall>x \<in> X. map_option ev_core (h' x) = map_option ev_core (h x)"
  shows "not_past now h' X"
  unfolding not_past_def
proof (intro allI impI)
  fix x e assume x: "x \<in> X" "h' x = Some e"
  then obtain e0 where "h x = Some e0" "ev_core e = ev_core e0"
    using assms(2) by (cases "h x") auto
  then show "initialized e \<and> now \<le> ev_when e"
    using not_pastD [OF assms(1) x(1)] core_simps [of e e0] by simp
qed

lemma not_past_mono: "not_past now h Y \<Longrightarrow> X \<subseteq> Y \<Longrightarrow> not_past now h X"
  by (auto simp: not_past_def)

lemma not_past_same_core:
  assumes "not_past now h Y" "same_core h h'" "X \<subseteq> Y"
  shows "not_past now h' X"
proof (rule not_past_core)
  show "not_past now h X" using assms(1,3) by (rule not_past_mono)
  show "\<forall>x \<in> X. map_option ev_core (h' x) = map_option ev_core (h x)"
    using assms(2) by (simp add: same_core_def)
qed

lemma not_past_insert:
  "h x = Some e \<Longrightarrow>
     not_past now h (insert x X) \<longleftrightarrow> initialized e \<and> now \<le> ev_when e \<and> not_past now h X"
  by (auto simp: not_past_def)

lemma sim_inv_scheduled:
  assumes "sim_inv s bs" "x \<in> bin_events bs"
  obtains e where "evheap s x = Some e" "scheduled e" "initialized e"
    "ev_queue e = Some (eq_this (evq s))" "eq_curTick (evq s) \<le> ev_when e"
proof -
  have "x \<in> sched_of (eq_this (evq s)) (evheap s)" using sim_invD(2) [OF assms(1)] assms(2) by simp
  then show ?thesis using that not_pastD [OF sim_invD(5) [OF assms(1)] assms(2)]
    by (auto simp: sched_of_def)
qed

lemma sim_inv_unscheduled:
  assumes "sim_inv s bs" "evheap s x = Some e" "\<not> scheduled e"
  shows "x \<notin> bin_events bs" "x \<notin> set (async_queue (evq s))"
proof -
  have "x \<notin> sched_of (eq_this (evq s)) (evheap s)" using assms(2,3) by (simp add: sched_of_def)
  then show "x \<notin> bin_events bs" "x \<notin> set (async_queue (evq s))"
    using sim_invD(2) [OF assms(1)] by auto
qed

text \<open>Inserting an unscheduled event, setting its time and its flag: the common part of
  \<^verbatim>\<open>schedule\<close> and \<^verbatim>\<open>reschedule\<close>.\<close>

definition marks_scheduled :: "(event \<Rightarrow> event) \<Rightarrow> bool" where
  "marks_scheduled f \<longleftrightarrow>
     (\<forall>e. ev_links (f e) = ev_links e \<and> ev_key (f e) = ev_key e \<and> scheduled (f e) \<and>
        ev_queue (f e) = ev_queue e \<and> initialized (f e) = initialized e)"

lemma ev_key_when: "ev_key e = ev_key e' \<Longrightarrow> ev_when e = ev_when e'"
  by (simp add: ev_key_def)

lemma enqueue_effect:
  assumes wf: "wf_queue h p bs" and ev: "h event = Some e" "event \<notin> bin_events bs"
    and sched: "sched_of q h - {event} = bin_events bs \<union> A" and A: "event \<notin> A"
    and old: "not_past now h (bin_events bs)" and t: "initialized e" "now \<le> t"
    and f: "marks_scheduled f"
    and K: "K = (key_at h)(event := (t, ev_priority e))"
  shows "\<exists>h2 p2 e2. eq_insert (h(event \<mapsto> setWhen t q e)) p event = Inr (h2, p2) \<and>
    h2 event = Some e2 \<and> ev_core e2 = ev_core (setWhen t q e) \<and>
    wf_queue (h2(event \<mapsto> f e2)) p2 (bins_insert K event bs) \<and>
    sched_of q (h2(event \<mapsto> f e2)) = insert event (bin_events bs) \<union> A \<and>
    not_past now (h2(event \<mapsto> f e2)) (insert event (bin_events bs)) \<and>
    (\<forall>x. x \<noteq> event \<longrightarrow> map_option ev_core (h2 x) = map_option ev_core (h x))"
proof -
  let ?h1 = "h(event \<mapsto> setWhen t q e)"
  have wf1: "wf_queue ?h1 p bs" using wf ev(2) by (simp add: wf_queue_upd_other)
  have ev1: "?h1 event = Some (setWhen t q e)" by simp
  from eq_insert_refines [OF wf1 ev1 ev(2)] obtain h2 p2 where
    ins: "eq_insert ?h1 p event = Inr (h2, p2)"
    and wf2: "wf_queue h2 p2 (bins_insert (key_at ?h1) event bs)"
    and oc: "only_changes (insert event (bin_events bs)) ?h1 h2" by blast
  obtain e2 where e2: "h2 event = Some e2" "ev_core e2 = ev_core (setWhen t q e)"
    using same_coreD [OF only_changes_core [OF oc] ev1] by blast
  let ?h3 = "h2(event \<mapsto> f e2)"
  have K1: "key_at ?h1 = K" by (auto simp: K key_at_upd ev_key_def)
  have core: "map_option ev_core (h2 x) = map_option ev_core (h x)" if "x \<noteq> event" for x
    using that oc by (simp add: only_changes_def same_core_def)
  have f': "ev_links (f e2) = ev_links e2" "ev_key (f e2) = ev_key e2" "scheduled (f e2)"
    "ev_queue (f e2) = ev_queue e2" "initialized (f e2) = initialized e2"
    using f by (auto simp: marks_scheduled_def)
  have "wf_queue ?h3 p2 (bins_insert K event bs)"
    using wf2 e2(1) f'(1,2) unfolding K1
    by (subst wf_queue_cong [of _ _ h2]) (auto simp: key_at_def)
  moreover have "sched_of q ?h3 = insert event (bin_events bs) \<union> A"
  proof -
    have "sched_of q h2 - {event} = sched_of q h - {event}"
      using sched_of_core [OF only_changes_core [OF oc], of q] by (simp add: sched_of_upd)
    moreover have "ev_queue e2 = Some q" using e2(2) by (simp add: core_simps)
    ultimately show ?thesis using f'(3,4) sched by (auto simp: sched_of_upd)
  qed
  moreover have "not_past now ?h3 (insert event (bin_events bs))"
  proof -
    have "not_past now ?h3 (bin_events bs)"
      by (rule not_past_core [OF old]) (use ev(2) core in auto)
    moreover have "initialized (f e2)" "now \<le> ev_when (f e2)"
      using f'(5) ev_key_when [OF f'(2)] t core_simps [OF e2(2)] by simp_all
    ultimately show ?thesis by (simp add: not_past_insert)
  qed
  ultimately show ?thesis using ins e2 core by blast
qed

lemma set_Scheduled_props [simp]:
  "ev_links (set_flag m e) = ev_links e" "ev_key (set_flag m e) = ev_key e"
  "ev_links (clear_flag m e) = ev_links e" "ev_key (clear_flag m e) = ev_key e"
  by (simp_all add: ev_links_def ev_key_def)

lemma marks_set: "marks_scheduled (set_flag Scheduled)"
  by (simp add: marks_scheduled_def)

lemma marks_set_clear: "marks_scheduled (set_flag Scheduled \<circ> clear_flag Squashed)"
  by (simp add: marks_scheduled_def)

text \<open>Where \<^verbatim>\<open>schedule\<close> puts an event: on this queue, or in its asynchronous list.\<close>

definition goes_async :: "'z sim_scheme \<Rightarrow> bool \<Rightarrow> bool" where
  "goes_async s global \<longleftrightarrow>
     inParallelMode s \<and> (curEventQueue s \<noteq> Some (eq_this (evq s)) \<or> global)"

lemma schedule_local:
  assumes inv: "sim_inv s bs" and ev: "evheap s event = Some e" "\<not> scheduled e" "initialized e"
    and t: "eq_curTick (evq s) \<le> t" and loc: "\<not> goes_async s global"
    and K: "K = (key_at (evheap s))(event := (t, ev_priority e))"
  shows "\<exists>h' p. schedule event t global s = Inr (s\<lparr>evheap := h', evq := (evq s)\<lparr>head := p\<rparr>\<rparr>) \<and>
    sim_inv (s\<lparr>evheap := h', evq := (evq s)\<lparr>head := p\<rparr>\<rparr>) (bins_insert K event bs) \<and>
    map_option ev_core (h' event) = Some (ev_core (set_flag Scheduled (setWhen t (eq_this (evq s)) e))) \<and>
    (\<forall>x. x \<noteq> event \<longrightarrow> map_option ev_core (h' x) = map_option ev_core (evheap s x))"
proof -
  let ?q = "eq_this (evq s)" and ?h = "evheap s"
  let ?h1 = "?h(event \<mapsto> setWhen t ?q e)"
  note D = sim_invD [OF inv] and N = sim_inv_unscheduled [OF inv ev(1,2)]
  have "sched_of ?q ?h - {event} = bin_events bs \<union> set (async_queue (evq s))"
    using D(2) N by auto
  from enqueue_effect [OF D(1) ev(1) N(1) this N(2) D(5) ev(3) t marks_set K]
  obtain h2 p2 e2 where ins: "eq_insert ?h1 (head (evq s)) event = Inr (h2, p2)"
    and e2: "h2 event = Some e2" "ev_core e2 = ev_core (setWhen t ?q e)"
    and wf: "wf_queue (h2(event \<mapsto> set_flag Scheduled e2)) p2 (bins_insert K event bs)"
    and sc: "sched_of ?q (h2(event \<mapsto> set_flag Scheduled e2)) = insert event (bin_events bs) \<union> set (async_queue (evq s))"
    and fut: "not_past (eq_curTick (evq s)) (h2(event \<mapsto> set_flag Scheduled e2)) (insert event (bin_events bs))"
    and core: "\<forall>x. x \<noteq> event \<longrightarrow> map_option ev_core (h2 x) = map_option ev_core (?h x)"
    by blast
  let ?h2 = "h2(event \<mapsto> set_flag Scheduled e2)"
  have "schedule event t global s = Inr (s\<lparr>evheap := ?h2, evq := (evq s)\<lparr>head := p2\<rparr>\<rparr>)"
    using ev t loc ins e2(1)
    by (auto simp: schedule_def upd_event_def sim_insert_def goes_async_def)
  moreover have "sim_inv (s\<lparr>evheap := ?h2, evq := (evq s)\<lparr>head := p2\<rparr>\<rparr>) (bins_insert K event bs)"
    using wf sc fut D(3,4) N(2) by (auto simp: sim_inv_def)
  moreover have "ev_core (set_flag Scheduled e2) = ev_core (set_flag Scheduled (setWhen t ?q e))"
    using e2(2) by (simp add: ev_core_def set_flag_def)
  ultimately show ?thesis using core by (intro exI [of _ ?h2] exI [of _ p2]) auto
qed

lemma schedule_async:
  assumes inv: "sim_inv s bs" and ev: "evheap s event = Some e" "\<not> scheduled e" "initialized e"
    and t: "eq_curTick (evq s) \<le> t" and as: "goes_async s global"
    and h': "h' = (evheap s)(event \<mapsto> set_flag Scheduled (setWhen t (eq_this (evq s)) e))"
  shows "schedule event t global s = Inr (s\<lparr>evheap := h', evq := asyncInsert event (evq s)\<rparr>)"
    "sim_inv (s\<lparr>evheap := h', evq := asyncInsert event (evq s)\<rparr>) bs"
proof -
  note D = sim_invD [OF inv] and N = sim_inv_unscheduled [OF inv ev(1,2)]
  show "schedule event t global s = Inr (s\<lparr>evheap := h', evq := asyncInsert event (evq s)\<rparr>)"
    using ev t as h' by (simp add: schedule_def upd_event_def goes_async_def)
  have "not_past (eq_curTick (evq s)) h' (bin_events bs)"
    by (rule not_past_core [OF D(5)]) (use N(1) h' in auto)
  then show "sim_inv (s\<lparr>evheap := h', evq := asyncInsert event (evq s)\<rparr>) bs"
    using D N h' by (auto simp: sim_inv_def asyncInsert_def wf_queue_upd_other sched_of_upd)
qed

lemma dequeue_effect:
  assumes inv: "sim_inv s bs" and ev: "event \<in> bin_events bs"
  shows "\<exists>h1 p1 e e1. eq_remove (eq_this (evq s)) (evheap s) (head (evq s)) event = Inr (h1, p1) \<and>
    evheap s event = Some e \<and> h1 event = Some e1 \<and> ev_core e1 = ev_core e \<and>
    wf_queue h1 p1 (bins_remove event bs) \<and> same_core (evheap s) h1"
proof -
  obtain e where e: "evheap s event = Some e" "ev_queue e = Some (eq_this (evq s))"
    using sim_inv_scheduled [OF inv ev] by metis
  from eq_remove_refines [OF sim_invD(1) [OF inv] ev e] obtain h1 p1 where
    1: "eq_remove (eq_this (evq s)) (evheap s) (head (evq s)) event = Inr (h1, p1)"
      "wf_queue h1 p1 (bins_remove event bs)" "only_changes (bin_events bs) (evheap s) h1" by blast
  then show ?thesis using same_coreD [OF only_changes_core [OF 1(3)] e(1)] e(1) only_changes_core
    by blast
qed

lemma bin_events_remove_inv:
  "sim_inv s bs \<Longrightarrow> bin_events (bins_remove x bs) = bin_events bs - {x}"
  using set_bins_remove by (auto simp: sim_inv_def wf_queue_def)

text \<open>Taking an event out of the bins and marking it as no longer scheduled keeps the invariant,
  whether or not its storage is released.\<close>

lemma sim_inv_dequeued:
  assumes inv: "sim_inv s bs" and ev: "event \<in> bin_events bs"
    and wf: "wf_queue h1 p1 (bins_remove event bs)" and core: "same_core (evheap s) h1"
    and v: "\<And>e. v = Some e \<Longrightarrow> \<not> scheduled e"
  shows "sim_inv (s\<lparr>evheap := h1(event := v), evq := (evq s)\<lparr>head := p1\<rparr>\<rparr>) (bins_remove event bs)"
proof -
  note D = sim_invD [OF inv] and R = bin_events_remove_inv [OF inv, of event]
  have "wf_queue (h1(event := v)) p1 (bins_remove event bs)" using wf R by (simp add: wf_queue_upd_other)
  moreover have "sched_of (eq_this (evq s)) (h1(event := v)) = bin_events (bins_remove event bs) \<union> set (async_queue (evq s))"
  proof -
    have "sched_of q (h1(event := v)) = sched_of q h1 - {event}" for q
      using v by (cases v) (auto simp: sched_of_def)
    then show ?thesis using sched_of_core [OF core] D(2,3) R ev by auto
  qed
  moreover have "not_past (eq_curTick (evq s)) (h1(event := v)) (bin_events (bins_remove event bs))"
  proof (rule not_past_core)
    show "not_past (eq_curTick (evq s)) (evheap s) (bin_events (bins_remove event bs))"
      using D(5) by (rule not_past_mono) (simp add: R)
    show "\<forall>x \<in> bin_events (bins_remove event bs).
        map_option ev_core ((h1(event := v)) x) = map_option ev_core (evheap s x)"
      using core R by (simp add: same_core_def)
  qed
  ultimately show ?thesis using D(3,4) R by (auto simp: sim_inv_def)
qed

lemma deschedule_effect:
  assumes inv: "sim_inv s bs" and ev: "event \<in> bin_events bs"
    and par: "\<not> inParallelMode s \<or> curEventQueue s = Some (eq_this (evq s))"
  shows "\<exists>h' p. deschedule event s = Inr (s\<lparr>evheap := h', evq := (evq s)\<lparr>head := p\<rparr>\<rparr>) \<and>
    sim_inv (s\<lparr>evheap := h', evq := (evq s)\<lparr>head := p\<rparr>\<rparr>) (bins_remove event bs) \<and>
    (\<forall>x. x \<noteq> event \<longrightarrow> map_option ev_core (h' x) = map_option ev_core (evheap s x))"
proof -
  obtain h1 p1 e e1 where rm: "eq_remove (eq_this (evq s)) (evheap s) (head (evq s)) event = Inr (h1, p1)"
    and e: "evheap s event = Some e" "h1 event = Some e1" "ev_core e1 = ev_core e"
    and wf: "wf_queue h1 p1 (bins_remove event bs)" and core: "same_core (evheap s) h1"
    using dequeue_effect [OF inv ev] by blast
  have sc: "scheduled e" "initialized e" using sim_inv_scheduled [OF inv ev] e(1) by force+
  let ?e2 = "clear_flag Scheduled (clear_flag Squashed e1)"
  let ?v = "if isAutoDelete ?e2 then None else Some ?e2"
  have "deschedule event s = Inr (s\<lparr>evheap := h1(event := ?v), evq := (evq s)\<lparr>head := p1\<rparr>\<rparr>)"
    using e rm sc par by (auto simp: deschedule_def sim_remove_def upd_event_def delete_event_def)
  moreover have "sim_inv (s\<lparr>evheap := h1(event := ?v), evq := (evq s)\<lparr>head := p1\<rparr>\<rparr>) (bins_remove event bs)"
    by (rule sim_inv_dequeued [OF inv ev wf core]) (auto split: if_splits)
  moreover have "\<forall>x. x \<noteq> event \<longrightarrow> map_option ev_core ((h1(event := ?v)) x) = map_option ev_core (evheap s x)"
    using core by (simp add: same_core_def)
  ultimately show ?thesis by blast
qed

text \<open>A method that returns did so from a state its assertions allow.\<close>

lemma deschedule_returns:
  assumes inv: "sim_inv s bs" and ret: "deschedule event s = Inr s'"
  shows "event \<in> bin_events bs" "\<not> inParallelMode s \<or> curEventQueue s = Some (eq_this (evq s))"
proof -
  from ret obtain e s1 where e: "evheap s event = Some e" and rm: "sim_remove event s = Inr s1"
    and par: "\<not> inParallelMode s \<or> curEventQueue s = Some (eq_this (evq s))"
    by (auto simp: deschedule_def result_iffs)
  then show "\<not> inParallelMode s \<or> curEventQueue s = Some (eq_this (evq s))" by blast
  show "event \<in> bin_events bs"
  proof (rule ccontr)
    assume "event \<notin> bin_events bs"
    moreover have "ev_queue e = Some (eq_this (evq s))"
      using rm e by (auto simp: sim_remove_def eq_remove_def result_iffs split: option.splits)
    ultimately show False
      using eq_remove_missing [OF sim_invD(1) [OF inv] _ e] rm by (simp add: sim_remove_def)
  qed
qed

lemma reschedule_effect:
  assumes inv: "sim_inv s bs" and ev: "evheap s event = Some e" "initialized e" "always \<or> scheduled e"
    and on: "scheduled e \<Longrightarrow> event \<in> bin_events bs"
    and t: "eq_curTick (evq s) \<le> t"
    and par: "\<not> inParallelMode s \<or> curEventQueue s = Some (eq_this (evq s))"
    and K: "K = (key_at (evheap s))(event := (t, ev_priority e))"
  shows "\<exists>h' p. reschedule event t always s = Inr (s\<lparr>evheap := h', evq := (evq s)\<lparr>head := p\<rparr>\<rparr>) \<and>
    sim_inv (s\<lparr>evheap := h', evq := (evq s)\<lparr>head := p\<rparr>\<rparr>) (bins_insert K event (bins_remove event bs)) \<and>
    (\<forall>x. x \<noteq> event \<longrightarrow> map_option ev_core (h' x) = map_option ev_core (evheap s x))"
proof -
  let ?q = "eq_this (evq s)" and ?bs = "bins_remove event bs" and ?f = "set_flag Scheduled \<circ> clear_flag Squashed"
  note D = sim_invD [OF inv] and R = bin_events_remove_inv [OF inv, of event]
  have "\<exists>h1 p1 e1. (if scheduled e then sim_remove event s else Inr s) =
      Inr (s\<lparr>evheap := h1, evq := (evq s)\<lparr>head := p1\<rparr>\<rparr>) \<and>
    h1 event = Some e1 \<and> ev_core e1 = ev_core e \<and> wf_queue h1 p1 ?bs \<and> same_core (evheap s) h1"
  proof (cases "scheduled e")
    case True
    obtain h1 p1 e1 where "eq_remove ?q (evheap s) (head (evq s)) event = Inr (h1, p1)"
      "h1 event = Some e1" "ev_core e1 = ev_core e" "wf_queue h1 p1 ?bs" "same_core (evheap s) h1"
      using dequeue_effect [OF inv on [OF True]] ev(1) by auto
    then show ?thesis using True by (intro exI [of _ h1] exI [of _ p1]) (simp add: sim_remove_def)
  next
    case False
    then have "event \<notin> bin_events bs" by (rule sim_inv_unscheduled(1) [OF inv ev(1)])
    then show ?thesis using False D(1) ev(1) by (intro exI [of _ "evheap s"] exI [of _ "head (evq s)"])
      (simp add: bins_remove_notin)
  qed
  then obtain h1 p1 e1 where rm: "(if scheduled e then sim_remove event s else Inr s) =
      Inr (s\<lparr>evheap := h1, evq := (evq s)\<lparr>head := p1\<rparr>\<rparr>)"
    and e1: "h1 event = Some e1" "ev_core e1 = ev_core e"
    and wf: "wf_queue h1 p1 ?bs" and core: "same_core (evheap s) h1" by blast
  have as: "event \<notin> set (async_queue (evq s))"
    using D(3) on sim_inv_unscheduled(2) [OF inv ev(1)] by blast
  have a1: "sched_of ?q h1 - {event} = bin_events ?bs \<union> set (async_queue (evq s))"
    using sched_of_core [OF core] D(2) R as by auto
  have a2: "not_past (eq_curTick (evq s)) h1 (bin_events ?bs)"
    by (rule not_past_same_core [OF D(5) core]) (simp add: R)
  have a3: "initialized e1" "K = (key_at h1)(event := (t, ev_priority e1))"
    using ev(2) core_simps [OF e1(2)] K same_core_key [OF core] by simp_all
  have a4: "event \<notin> bin_events ?bs" by (simp add: R)
  obtain h2 p2 e2 where
    ins: "eq_insert (h1(event \<mapsto> setWhen t ?q e1)) p1 event = Inr (h2, p2)" and e2: "h2 event = Some e2"
    and wf2: "wf_queue (h2(event \<mapsto> ?f e2)) p2 (bins_insert K event ?bs)"
    and sc: "sched_of ?q (h2(event \<mapsto> ?f e2)) = insert event (bin_events ?bs) \<union> set (async_queue (evq s))"
    and np: "not_past (eq_curTick (evq s)) (h2(event \<mapsto> ?f e2)) (insert event (bin_events ?bs))"
    and fr: "\<forall>x. x \<noteq> event \<longrightarrow> map_option ev_core (h2 x) = map_option ev_core (h1 x)"
    using enqueue_effect [OF wf e1(1) a4 a1 as a2 a3(1) t marks_set_clear a3(2)] by blast
  let ?h2 = "h2(event \<mapsto> ?f e2)"
  have "reschedule event t always s = Inr (s\<lparr>evheap := ?h2, evq := (evq s)\<lparr>head := p2\<rparr>\<rparr>)"
    using ev t par rm e1(1) ins e2
    by (simp add: reschedule_def upd_event_def sim_insert_def del: o_apply)
  moreover have "sim_inv (s\<lparr>evheap := ?h2, evq := (evq s)\<lparr>head := p2\<rparr>\<rparr>) (bins_insert K event ?bs)"
    using wf2 sc np D(3,4) as R by (auto simp: sim_inv_def)
  moreover have "\<forall>x. x \<noteq> event \<longrightarrow> map_option ev_core (?h2 x) = map_option ev_core (evheap s x)"
    using fr core by (simp add: same_core_def)
  ultimately show ?thesis by blast
qed

lemma pop_head_effect:
  assumes inv: "sim_inv s bs" and bs: "bs = (x # xs) # r"
  shows "\<exists>h1 p1 e. pop_head s = Inr (x, s\<lparr>evheap := h1, evq := (evq s)\<lparr>head := p1\<rparr>\<rparr>) \<and>
    sim_inv (s\<lparr>evheap := h1, evq := (evq s)\<lparr>head := p1\<rparr>\<rparr>) (bins_remove x bs) \<and>
    evheap s x = Some e \<and> h1 x = Some (clear_flag Scheduled e) \<and>
    (\<forall>y. y \<noteq> x \<longrightarrow> map_option ev_core (h1 y) = map_option ev_core (evheap s y))"
proof -
  note D = sim_invD [OF inv]
  have seg: "bins_seg (evheap s) (Some x) ((x # xs) # r) None" and hd: "head (evq s) = Some x"
    and dist: "distinct (concat ((x # xs) # r))"
    using D(1) bs by (auto simp: wf_queue_def bins_ok_def)
  obtain e where e: "evheap s x = Some e" using seg by auto
  from removeItem_refines [OF seg _ dist, of x] obtain h1 p1 where
    ri: "removeItem (evheap s) x x = Inr (h1, p1)" and sg: "bins_seg h1 p1 (bins_remove x bs) None"
    and oc: "only_changes (set (x # xs)) (evheap s) h1" by (auto simp: bs)
  have core: "same_core (evheap s) h1" using oc by (rule only_changes_core)
  have "bins_ok (key_at h1) (bins_remove x bs)"
    using D(1) bins_ok_remove same_core_key [OF core] by (auto simp: wf_queue_def)
  then have wf: "wf_queue h1 p1 (bins_remove x bs)" using sg by (simp add: wf_queue_def)
  let ?h = "h1(x \<mapsto> clear_flag Scheduled e)"
  have "pop_head s = Inr (x, s\<lparr>evheap := ?h, evq := (evq s)\<lparr>head := p1\<rparr>\<rparr>)"
  proof (cases "nextInBin e")
    case None
    then show ?thesis using ri e hd by (simp add: removeItem_def pop_head_def upd_event_def)
  next
    case (Some n)
    then have "n \<noteq> x" using seg e dist by (cases xs) auto
    then show ?thesis using Some ri e hd
      by (auto simp: removeItem_def pop_head_def upd_event_def result_iffs fun_upd_twist)
  qed
  moreover have "sim_inv (s\<lparr>evheap := ?h, evq := (evq s)\<lparr>head := p1\<rparr>\<rparr>) (bins_remove x bs)"
    by (rule sim_inv_dequeued [OF inv _ wf core]) (auto simp: bs)
  ultimately show ?thesis using e core
    by (intro exI [of _ ?h] exI [of _ p1] exI [of _ e]) (simp add: same_core_def)
qed

end
