(* ===== verification/EventQ_Loop.thy ===== *)
theory EventQ_Loop
  imports EventQ_Sim
begin

text \<open>
  Servicing events. The handler of an event (\<^verbatim>\<open>Event::process\<close>, virtual in the source) is a
  parameter; the locale \<^verbatim>\<open>event_handlers\<close> states what the queue relies on: a handler leaves a
  consistent queue behind and does not touch the clock. Handlers that act through the methods of
  the queue satisfy it.
\<close>

subsection \<open>Further facts on the invariant\<close>

lemma sim_inv_upd_same:
  assumes inv: "sim_inv s bs" and h: "evheap s x = Some e"
    and same: "ev_links e' = ev_links e" "ev_key e' = ev_key e" "scheduled e' = scheduled e"
      "ev_queue e' = ev_queue e" "initialized e' = initialized e"
  shows "sim_inv (s\<lparr>evheap := (evheap s)(x \<mapsto> e')\<rparr>) bs"
proof -
  note D = sim_invD [OF inv]
  have "wf_queue ((evheap s)(x \<mapsto> e')) (head (evq s)) bs"
    using D(1) h same(1,2) by (subst wf_queue_cong [of _ _ "evheap s"]) (auto simp: key_at_def)
  moreover have "sched_of q ((evheap s)(x \<mapsto> e')) = sched_of q (evheap s)" for q
    using h same(3,4) by (auto simp: sched_of_def)
  moreover have "not_past (eq_curTick (evq s)) ((evheap s)(x \<mapsto> e')) (bin_events bs)"
    using D(5) h same(5) ev_key_when [OF same(2)] by (auto simp: not_past_def)
  ultimately show ?thesis using D(2-4) by (simp add: sim_inv_def)
qed

lemma sim_inv_del_unscheduled:
  assumes inv: "sim_inv s bs" and h: "evheap s x = Some e" "\<not> scheduled e"
  shows "sim_inv (s\<lparr>evheap := (evheap s)(x := None)\<rparr>) bs"
proof -
  note D = sim_invD [OF inv] and N = sim_inv_unscheduled [OF inv h]
  have "not_past (eq_curTick (evq s)) ((evheap s)(x := None)) (bin_events bs)"
    using D(5) by (auto simp: not_past_def)
  moreover have "sched_of q ((evheap s)(x := None)) = sched_of q (evheap s)" for q
    using h by (auto simp: sched_of_def)
  ultimately show ?thesis using D N by (simp add: sim_inv_def wf_queue_upd_other)
qed

lemma sim_inv_setCurTick:
  "sim_inv s bs \<Longrightarrow> not_past t (evheap s) (bin_events bs) \<Longrightarrow> sim_inv (setCurTick t s) bs"
  by (simp add: sim_inv_def setCurTick_def)

lemma wf_queue_min:
  assumes wf: "wf_queue h p ((x # xs) # r)" and y: "y \<in> bin_events ((x # xs) # r)"
  shows "key_at h x \<le> key_at h y"
proof -
  have ok: "bins_ok (key_at h) ((x # xs) # r)" using wf by (simp add: wf_queue_def)
  show ?thesis
  proof (cases "y \<in> set (x # xs)")
    case True
    then show ?thesis using bins_ok_key [OF ok, of "x # xs" y] by simp
  next
    case False
    then obtain b where b: "b \<in> set r" "y \<in> set b" using y by (auto simp: bin_events_def)
    then have "key_at h y = key_at h (hd b)" using bins_ok_key [OF ok, of b y] by simp
    then show ?thesis using ok b by (simp add: bins_ok_Cons less_imp_le)
  qed
qed

text \<open>The head of the queue is the earliest event: no other event is due before it.\<close>

lemma head_not_past:
  assumes inv: "sim_inv s ((x # xs) # r)" and e: "evheap s x = Some e"
  shows "not_past (ev_when e) (evheap s) (bin_events ((x # xs) # r))"
  unfolding not_past_def
proof (intro allI impI)
  fix y ey assume y: "y \<in> bin_events ((x # xs) # r)" "evheap s y = Some ey"
  have "ev_key e \<le> ev_key ey" using wf_queue_min [OF sim_invD(1) [OF inv] y(1)] e y(2) by simp
  then show "initialized ey \<and> ev_when e \<le> ev_when ey"
    using not_pastD [OF sim_invD(5) [OF inv] y] by (auto simp: ev_key_def)
qed

lemma sim_inv_head: "sim_inv s bs \<Longrightarrow> head (evq s) = None \<longleftrightarrow> bs = []"
  by (cases bs) (auto simp: sim_inv_def wf_queue_def)

lemma sim_inv_headE:
  assumes "sim_inv s bs" "head (evq s) = Some hp"
  obtains xs r where "bs = (hp # xs) # r"
  using assms by (cases bs) (auto simp: sim_inv_def wf_queue_def)

subsection \<open>Handlers\<close>

locale event_handlers =
  fixes process :: "evptr \<Rightarrow> 'z sim_scheme \<Rightarrow> 'z sim_scheme result"
  assumes process_inv: "sim_inv s bs \<Longrightarrow> process ev s = Inr s' \<Longrightarrow> \<exists>bs'. sim_inv s' bs'"
    and process_time: "sim_inv s bs \<Longrightarrow> process ev s = Inr s' \<Longrightarrow>
      eq_curTick (evq s') = eq_curTick (evq s)"
begin

lemma auto_delete_inv:
  assumes "sim_inv s bs" "auto_delete ev s = Inr s'"
  shows "sim_inv s' bs" "evq s' = evq s"
  using assms sim_inv_del_unscheduled [OF assms(1), of ev]
  by (auto simp: auto_delete_def delete_event_def result_iffs split: if_splits)

lemma serviceOne_inv:
  assumes inv: "sim_inv s bs" and ret: "serviceOne process s = Inr (r, s')"
  shows "(\<exists>bs'. sim_inv s' bs') \<and> eq_curTick (evq s) \<le> eq_curTick (evq s')"
proof -
  have "head (evq s) \<noteq> None" using ret
    by (cases "head (evq s)") (auto simp: serviceOne_def pop_head_def)
  then obtain x xs rs where bs: "bs = (x # xs) # rs" using inv by (auto elim: sim_inv_headE)
  from pop_head_effect [OF inv bs] obtain h1 p1 e where
    pop: "pop_head s = Inr (x, s\<lparr>evheap := h1, evq := (evq s)\<lparr>head := p1\<rparr>\<rparr>)"
    and inv1: "sim_inv (s\<lparr>evheap := h1, evq := (evq s)\<lparr>head := p1\<rparr>\<rparr>) (bins_remove x bs)"
    and e: "evheap s x = Some e" "h1 x = Some (clear_flag Scheduled e)"
    and core: "\<forall>y. y \<noteq> x \<longrightarrow> map_option ev_core (h1 y) = map_option ev_core (evheap s y)" by blast
  let ?s1 = "s\<lparr>evheap := h1, evq := (evq s)\<lparr>head := p1\<rparr>\<rparr>"
  have R: "bin_events (bins_remove x bs) = bin_events bs - {x}" by (rule bin_events_remove_inv [OF inv])
  show ?thesis
  proof (cases "squashed e")
    case True
    let ?s2 = "?s1\<lparr>evheap := h1(x \<mapsto> clear_flag Squashed (clear_flag Scheduled e))\<rparr>"
    have "sim_inv ?s2 (bins_remove x bs)"
      using sim_inv_upd_same [OF inv1, of x "clear_flag Scheduled e" "clear_flag Squashed (clear_flag Scheduled e)"] e(2)
      by simp
    moreover have "auto_delete x ?s2 = Inr s'"
      using ret pop e True by (auto simp: serviceOne_def upd_event_def result_iffs)
    ultimately have "sim_inv s' (bins_remove x bs)" "evq s' = evq ?s2"
      using auto_delete_inv [of ?s2 "bins_remove x bs" x s'] by blast+
    then show ?thesis by auto
  next
    case False
    have le: "eq_curTick (evq s) \<le> ev_when e"
      using not_pastD [OF sim_invD(5) [OF inv], of x e] e(1) bs by simp
    have "not_past (ev_when e) (evheap s) (bin_events bs - {x})"
      by (rule not_past_mono [OF head_not_past [OF inv [unfolded bs] e(1)]]) (auto simp: bs)
    then have "not_past (ev_when e) h1 (bin_events (bins_remove x bs))"
      unfolding R by (rule not_past_core) (use core in simp)
    then have inv2: "sim_inv (setCurTick (ev_when e) ?s1) (bins_remove x bs)"
      using sim_inv_setCurTick [OF inv1, of "ev_when e"] by simp
    from ret pop e False obtain s2 where s2: "process x (setCurTick (ev_when e) ?s1) = Inr s2"
      and fin: "s' = s2 \<or> auto_delete x s2 = Inr s'"
      by (auto simp: serviceOne_def result_iffs split: if_splits)
    have t2: "eq_curTick (evq s2) = ev_when e"
      using process_time [OF inv2 s2] by (simp add: setCurTick_def)
    obtain bs' where "sim_inv s2 bs'" using process_inv [OF inv2 s2] by blast
    with fin have "sim_inv s' bs' \<and> evq s' = evq s2" using auto_delete_inv [of s2 bs' x s'] by blast
    then show ?thesis using t2 le by auto
  qed
qed

lemma serviceEvents_loop_inv:
  assumes ret: "serviceEvents_loop process t s = Some (Inr s')" and inv: "sim_inv s bs"
  shows "\<exists>bs'. sim_inv s' bs' \<and> eq_curTick (evq s) \<le> eq_curTick (evq s') \<and>
    (\<forall>x e. x \<in> bin_events bs' \<longrightarrow> evheap s' x = Some e \<longrightarrow> t < ev_when e)"
proof -
  define P where "P = (\<lambda>(process' :: evptr \<Rightarrow> 'z sim_scheme \<Rightarrow> 'z sim_scheme result) t
    (s :: 'z sim_scheme) (r :: 'z sim_scheme result).
    process' = process \<longrightarrow> (\<forall>s' bs. r = Inr s' \<longrightarrow> sim_inv s bs \<longrightarrow>
      (\<exists>bs'. sim_inv s' bs' \<and> eq_curTick (evq s) \<le> eq_curTick (evq s') \<and>
        (\<forall>x e. x \<in> bin_events bs' \<longrightarrow> evheap s' x = Some e \<longrightarrow> t < ev_when e))))"
  have "P process t s (Inr s')"
  proof (rule serviceEvents_loop.raw_induct [where P = P, OF _ ret])
    fix f process' t s r
    assume IH: "\<And>process' t s r. f process' t s = Some r \<Longrightarrow> P process' t s r"
      and eq: "(case head (evq s) of None \<Rightarrow> Some (Inr s)
        | Some hp \<Rightarrow> (case evheap s hp of None \<Rightarrow> Some (Inl NullDeref)
          | Some he \<Rightarrow> if t < ev_when he then Some (Inr s)
              else (case serviceOne process' s of Inl er \<Rightarrow> Some (Inl er)
                    | Inr (x, s') \<Rightarrow> f process' t s'))) = Some r"
    show "P process' t s r"
      unfolding P_def
    proof (intro impI allI)
      fix s' bs assume p: "process' = process" and r: "r = Inr s'" and inv: "sim_inv s bs"
      show "\<exists>bs'. sim_inv s' bs' \<and> eq_curTick (evq s) \<le> eq_curTick (evq s') \<and>
        (\<forall>x e. x \<in> bin_events bs' \<longrightarrow> evheap s' x = Some e \<longrightarrow> t < ev_when e)"
      proof (cases "head (evq s)")
        case None
        then show ?thesis using eq r inv sim_inv_head [OF inv] by (intro exI [of _ bs]) auto
      next
        case (Some hp)
        then obtain xs rs where bs: "bs = (hp # xs) # rs" using inv by (auto elim: sim_inv_headE)
        obtain he where he: "evheap s hp = Some he" using eq r Some by (cases "evheap s hp") auto
        show ?thesis
        proof (cases "t < ev_when he")
          case True
          have "\<forall>x e. x \<in> bin_events bs \<longrightarrow> evheap s x = Some e \<longrightarrow> t < ev_when e"
            using head_not_past [OF inv [unfolded bs] he] True unfolding bs not_past_def
            by (meson less_le_trans)
          then show ?thesis using True eq r inv Some he by auto
        next
          case False
          then obtain y s1 where one: "serviceOne process s = Inr (y, s1)" and f: "f process t s1 = Some (Inr s')"
            using eq r Some he p by (auto split: sum.splits)
          obtain bs1 where "sim_inv s1 bs1" "eq_curTick (evq s) \<le> eq_curTick (evq s1)"
            using serviceOne_inv [OF inv one] by blast
          moreover have "P process t s1 (Inr s')" by (rule IH [OF f])
          ultimately obtain bs2 where "sim_inv s' bs2" "eq_curTick (evq s1) \<le> eq_curTick (evq s')"
            "\<forall>x e. x \<in> bin_events bs2 \<longrightarrow> evheap s' x = Some e \<longrightarrow> t < ev_when e"
            unfolding P_def by blast
          then show ?thesis using \<open>eq_curTick (evq s) \<le> eq_curTick (evq s1)\<close> order_trans by blast
        qed
      qed
    qed
  qed
  then show ?thesis using inv unfolding P_def by blast
qed

text \<open>When \<^verbatim>\<open>serviceEvents\<close> returns, every event due up to the given time has been serviced,
  the clock stands at that time and the queue is consistent.\<close>

lemma serviceEvents_inv:
  assumes ret: "serviceEvents process t s = Inr s'" and inv: "sim_inv s bs"
  shows "\<exists>bs'. sim_inv s' bs' \<and> eq_curTick (evq s') = t \<and>
    (\<forall>x e. x \<in> bin_events bs' \<longrightarrow> evheap s' x = Some e \<longrightarrow> t < ev_when e)"
proof -
  from ret obtain s1 where s1: "serviceEvents_loop process t s = Some (Inr s1)" "s' = setCurTick t s1"
    by (auto simp: serviceEvents_def result_iffs from_loop_def split: option.splits)
  from serviceEvents_loop_inv [OF s1(1) inv] obtain bs' where
    1: "sim_inv s1 bs'" "\<forall>x e. x \<in> bin_events bs' \<longrightarrow> evheap s1 x = Some e \<longrightarrow> t < ev_when e" by blast
  then have "not_past t (evheap s1) (bin_events bs')"
    using sim_invD(5) [OF 1(1)] by (auto simp: not_past_def less_imp_le)
  then have "sim_inv s' bs'" using sim_inv_setCurTick [OF 1(1)] s1(2) by simp
  then show ?thesis using 1(2) s1(2) by (intro exI [of _ bs']) (simp add: setCurTick_def)
qed

end

subsection \<open>Handlers that act through the methods of the queue\<close>

datatype eq_op =
    OpSchedule evptr tick bool
  | OpDeschedule evptr
  | OpReschedule evptr tick bool
  | OpSquash evptr

fun run_op :: "eq_op \<Rightarrow> 'z sim_scheme \<Rightarrow> 'z sim_scheme result" where
  "run_op (OpSchedule event t global) s = schedule event t global s"
| "run_op (OpDeschedule event) s = deschedule event s"
| "run_op (OpReschedule event t always) s = reschedule event t always s"
| "run_op (OpSquash event) s = upd_event event squash s"

fun run_ops :: "eq_op list \<Rightarrow> 'z sim_scheme \<Rightarrow> 'z sim_scheme result" where
  "run_ops [] s = Inr s"
| "run_ops (a # as) s = ebind (run_op a s) (run_ops as)"

lemma schedule_returns:
  assumes "schedule event t global s = Inr s'"
  obtains e where "evheap s event = Some e" "\<not> scheduled e" "initialized e" "eq_curTick (evq s) \<le> t"
  using assms by (auto simp: schedule_def result_iffs)

lemma schedule_inv:
  assumes inv: "sim_inv s bs" and ret: "schedule event t global s = Inr s'"
  shows "(\<exists>bs'. sim_inv s' bs') \<and> eq_curTick (evq s') = eq_curTick (evq s)"
proof -
  obtain e where e: "evheap s event = Some e" "\<not> scheduled e" "initialized e" "eq_curTick (evq s) \<le> t"
    using ret by (rule schedule_returns)
  show ?thesis
  proof (cases "goes_async s global")
    case True
    show ?thesis using schedule_async [OF inv e True refl] ret by (auto simp: asyncInsert_def)
  next
    case False
    show ?thesis using schedule_local [OF inv e False refl] ret by auto
  qed
qed

lemma deschedule_inv:
  assumes inv: "sim_inv s bs" and ret: "deschedule event s = Inr s'"
  shows "(\<exists>bs'. sim_inv s' bs') \<and> eq_curTick (evq s') = eq_curTick (evq s)"
  using deschedule_effect [OF inv deschedule_returns [OF inv ret]] ret by auto

lemma reschedule_inv:
  assumes inv: "sim_inv s bs" and ret: "reschedule event t always s = Inr s'"
  shows "(\<exists>bs'. sim_inv s' bs') \<and> eq_curTick (evq s') = eq_curTick (evq s)"
proof -
  from ret obtain e s1 where e: "evheap s event = Some e" "initialized e" "always \<or> scheduled e"
    "eq_curTick (evq s) \<le> t" "\<not> inParallelMode s \<or> curEventQueue s = Some (eq_this (evq s))"
    and rm: "(if scheduled e then sim_remove event s else Inr s) = Inr s1"
    by (auto simp: reschedule_def result_iffs)
  have "event \<in> bin_events bs" if "scheduled e"
  proof (rule ccontr)
    assume "event \<notin> bin_events bs"
    moreover have "ev_queue e = Some (eq_this (evq s))"
      using rm e that by (auto simp: sim_remove_def eq_remove_def result_iffs split: option.splits)
    ultimately show False
      using eq_remove_missing [OF sim_invD(1) [OF inv] _ e(1)] rm that by (simp add: sim_remove_def)
  qed
  from reschedule_effect [OF inv e(1-3) this e(4,5) refl] show ?thesis using ret by auto
qed

lemma squash_inv:
  assumes inv: "sim_inv s bs" and ret: "upd_event event squash s = Inr s'"
  shows "(\<exists>bs'. sim_inv s' bs') \<and> eq_curTick (evq s') = eq_curTick (evq s)"
proof -
  from ret obtain e where e: "evheap s event = Some e" "s' = s\<lparr>evheap := (evheap s)(event \<mapsto> squash e)\<rparr>"
    by (auto simp: upd_event_def result_iffs)
  have "squash e = set_flag Squashed e" by (simp add: squash_def set_flag_def)
  then show ?thesis using sim_inv_upd_same [OF inv e(1), of "squash e"] e(2) by auto
qed

lemma run_op_inv:
  assumes "sim_inv s bs" "run_op a s = Inr s'"
  shows "(\<exists>bs'. sim_inv s' bs') \<and> eq_curTick (evq s') = eq_curTick (evq s)"
  using assms by (cases a) (auto dest: schedule_inv deschedule_inv reschedule_inv squash_inv)

lemma run_ops_inv:
  assumes "sim_inv s bs" "run_ops as s = Inr s'"
  shows "(\<exists>bs'. sim_inv s' bs') \<and> eq_curTick (evq s') = eq_curTick (evq s)"
  using assms
proof (induction as arbitrary: s bs)
  case (Cons a as)
  then obtain s1 where "run_op a s = Inr s1" "run_ops as s1 = Inr s'" by (auto simp: result_iffs)
  moreover from this(1) obtain bs1 where "sim_inv s1 bs1" "eq_curTick (evq s1) = eq_curTick (evq s)"
    using run_op_inv [OF Cons.prems(1)] by blast
  ultimately show ?case using Cons.IH by metis
qed auto

interpretation scripted: event_handlers "\<lambda>ev s. run_ops (script ev s) s" for script
  by unfold_locales (auto dest: run_ops_inv)

subsection \<open>Draining the queue\<close>

text \<open>The events in the order in which \<^verbatim>\<open>serviceOne\<close> takes them off the queue.\<close>

fun pops :: "nat \<Rightarrow> 'z sim_scheme \<Rightarrow> (evptr list \<times> 'z sim_scheme) result" where
  "pops 0 s = Inr ([], s)"
| "pops (Suc n) s =
     ebind (pop_head s) (\<lambda>(x, s1). ebind (pops n s1) (\<lambda>(xs, s2). Inr (x # xs, s2)))"

lemma concat_bins_remove_hd:
  "distinct (concat ((x # xs) # r)) \<Longrightarrow> concat (bins_remove x ((x # xs) # r)) = xs @ concat r"
  by auto

lemma pops_all:
  "sim_inv s bs \<Longrightarrow> \<exists>s'. pops (length (concat bs)) s = Inr (concat bs, s') \<and> sim_inv s' []"
proof (induction "length (concat bs)" arbitrary: bs s)
  case 0
  moreover have "bs = []" using "0.hyps" sim_invD(1) [OF "0.prems"]
    by (cases bs) (auto simp: wf_queue_def)
  ultimately show ?case by simp
next
  case (Suc n)
  then obtain b r where "bs = b # r" by (cases bs) auto
  then obtain x xs where bs: "bs = (x # xs) # r"
    using sim_invD(1) [OF Suc.prems] by (cases b) (auto simp: wf_queue_def)
  from pop_head_effect [OF Suc.prems bs] obtain s1 where
    pop: "pop_head s = Inr (x, s1)" and inv1: "sim_inv s1 (bins_remove x bs)" by blast
  have "distinct (concat bs)" using sim_invD(1) [OF Suc.prems] by (auto simp: wf_queue_def bins_ok_def)
  then have c: "concat (bins_remove x bs) = xs @ concat r"
    unfolding bs by (rule concat_bins_remove_hd)
  have n: "n = length (concat (bins_remove x bs))" using Suc.hyps(2) bs c by simp
  from Suc.hyps(1) [OF n inv1] n obtain s' where
    "pops n s1 = Inr (xs @ concat r, s')" "sim_inv s' []" using c by auto
  moreover have "length (concat bs) = Suc n" using Suc.hyps(2) by simp
  ultimately show ?case using pop bs by simp
qed

lemma wf_queue_sorted: "wf_queue h p bs \<Longrightarrow> sorted (map (key_at h) (concat bs))"
proof -
  have "bins_ok K bs \<Longrightarrow> sorted (map K (concat bs))" for K
  proof (induction bs)
    case (Cons b bs)
    have "K x \<le> K y" if x: "x \<in> set b" and y: "y \<in> set (concat bs)" for x y
    proof -
      from y obtain b' where b': "b' \<in> set bs" "y \<in> set b'" by auto
      then have "K x = K (hd b)" "K y = K (hd b')"
        using Cons.prems x bins_ok_key [OF Cons.prems] by auto
      then show ?thesis using Cons.prems b' by (simp add: bins_ok_Cons less_imp_le)
    qed
    moreover have "sorted (map K b)"
    proof -
      have "map K b = replicate (length b) (K (hd b))"
        using Cons.prems by (intro replicate_eqI) (auto simp: bins_ok_Cons dest: same_keyD)
      then show ?thesis by simp
    qed
    ultimately show ?case using Cons by (auto simp: sorted_append bins_ok_Cons)
  qed simp
  then show "wf_queue h p bs \<Longrightarrow> ?thesis" by (simp add: wf_queue_def)
qed

subsection \<open>The self check accepts well-formed queues\<close>

lemma verify_bin_stack:
  assumes "stack_at h p xs" "\<forall>x \<in> set xs. key_at h x = k" "(time, priority) \<le> k"
    "distinct xs" "set xs \<inter> set seen = {}"
  shows "\<exists>time' priority'. verify_bin h p time priority seen =
    Some (Inr (Some (time', priority', rev xs @ seen))) \<and>
    (time', priority') = (if xs = [] then (time, priority) else k)"
  using assms
proof (induction xs arbitrary: p time priority seen)
  case Nil
  then show ?case by (simp add: verify_bin.simps)
next
  case (Cons x xs)
  then obtain e where e: "p = Some x" "h x = Some e" "stack_at h (nextInBin e) xs" by auto
  have k: "k = (ev_when e, ev_priority e)" using Cons.prems(2) e(2) by (simp add: ev_key_def)
  from Cons.IH [OF e(3), of "ev_when e" "ev_priority e" "x # seen"] Cons.prems k
  obtain t' p' where "verify_bin h (nextInBin e) (ev_when e) (ev_priority e) (x # seen) =
      Some (Inr (Some (t', p', rev xs @ x # seen)))" "(t', p') = k" by (auto split: if_splits)
  moreover have "verify_bin h p time priority seen =
      verify_bin h (nextInBin e) (ev_when e) (ev_priority e) (x # seen)"
    using e Cons.prems(3,5) k by (subst verify_bin.simps) auto
  ultimately show ?case by simp
qed

lemma verify_bins_ok:
  assumes "bins_seg h p bs None" "bins_ok (key_at h) bs"
    "\<forall>b \<in> set bs. (time, priority) \<le> key_at h (hd b)" "bin_events bs \<inter> set seen = {}"
  shows "verify_bins h p time priority seen = Some (Inr True)"
  using assms
proof (induction bs arbitrary: p time priority seen)
  case Nil
  then show ?case by (simp add: verify_bins.simps)
next
  case (Cons b bs)
  then obtain x xs e where b: "b = x # xs" "p = Some x" "h x = Some e"
    "stack_at h (nextInBin e) xs" "bins_seg h (nextBin e) bs None" by auto
  have f1: "\<forall>y \<in> set b. key_at h y = key_at h x"
    using Cons.prems(2) b(1) by (auto simp: bins_ok_Cons same_key_def)
  have f2: "(time, priority) \<le> key_at h x" using Cons.prems(3) b(1) by simp
  have f3: "stack_at h (Some x) b" using b by simp
  have f4: "distinct b" "set b \<inter> set seen = {}" "b \<noteq> []"
    using Cons.prems(2,4) by (auto simp: bins_ok_Cons)
  obtain t' p' where v: "verify_bin h (Some x) time priority seen =
      Some (Inr (Some (t', p', rev b @ seen)))" "(t', p') = key_at h x"
    using verify_bin_stack [OF f3 f1 f2 f4(1,2)] f4(3) by (auto simp only: if_False)
  have "verify_bins h (nextBin e) t' p' (rev b @ seen) = Some (Inr True)"
  proof (rule Cons.IH [OF b(5)])
    show "bins_ok (key_at h) bs" using Cons.prems(2) by (simp add: bins_ok_Cons)
    show "\<forall>b' \<in> set bs. (t', p') \<le> key_at h (hd b')"
      unfolding v(2) using Cons.prems(2) b(1) by (auto simp: bins_ok_Cons less_imp_le)
    show "bin_events bs \<inter> set (rev b @ seen) = {}"
      using Cons.prems(2,4) by (auto simp: bins_ok_Cons)
  qed
  then show ?case using v(1) b(2,3) by (subst verify_bins.simps) simp
qed

subsection \<open>Servicing events ends when the handlers leave the queue alone\<close>

definition queue_passive :: "(evptr \<Rightarrow> 'z sim_scheme \<Rightarrow> 'z sim_scheme result) \<Rightarrow> bool" where
  "queue_passive process \<longleftrightarrow>
     (\<forall>ev s. \<exists>s'. process ev s = Inr s' \<and> evheap s' = evheap s \<and> evq s' = evq s)"

text \<open>The condition that \<^verbatim>\<open>serviceOne\<close> asserts of exit events.\<close>

definition exit_ok :: "heap \<Rightarrow> bool" where
  "exit_ok h \<longleftrightarrow>
     (\<forall>x e. h x = Some e \<longrightarrow> isExitEvent e \<longrightarrow>
        \<not> isAutoDelete e \<or> \<not> flags_isSet (ev_flags e) IsMainQueue)"

lemma flag_IsMain [simp]:
  "Scheduled AND IsMainQueue = 0" "Squashed AND IsMainQueue = 0"
  by (simp_all add: flag_consts)

lemma exit_flags_clear [simp]:
  "isExitEvent (clear_flag Scheduled e) = isExitEvent e"
  "isExitEvent (clear_flag Squashed e) = isExitEvent e"
  "flags_isSet (ev_flags (clear_flag Scheduled e)) IsMainQueue = flags_isSet (ev_flags e) IsMainQueue"
  "flags_isSet (ev_flags (clear_flag Squashed e)) IsMainQueue = flags_isSet (ev_flags e) IsMainQueue"
  by (simp_all add: isExitEvent_def clear_flag_def flags_isSet_clear_disjoint)

lemma exit_ok_core:
  assumes "exit_ok h" "\<forall>y. y \<noteq> x \<longrightarrow> map_option ev_core (h' y) = map_option ev_core (h y)"
    "\<And>e'. h' x = Some e' \<Longrightarrow> isExitEvent e' \<Longrightarrow>
       \<not> isAutoDelete e' \<or> \<not> flags_isSet (ev_flags e') IsMainQueue"
  shows "exit_ok h'"
  unfolding exit_ok_def
proof (intro allI impI)
  fix y e assume y: "h' y = Some e" "isExitEvent e"
  show "\<not> isAutoDelete e \<or> \<not> flags_isSet (ev_flags e) IsMainQueue"
  proof (cases "y = x")
    case False
    then obtain e0 where "h y = Some e0" "ev_core e = ev_core e0" using assms(2) y by (cases "h y") auto
    then show ?thesis using assms(1) y(2) by (auto simp: exit_ok_def ev_core_def isExitEvent_def isAutoDelete_def)
  qed (use assms(3) y in blast)
qed

lemma key_at_core: "map_option ev_core (h' y) = map_option ev_core (h y) \<Longrightarrow> key_at h' y = key_at h y"
  by (cases "h y"; cases "h' y") (auto simp: key_at_def intro: ev_key_core)

lemma serviceOne_passive:
  assumes inv: "sim_inv s bs" and bs: "bs = (x # xs) # r" and p: "queue_passive process"
    and ex: "exit_ok (evheap s)"
  shows "\<exists>res s'. serviceOne process s = Inr (res, s') \<and> sim_inv s' (bins_remove x bs) \<and>
    exit_ok (evheap s') \<and> (\<forall>y. y \<noteq> x \<longrightarrow> key_at (evheap s') y = key_at (evheap s) y)"
proof -
  from pop_head_effect [OF inv bs] obtain h1 p1 e where
    pop: "pop_head s = Inr (x, s\<lparr>evheap := h1, evq := (evq s)\<lparr>head := p1\<rparr>\<rparr>)"
    and inv1: "sim_inv (s\<lparr>evheap := h1, evq := (evq s)\<lparr>head := p1\<rparr>\<rparr>) (bins_remove x bs)"
    and e: "evheap s x = Some e" "h1 x = Some (clear_flag Scheduled e)"
    and core: "\<forall>y. y \<noteq> x \<longrightarrow> map_option ev_core (h1 y) = map_option ev_core (evheap s y)" by blast
  let ?s1 = "s\<lparr>evheap := h1, evq := (evq s)\<lparr>head := p1\<rparr>\<rparr>" and ?e1 = "clear_flag Scheduled e"
  note R = bin_events_remove_inv [OF inv, of x]
  have ee: "isExitEvent e \<longrightarrow> \<not> isAutoDelete e \<or> \<not> flags_isSet (ev_flags e) IsMainQueue"
    using ex e(1) by (simp add: exit_ok_def)
  have fin: "sim_inv (s2\<lparr>evheap := h1(x := v)\<rparr>) (bins_remove x bs) \<and> exit_ok (h1(x := v)) \<and>
      (\<forall>y. y \<noteq> x \<longrightarrow> key_at (h1(x := v)) y = key_at (evheap s) y)"
    if s2: "sim_inv s2 (bins_remove x bs)" "evheap s2 = h1"
      and v: "v = None \<or> v = Some ?e1 \<or> v = Some (clear_flag Squashed ?e1)" for s2 v
  proof (intro conjI)
    show "sim_inv (s2\<lparr>evheap := h1(x := v)\<rparr>) (bins_remove x bs)"
      using sim_inv_del_unscheduled [OF s2(1), of x ?e1] sim_inv_upd_same [OF s2(1), of x ?e1] s2(2) e(2) v
      by auto
    show "exit_ok (h1(x := v))" using core ee v by (intro exit_ok_core [OF ex, of x]) auto
    show "\<forall>y. y \<noteq> x \<longrightarrow> key_at (h1(x := v)) y = key_at (evheap s) y"
    proof (intro allI impI)
      fix y assume "y \<noteq> x"
      then show "key_at (h1(x := v)) y = key_at (evheap s) y"
        using key_at_core [of "h1(x := v)" y "evheap s"] core by simp
    qed
  qed
  show ?thesis
  proof (cases "squashed e")
    case True
    let ?v = "if isAutoDelete e then None else Some (clear_flag Squashed ?e1)"
    have "serviceOne process s = Inr (None, ?s1\<lparr>evheap := h1(x := ?v)\<rparr>)"
      using pop e True by (auto simp: serviceOne_def upd_event_def auto_delete_def delete_event_def)
    then show ?thesis using fin [OF inv1, of ?v] by auto
  next
    case False
    obtain s2 where s2: "process x (setCurTick (ev_when e) ?s1) = Inr s2"
      "evheap s2 = h1" "evq s2 = evq (setCurTick (ev_when e) ?s1)"
      using p by (auto simp: queue_passive_def setCurTick_def dest!: spec [of _ x] spec [of _ "setCurTick (ev_when e) ?s1"])
    have "not_past (ev_when e) (evheap s) (bin_events bs - {x})"
      by (rule not_past_mono [OF head_not_past [OF inv [unfolded bs] e(1)]]) (auto simp: bs)
    then have "not_past (ev_when e) h1 (bin_events (bins_remove x bs))"
      unfolding R by (rule not_past_core) (use core in simp)
    then have "sim_inv (setCurTick (ev_when e) ?s1) (bins_remove x bs)"
      using sim_inv_setCurTick [OF inv1, of "ev_when e"] by simp
    then have inv2: "sim_inv s2 (bins_remove x bs)" using s2(2,3) by (simp add: sim_inv_def setCurTick_def)
    let ?v = "if isAutoDelete e \<and> \<not> isExitEvent e then None else Some ?e1"
    have "serviceOne process s = Inr (if isExitEvent e then Some x else None, s2\<lparr>evheap := h1(x := ?v)\<rparr>)"
      using pop e False s2(1,2) ee
      by (auto simp: serviceOne_def auto_delete_def delete_event_def assert_that_def fun_upd_idem)
    then show ?thesis using fin [OF inv2 s2(2), of ?v] by auto
  qed
qed

lemma serviceEvents_loop_passive:
  assumes "sim_inv s bs" "queue_passive process" "exit_ok (evheap s)"
  shows "\<exists>s' bs'. serviceEvents_loop process t s = Some (Inr s') \<and> sim_inv s' bs' \<and>
    bin_events bs' = {x \<in> bin_events bs. t < fst (key_at (evheap s) x)} \<and>
    (\<forall>x \<in> bin_events bs'. key_at (evheap s') x = key_at (evheap s) x)"
  using assms
proof (induction "length (concat bs)" arbitrary: s bs rule: less_induct)
  case less
  note inv = less.prems(1)
  show ?case
  proof (cases bs)
    case Nil
    then show ?thesis using inv sim_inv_head [OF inv]
      by (intro exI [of _ s] exI [of _ bs]) (simp add: serviceEvents_loop.simps)
  next
    case (Cons b r)
    then obtain x xs where bs: "bs = (x # xs) # r"
      using sim_invD(1) [OF inv] by (cases b) (auto simp: wf_queue_def)
    have hd: "head (evq s) = Some x" using sim_invD(1) [OF inv] bs by (auto simp: wf_queue_def)
    obtain e where e: "evheap s x = Some e" using sim_inv_scheduled [OF inv, of x] bs by auto
    have min: "ev_when e \<le> fst (key_at (evheap s) y)" if y: "y \<in> bin_events bs" for y
    proof -
      obtain ey where "evheap s y = Some ey" using sim_inv_scheduled [OF inv y] by metis
      then show ?thesis using not_pastD [OF head_not_past [OF inv [unfolded bs] e]] y bs
        by (simp add: ev_key_def)
    qed
    show ?thesis
    proof (cases "t < ev_when e")
      case True
      then have "serviceEvents_loop process t s = Some (Inr s)"
        using hd e by (simp add: serviceEvents_loop.simps)
      moreover have "bin_events bs = {x \<in> bin_events bs. t < fst (key_at (evheap s) x)}"
        using min True by fastforce
      ultimately show ?thesis using inv by blast
    next
      case False
      from serviceOne_passive [OF inv bs less.prems(2,3)] obtain res s1 where
        one: "serviceOne process s = Inr (res, s1)" and inv1: "sim_inv s1 (bins_remove x bs)"
        and ex1: "exit_ok (evheap s1)" and k: "\<forall>y. y \<noteq> x \<longrightarrow> key_at (evheap s1) y = key_at (evheap s) y"
        by blast
      have "distinct (concat bs)" using sim_invD(1) [OF inv] by (auto simp: wf_queue_def bins_ok_def)
      then have "length (concat (bins_remove x bs)) < length (concat bs)"
        using concat_bins_remove_hd [of x xs r] bs by simp
      from less.hyps [OF this inv1 less.prems(2) ex1] obtain s' bs' where
        1: "serviceEvents_loop process t s1 = Some (Inr s')" "sim_inv s' bs'"
        "bin_events bs' = {y \<in> bin_events (bins_remove x bs). t < fst (key_at (evheap s1) y)}"
        "\<forall>y \<in> bin_events bs'. key_at (evheap s') y = key_at (evheap s1) y" by blast
      have "serviceEvents_loop process t s = Some (Inr s')"
        using hd e False one 1(1) by (subst serviceEvents_loop.simps) simp
      moreover have ev: "bin_events bs' = {y \<in> bin_events bs. t < fst (key_at (evheap s) y)}"
      proof -
        have "\<not> t < fst (key_at (evheap s) x)" using False e by (simp add: ev_key_def)
        then have "(y \<in> bin_events bs - {x} \<and> t < fst (key_at (evheap s1) y)) \<longleftrightarrow>
            (y \<in> bin_events bs \<and> t < fst (key_at (evheap s) y))" for y
          using k [rule_format, of y] by (cases "y = x") simp_all
        then show ?thesis unfolding 1(3) bin_events_remove_inv [OF inv, of x] by simp
      qed
      moreover have "\<forall>y \<in> bin_events bs'. key_at (evheap s') y = key_at (evheap s) y"
      proof
        fix y assume y: "y \<in> bin_events bs'"
        then have "y \<noteq> x" unfolding 1(3) bin_events_remove_inv [OF inv, of x] by blast
        then show "key_at (evheap s') y = key_at (evheap s) y" using 1(4) y k by metis
      qed
      ultimately show ?thesis using 1(2) by blast
    qed
  qed
qed

end
