(* ===== verification/EventQ_Props.thy ===== *)
theory EventQ_Props
  imports EventQ_Loop
begin

text \<open>
  The properties of the event queue: the pointer routines implement ordered bins, scheduling and
  descheduling are inverse, servicing keeps the invariant and the clock monotone, and the queue is
  drained in the order of time and priority.
\<close>

subsection \<open>Asynchronous insertions\<close>

lemma insert_all_effect:
  assumes "wf_queue (evheap s) (head (evq s)) bs" "distinct evs" "set evs \<inter> bin_events bs = {}"
    "\<forall>x \<in> set evs. \<exists>e. evheap s x = Some e" "K = key_at (evheap s)"
  shows "\<exists>h' p'. insert_all evs s = Inr (s\<lparr>evheap := h', evq := (evq s)\<lparr>head := p'\<rparr>\<rparr>) \<and>
    wf_queue h' p' (fold (bins_insert K) evs bs) \<and> same_core (evheap s) h'"
  using assms
proof (induction evs arbitrary: s bs)
  case Nil
  then show ?case by (intro exI [of _ "evheap s"] exI [of _ "head (evq s)"]) (simp add: same_core_def)
next
  case (Cons x evs)
  obtain e where e: "evheap s x = Some e" using Cons.prems(4) by auto
  have "x \<notin> bin_events bs" using Cons.prems(3) by auto
  from eq_insert_refines [OF Cons.prems(1) e this] obtain h1 p1 where
    1: "eq_insert (evheap s) (head (evq s)) x = Inr (h1, p1)"
      "wf_queue h1 p1 (bins_insert (key_at (evheap s)) x bs)" "same_core (evheap s) h1"
    by (auto dest: only_changes_core)
  let ?s1 = "s\<lparr>evheap := h1, evq := (evq s)\<lparr>head := p1\<rparr>\<rparr>"
  have "\<exists>h' p'. insert_all evs ?s1 = Inr (?s1\<lparr>evheap := h', evq := (evq ?s1)\<lparr>head := p'\<rparr>\<rparr>) \<and>
      wf_queue h' p' (fold (bins_insert K) evs (bins_insert K x bs)) \<and> same_core (evheap ?s1) h'"
  proof (rule Cons.IH)
    show "set evs \<inter> bin_events (bins_insert K x bs) = {}"
      using Cons.prems(2,3) by (auto simp: set_bins_insert)
    show "\<forall>y \<in> set evs. \<exists>e. evheap ?s1 y = Some e"
      using Cons.prems(4) same_coreD [OF 1(3)] by fastforce
  qed (use 1 Cons.prems(2,5) same_core_key in auto)
  then show ?case using 1 same_core_trans by (fastforce simp: sim_insert_def)
qed

lemma bin_events_fold_insert:
  "bin_events (fold (bins_insert K) evs bs) = bin_events bs \<union> set evs"
  by (induction evs arbitrary: bs) (auto simp: set_bins_insert)

lemma handleAsync_effect:
  assumes inv: "sim_inv s bs" and cur: "curEventQueue s = Some (eq_this (evq s))"
    and np: "not_past (eq_curTick (evq s)) (evheap s) (set (async_queue (evq s)))"
  shows "\<exists>s'. handleAsyncInsertions s = Inr s' \<and> async_queue (evq s') = [] \<and>
    sim_inv s' (fold (bins_insert (key_at (evheap s))) (async_queue (evq s)) bs) \<and>
    same_core (evheap s) (evheap s')"
proof -
  let ?as = "async_queue (evq s)"
  note D = sim_invD [OF inv]
  have ex: "\<forall>x \<in> set ?as. \<exists>e. evheap s x = Some e" using D(2) by (auto simp: sched_of_def)
  from insert_all_effect [OF D(1) D(4) _ ex refl] D(3) obtain h' p' where
    1: "insert_all ?as s = Inr (s\<lparr>evheap := h', evq := (evq s)\<lparr>head := p'\<rparr>\<rparr>)"
      "wf_queue h' p' (fold (bins_insert (key_at (evheap s))) ?as bs)" "same_core (evheap s) h'"
    by auto
  let ?s = "s\<lparr>evheap := h', evq := (evq s)\<lparr>head := p', async_queue := []\<rparr>\<rparr>"
  have "not_past (eq_curTick (evq s)) (evheap s) (bin_events bs \<union> set ?as)"
    using D(5) np by (auto simp: not_past_def)
  then have "not_past (eq_curTick (evq s)) h' (bin_events bs \<union> set ?as)"
    by (rule not_past_same_core [OF _ 1(3)]) simp
  then have "sim_inv ?s (fold (bins_insert (key_at (evheap s))) ?as bs)"
    using 1(2) D(2) sched_of_core [OF 1(3)] by (simp add: sim_inv_def bin_events_fold_insert)
  then show ?thesis using 1 cur by (auto simp: handleAsyncInsertions_def)
qed

subsection \<open>A concrete queue\<close>

text \<open>Three scheduled events in two bins and one idle event, used to instantiate the properties.\<close>

definition demo_event :: "tick \<Rightarrow> evptr option \<Rightarrow> evptr option \<Rightarrow> event" where
  "demo_event t nb ni = \<lparr>nextBin = nb, nextInBin = ni, ev_when = t, ev_priority = 0,
     ev_flags = 0x7a42, ev_queue = Some 0\<rparr>"

definition demo_heap :: heap where
  "demo_heap = [11 \<mapsto> demo_event 10 (Some 13) (Some 12), 12 \<mapsto> demo_event 10 None None,
     13 \<mapsto> demo_event 20 None None, 14 \<mapsto> (demo_event 0 None None)\<lparr>ev_flags := 0x7a40\<rparr>]"

definition demo_sim :: sim where
  "demo_sim = \<lparr>evheap = demo_heap, evq = (new_queue 0 ''q'')\<lparr>head := Some 11, eq_curTick := 5\<rparr>,
     inParallelMode = False, curEventQueue = Some 0\<rparr>"

definition demo_bins :: "evptr list list" where
  "demo_bins = [[11, 12], [13]]"

lemma demo_wf: "wf_queue demo_heap (Some 11) demo_bins"
  by (simp add: wf_queue_def demo_heap_def demo_bins_def demo_event_def bins_ok_def same_key_def
      key_at_def ev_key_def)

lemma demo_inv: "sim_inv demo_sim demo_bins"
proof -
  have "sched_of 0 demo_heap = {11, 12, 13}"
    by (auto simp: sched_of_def demo_heap_def demo_event_def scheduled_def flags_isSet_def
        flag_consts split: if_splits)
  then show ?thesis using demo_wf
    by (auto simp: sim_inv_def demo_sim_def new_queue_def demo_bins_def not_past_def demo_heap_def
        demo_event_def initialized_def flag_consts split: if_splits)
qed

lemma demo_lookup:
  "evheap demo_sim = demo_heap" "evq demo_sim = (new_queue 0 ''q'')\<lparr>head := Some 11, eq_curTick := 5\<rparr>"
  "inParallelMode demo_sim = False" "curEventQueue demo_sim = Some 0"
  "demo_heap 14 = Some ((demo_event 0 None None)\<lparr>ev_flags := 0x7a40\<rparr>)"
  by (simp_all add: demo_sim_def demo_heap_def)

lemma demo_keys:
  "demo_heap 12 = Some (demo_event 10 None None)"
  "key_at demo_heap 11 = (10, 0)" "key_at demo_heap 12 = (10, 0)" "key_at demo_heap 13 = (20, 0)"
  "key_at demo_heap 14 = (0, 0)" "ev_queue (demo_event t nb ni) = Some 0"
  "ev_priority (demo_event t nb ni) = 0"
  by (simp_all add: key_at_def ev_key_def demo_heap_def demo_event_def)

lemma demo_bin_events: "bin_events demo_bins = {11, 12, 13}"
  by (auto simp: demo_bins_def)

lemma demo_exit_ok: "exit_ok demo_heap"
  by (auto simp: exit_ok_def demo_heap_def demo_event_def isExitEvent_def flags_isSet_def
      flag_consts split: if_splits)

subsection \<open>Properties\<close>

text \<open>C4. Inserting an event into a well-formed queue always returns, and the new pointers
  represent the bins with the event put on top of the bin of its time and priority, or into a new
  bin at its place in the order. Nothing but the links of events of the queue is written.\<close>

theorem insert_implements_bins:
  assumes "wf_queue h p bs" "h event = Some e" "event \<notin> bin_events bs"
  shows "\<exists>h' p'. eq_insert h p event = Inr (h', p') \<and>
    wf_queue h' p' (bins_insert (key_at h) event bs) \<and>
    only_changes (insert event (bin_events bs)) h h'"
  using assms by (rule eq_insert_refines)

theorem insert_implements_bins_witness:
  "\<exists>h' p'. eq_insert demo_heap (Some 11) 14 = Inr (h', p') \<and> wf_queue h' p' [[14], [11, 12], [13]]"
  using insert_implements_bins [OF demo_wf demo_lookup(5)]
  by (auto simp: demo_bin_events demo_keys) (simp add: demo_bins_def demo_keys)

text \<open>C5. Removing an event of the queue unlinks exactly that event, wherever it is in its bin,
  and keeps the order of all others; removing an event that is not in the queue panics with
  ``event not found'' instead of corrupting the list.\<close>

theorem remove_implements_bins:
  assumes "wf_queue h p bs" "h event = Some e" "ev_queue e = Some this"
  shows "if event \<in> bin_events bs
    then \<exists>h' p'. eq_remove this h p event = Inr (h', p') \<and>
      wf_queue h' p' (bins_remove event bs) \<and> only_changes (bin_events bs) h h'
    else eq_remove this h p event = Inl (Panic ''event not found!'')"
  using eq_remove_refines [OF assms(1) _ assms(2,3)] eq_remove_missing [OF assms(1) _ assms(2,3)]
  by simp

theorem remove_implements_bins_witness:
  "(\<exists>h' p'. eq_remove 0 demo_heap (Some 11) 12 = Inr (h', p') \<and> wf_queue h' p' [[11], [13]]) \<and>
   eq_remove 0 demo_heap (Some 11) 14 = Inl (Panic ''event not found!'')"
  using remove_implements_bins [OF demo_wf, of 12 "demo_event 10 None None" 0]
    remove_implements_bins [OF demo_wf, of 14 "(demo_event 0 None None)\<lparr>ev_flags := 0x7a40\<rparr>" 0]
  by (auto simp: demo_bin_events demo_keys demo_lookup) (simp add: demo_bins_def)

text \<open>C19. Scheduling an idle event and descheduling it again always succeeds and gives back the
  bins the queue had before, with no other event changed.\<close>

theorem schedule_deschedule:
  assumes "sim_inv s bs" "evheap s event = Some e" "\<not> scheduled e" "initialized e"
    "eq_curTick (evq s) \<le> t" "\<not> goes_async s global"
    "\<not> inParallelMode s \<or> curEventQueue s = Some (eq_this (evq s))"
  shows "\<exists>s1 s2 bs1. schedule event t global s = Inr s1 \<and> sim_inv s1 bs1 \<and>
    bin_events bs1 = insert event (bin_events bs) \<and>
    deschedule event s1 = Inr s2 \<and> sim_inv s2 bs \<and>
    (\<forall>x. x \<noteq> event \<longrightarrow> map_option ev_core (evheap s2 x) = map_option ev_core (evheap s x))"
proof -
  let ?K = "(key_at (evheap s))(event := (t, ev_priority e))"
  let ?bs = "bins_insert ?K event bs"
  from schedule_local [OF assms(1-6) refl] obtain h1 p1 where
    s1: "schedule event t global s = Inr (s\<lparr>evheap := h1, evq := (evq s)\<lparr>head := p1\<rparr>\<rparr>)"
      "sim_inv (s\<lparr>evheap := h1, evq := (evq s)\<lparr>head := p1\<rparr>\<rparr>) ?bs"
      "\<forall>x. x \<noteq> event \<longrightarrow> map_option ev_core (h1 x) = map_option ev_core (evheap s x)" by blast
  let ?s1 = "s\<lparr>evheap := h1, evq := (evq s)\<lparr>head := p1\<rparr>\<rparr>"
  have ev: "event \<in> bin_events ?bs" "event \<notin> bin_events bs"
    using sim_inv_unscheduled [OF assms(1-3)] by auto
  have undo: "bins_remove event ?bs = bs"
    using ev(2) wf_queue_nonempty [OF sim_invD(1) [OF assms(1)]] by (rule bins_remove_insert)
  have "\<not> inParallelMode ?s1 \<or> curEventQueue ?s1 = Some (eq_this (evq ?s1))" using assms(7) by simp
  from deschedule_effect [OF s1(2) ev(1) this] obtain s2 where
    "deschedule event ?s1 = Inr s2" "sim_inv s2 bs"
    "\<forall>x. x \<noteq> event \<longrightarrow> map_option ev_core (evheap s2 x) = map_option ev_core (h1 x)"
    unfolding undo by auto
  with s1 show ?thesis by (intro exI [of _ ?s1] exI [of _ s2] exI [of _ ?bs]) simp
qed

theorem schedule_deschedule_witness:
  "\<exists>s1 s2. schedule 14 10 False demo_sim = Inr s1 \<and> deschedule 14 s1 = Inr s2 \<and>
    sim_inv s2 [[11, 12], [13]]"
proof -
  have "\<not> scheduled ((demo_event 0 None None)\<lparr>ev_flags := 0x7a40\<rparr>)"
    "initialized ((demo_event 0 None None)\<lparr>ev_flags := 0x7a40\<rparr>)"
    by (simp_all add: scheduled_def initialized_def flags_isSet_def flag_consts)
  from schedule_deschedule [OF demo_inv _ this, of 14 10 False] show ?thesis
    by (auto simp: demo_lookup new_queue_def goes_async_def demo_bins_def)
qed

text \<open>C9. Servicing one event, with an arbitrary handler that acts on the queue by scheduling,
  descheduling, rescheduling and squashing events, keeps the queue consistent and never moves
  the clock backwards.\<close>

theorem serviceOne_clock:
  assumes "sim_inv s bs" "serviceOne (\<lambda>ev s. run_ops (script ev s) s) s = Inr (r, s')"
  shows "(\<exists>bs'. sim_inv s' bs') \<and> eq_curTick (evq s) \<le> eq_curTick (evq s')"
  using assms by (rule scripted.serviceOne_inv)

theorem serviceOne_clock_witness:
  "\<exists>s' bs'. serviceOne (\<lambda>ev s. run_ops [OpSchedule 14 10 False] s) demo_sim = Inr (None, s') \<and>
    sim_inv s' bs' \<and> 5 \<le> eq_curTick (evq s')"
proof -
  have "\<exists>s'. serviceOne (\<lambda>ev s. run_ops [OpSchedule 14 10 False] s) demo_sim = Inr (None, s')"
    by (simp add: demo_sim_def demo_heap_def demo_event_def serviceOne_def pop_head_def upd_event_def
        new_queue_def clear_flag_def squashed_def flags_isSet_def flags_clear_def setCurTick_def
        flag_consts schedule_def scheduled_def initialized_def sim_insert_def eq_insert_def
        setWhen_def insertBefore_def ev_le_def ev_less_def set_flag_def flags_set_def isExitEvent_def
        auto_delete_def isAutoDelete_def)
  then obtain s' where "serviceOne (\<lambda>ev s. run_ops [OpSchedule 14 10 False] s) demo_sim = Inr (None, s')" ..
  with serviceOne_clock [OF demo_inv, of "\<lambda>ev s. [OpSchedule 14 10 False]" None s'] show ?thesis
    by (auto simp: demo_lookup new_queue_def)
qed

text \<open>C17. The queue is drained in the order of time, then priority; events of equal time and
  priority leave in the order of their stack, the last inserted first. Every scheduled event
  leaves exactly once and the queue ends empty.\<close>

theorem drain_order:
  assumes "sim_inv s bs"
  shows "\<exists>s'. pops (length (concat bs)) s = Inr (concat bs, s') \<and> head (evq s') = None \<and>
    sorted (map (key_at (evheap s)) (concat bs)) \<and> distinct (concat bs) \<and>
    set (concat bs) = sched_of (eq_this (evq s)) (evheap s) - set (async_queue (evq s))"
proof -
  note D = sim_invD [OF assms]
  obtain s' where s': "pops (length (concat bs)) s = Inr (concat bs, s')" "sim_inv s' []"
    using pops_all [OF assms] by blast
  have "head (evq s') = None" using s'(2) by (simp add: sim_inv_def wf_queue_def)
  moreover have "distinct (concat bs)" using D(1) by (auto simp: wf_queue_def bins_ok_def)
  moreover have "set (concat bs) = sched_of (eq_this (evq s)) (evheap s) - set (async_queue (evq s))"
    using D(2,3) unfolding bin_events_def by blast
  ultimately show ?thesis using s'(1) wf_queue_sorted [OF D(1)] by blast
qed

theorem drain_order_witness:
  "\<exists>s'. pops 3 demo_sim = Inr ([11, 12, 13], s') \<and> head (evq s') = None"
  using drain_order [OF demo_inv] by (auto simp: demo_bins_def numeral_3_eq_3)

text \<open>C18. When the handlers do not touch the queue, servicing up to a time always ends: it
  returns with the clock at that time, exactly the later events are left in the queue, and
  the queue is consistent.\<close>

theorem serviceEvents_returns:
  assumes "sim_inv s bs" "queue_passive process" "exit_ok (evheap s)"
  shows "\<exists>s' bs'. serviceEvents process t s = Inr s' \<and> sim_inv s' bs' \<and> eq_curTick (evq s') = t \<and>
    bin_events bs' = {x \<in> bin_events bs. t < fst (key_at (evheap s) x)}"
proof -
  from serviceEvents_loop_passive [OF assms, of t] obtain s1 bs' where
    1: "serviceEvents_loop process t s = Some (Inr s1)" "sim_inv s1 bs'"
      "bin_events bs' = {x \<in> bin_events bs. t < fst (key_at (evheap s) x)}"
      "\<forall>x \<in> bin_events bs'. key_at (evheap s1) x = key_at (evheap s) x" by blast
  have "not_past t (evheap s1) (bin_events bs')"
    unfolding not_past_def
  proof (intro allI impI)
    fix x e assume x: "x \<in> bin_events bs'" "evheap s1 x = Some e"
    then have "fst (key_at (evheap s) x) = ev_when e" using 1(4) [rule_format, OF x(1), symmetric] by (simp add: ev_key_def)
    then show "initialized e \<and> t \<le> ev_when e"
      using x(1) 1(3) not_pastD [OF sim_invD(5) [OF 1(2)] x] by (simp add: less_imp_le)
  qed
  then have "sim_inv (setCurTick t s1) bs'" using sim_inv_setCurTick [OF 1(2)] by simp
  then show ?thesis using 1(1,3)
    by (intro exI [of _ "setCurTick t s1"] exI [of _ bs'])
      (simp add: serviceEvents_def from_loop_def setCurTick_def)
qed

theorem serviceEvents_returns_witness:
  "\<exists>s' bs'. serviceEvents (\<lambda>ev s. Inr s) 15 demo_sim = Inr s' \<and> sim_inv s' bs' \<and>
    eq_curTick (evq s') = 15 \<and> bin_events bs' = {13}"
proof -
  have "{x \<in> {11, 12, 13}. 15 < fst (key_at demo_heap x)} = {13}"
    by (auto simp: demo_keys)
  then show ?thesis
    using serviceEvents_returns [OF demo_inv, of "\<lambda>ev s. Inr s" 15] demo_exit_ok
    by (simp add: queue_passive_def demo_lookup demo_bin_events)
qed

text \<open>C20. The events that other threads put on the asynchronous list are all moved into the
  bins, in the order in which they were put there, and the list ends empty.\<close>

theorem async_events_enter_bins:
  assumes "sim_inv s bs" "curEventQueue s = Some (eq_this (evq s))"
    "not_past (eq_curTick (evq s)) (evheap s) (set (async_queue (evq s)))"
  shows "\<exists>s'. handleAsyncInsertions s = Inr s' \<and> async_queue (evq s') = [] \<and>
    sim_inv s' (fold (bins_insert (key_at (evheap s))) (async_queue (evq s)) bs) \<and>
    same_core (evheap s) (evheap s')"
  using assms by (rule handleAsync_effect)

theorem async_events_enter_bins_witness:
  "\<exists>s1 s2. schedule 14 30 True (demo_sim\<lparr>inParallelMode := True\<rparr>) = Inr s1 \<and>
    async_queue (evq s1) = [14] \<and> handleAsyncInsertions s1 = Inr s2 \<and>
    sim_inv s2 [[11, 12], [13], [14]]"
proof -
  let ?s = "demo_sim\<lparr>inParallelMode := True\<rparr>" and ?e = "(demo_event 0 None None)\<lparr>ev_flags := 0x7a40\<rparr>"
  let ?h = "demo_heap(14 \<mapsto> set_flag Scheduled (setWhen 30 0 ?e))"
  let ?s1 = "?s\<lparr>evheap := ?h, evq := asyncInsert 14 (evq ?s)\<rparr>"
  have e: "\<not> scheduled ?e" "initialized ?e"
    by (simp_all add: scheduled_def initialized_def flags_isSet_def flag_consts)
  have inv: "sim_inv ?s demo_bins" using demo_inv by (simp add: sim_inv_def)
  have s1: "schedule 14 30 True ?s = Inr ?s1" "sim_inv ?s1 demo_bins"
    using schedule_async [OF inv _ e, of 14 30 True ?h] by (simp_all add: demo_lookup new_queue_def goes_async_def)
  have "initialized (set_flag Scheduled (setWhen 30 0 ?e))" using e(2) by simp
  then have "not_past 5 ?h {14}" by (simp add: not_past_def set_flag_def setWhen_def)
  with async_events_enter_bins [OF s1(2)] s1(1) show ?thesis
    by (auto simp: demo_lookup new_queue_def asyncInsert_def demo_bins_def demo_keys key_at_upd
        ev_key_def set_flag_def setWhen_def)
qed

lemma verify_bins_early:
  assumes "bins_seg h p (b # bs) None" "key_at h (hd b) < (time, priority)"
  shows "verify_bins h p time priority seen = Some (Inr False)"
  using assms by (auto simp: verify_bins.simps verify_bin.simps ev_key_def)

text \<open>C34. The self check of a consistent queue ends and accepts it, except when the first event
  comes before time 0 and priority 0, from which the check starts: a queue whose first event has a
  negative priority at tick 0 is rejected although nothing is wrong with it.\<close>

theorem debugVerify_exact:
  assumes "sim_inv s bs"
  shows "debugVerify s = Inr (bs = [] \<or> (0, 0) \<le> key_at (evheap s) (hd (hd bs)))"
proof (cases "bs = [] \<or> (0, 0) \<le> key_at (evheap s) (hd (hd bs))")
  case True
  have wf: "bins_seg (evheap s) (head (evq s)) bs None" "bins_ok (key_at (evheap s)) bs"
    using sim_invD(1) [OF assms] by (auto simp: wf_queue_def)
  have "\<forall>b \<in> set bs. (0, 0) \<le> key_at (evheap s) (hd b)"
    using True wf(2) by (cases bs) (auto simp: bins_ok_Cons intro: order_trans less_imp_le)
  then show ?thesis using verify_bins_ok [OF wf] True by (simp add: debugVerify_def from_loop_def)
next
  case False
  then obtain b r where bs: "bs = b # r" "key_at (evheap s) (hd b) < (0, 0)" by (cases bs) auto
  have "bins_seg (evheap s) (head (evq s)) (b # r) None"
    using sim_invD(1) [OF assms] bs(1) by (simp add: wf_queue_def)
  from verify_bins_early [OF this bs(2)] show ?thesis
    using bs by (simp add: debugVerify_def from_loop_def not_le)
qed

theorem debugVerify_exact_witness: "debugVerify demo_sim = Inr True"
  using debugVerify_exact [OF demo_inv] by (simp add: demo_bins_def demo_keys demo_lookup)

end
