(* ===== verification/Bitfield.thy ===== *)
theory Bitfield
  imports Prelude
begin

text \<open>
  The bit-field helpers of \<^verbatim>\<open>base/bitfield.hh\<close> on 64-bit values. Bit positions are natural
  numbers; the source has them as \<^verbatim>\<open>int\<close>, and its shifts are defined only for positions
  between 0 and 63, the range the lemmas assume. The lemmas describe each helper bit by bit.
\<close>

definition bf_mask :: "nat \<Rightarrow> 64 word" where
  "bf_mask nbits = (if nbits = 64 then - 1 else push_bit nbits 1 - 1)"

definition bits :: "64 word \<Rightarrow> nat \<Rightarrow> nat \<Rightarrow> 64 word" where
  "bits val first lst = (let nbits = Suc first - lst in drop_bit lst val AND bf_mask nbits)"

definition mbits :: "64 word \<Rightarrow> nat \<Rightarrow> nat \<Rightarrow> 64 word" where
  "mbits val first lst = val AND (bf_mask (Suc first) AND NOT (bf_mask lst))"

definition bf_mask2 :: "nat \<Rightarrow> nat \<Rightarrow> 64 word" where
  "bf_mask2 first lst = mbits (- 1) first lst"

definition sext :: "nat \<Rightarrow> 64 word \<Rightarrow> 64 word" where
  "sext N val = (if bits val (N - 1) (N - 1) \<noteq> 0 then val OR NOT (bf_mask N) else val)"

definition insertBits :: "64 word \<Rightarrow> nat \<Rightarrow> nat \<Rightarrow> 64 word \<Rightarrow> 64 word" where
  "insertBits val first lst bit_val =
     (let bmask = push_bit lst (bf_mask (Suc first - lst))
      in (push_bit lst bit_val AND bmask) OR (val AND NOT bmask))"

definition replaceBits :: "64 word \<Rightarrow> nat \<Rightarrow> nat \<Rightarrow> 64 word \<Rightarrow> 64 word" where
  "replaceBits val first lst bit_val = insertBits val first lst bit_val"

text \<open>The two searches test one half of the value after the other; \<^verbatim>\<open>half_step\<close> is one of
  their lines, on the position found so far and the value shifted so far.\<close>

definition half_step :: "nat \<Rightarrow> (64 word \<Rightarrow> bool) \<Rightarrow> nat \<times> 64 word \<Rightarrow> nat \<times> 64 word" where
  "half_step n c = (\<lambda>(pos, val). if c val then (pos + n, drop_bit n val) else (pos, val))"

definition findMsbSet :: "64 word \<Rightarrow> nat" where
  "findMsbSet val =
     (if val = 0 then 0
      else let
        s = half_step 32 (\<lambda>val. bits val 63 32 \<noteq> 0) (0, val);
        s = half_step 16 (\<lambda>val. bits val 31 16 \<noteq> 0) s;
        s = half_step 8 (\<lambda>val. bits val 15 8 \<noteq> 0) s;
        s = half_step 4 (\<lambda>val. bits val 7 4 \<noteq> 0) s;
        s = half_step 2 (\<lambda>val. bits val 3 2 \<noteq> 0) s;
        s = half_step 1 (\<lambda>val. bits val 1 1 \<noteq> 0) s
      in fst s)"

definition findLsbSet :: "64 word \<Rightarrow> nat" where
  "findLsbSet val =
     (if val = 0 then 64
      else let
        s = half_step 32 (\<lambda>val. bits val 31 0 = 0) (0, val);
        s = half_step 16 (\<lambda>val. bits val 15 0 = 0) s;
        s = half_step 8 (\<lambda>val. bits val 7 0 = 0) s;
        s = half_step 4 (\<lambda>val. bits val 3 0 = 0) s;
        s = half_step 2 (\<lambda>val. bits val 1 0 = 0) s;
        s = half_step 1 (\<lambda>val. bits val 0 0 = 0) s
      in fst s)"

definition isPow2 :: "64 word \<Rightarrow> bool" where
  "isPow2 v \<longleftrightarrow> v AND (v - 1) = 0"

subsection \<open>Bit-level descriptions\<close>

lemma bf_mask_eq: "nbits \<le> 64 \<Longrightarrow> bf_mask nbits = mask nbits"
  by (auto simp: bf_mask_def mask_eq_exp_minus_1 push_bit_eq_mult)

lemma bit_bf_mask: "nbits \<le> 64 \<Longrightarrow> bit (bf_mask nbits) i \<longleftrightarrow> i < nbits"
  by (auto simp: bf_mask_eq bit_mask_iff)

lemma bits_eq: "lst \<le> Suc first \<Longrightarrow> first < 64 \<Longrightarrow> bits val first lst = take_bit (Suc first - lst) (drop_bit lst val)"
  by (simp add: bits_def bf_mask_eq take_bit_eq_mask)

lemma bit_bits:
  "lst \<le> Suc first \<Longrightarrow> first < 64 \<Longrightarrow> bit (bits val first lst) i \<longleftrightarrow> i < Suc first - lst \<and> bit val (lst + i)"
  by (auto simp: bits_eq bit_take_bit_iff bit_drop_bit_eq)

lemma unat_bits:
  assumes "lst \<le> Suc first" "first < 64"
  shows "unat (bits val first lst) = unat val div 2 ^ lst mod 2 ^ (Suc first - lst)"
proof -
  have "unat (bits val first lst) = take_bit (Suc first - lst) (drop_bit lst (unat val))"
    by (simp add: bits_eq assms unsigned_take_bit_eq unat_drop_bit_eq)
  then show ?thesis by (simp only: take_bit_eq_mod drop_bit_eq_div)
qed

lemma bits_less: "lst \<le> Suc first \<Longrightarrow> first < 64 \<Longrightarrow> unat (bits val first lst) < 2 ^ (Suc first - lst)"
  by (simp add: unat_bits)

lemma bit_mbits: "first < 64 \<Longrightarrow> lst \<le> 64 \<Longrightarrow> bit (mbits val first lst) i \<longleftrightarrow> lst \<le> i \<and> i \<le> first \<and> bit val i"
  by (auto simp: mbits_def bit_and_iff bit_not_iff bit_bf_mask less_Suc_eq_le dest: bit_imp_le_length)

lemma bit_insertBits:
  assumes "lst \<le> first" "first < 64"
  shows "bit (insertBits val first lst b) i =
    (if lst \<le> i \<and> i \<le> first then bit b (i - lst) else bit val i)"
  using assms
  by (auto simp: insertBits_def Let_def bit_or_iff bit_and_iff bit_not_iff bit_push_bit_iff bit_bf_mask
      dest: bit_imp_le_length)

lemma bits_insertBits:
  assumes "lst \<le> first" "first < 64"
  shows "bits (insertBits val first lst b) first lst = take_bit (Suc first - lst) b"
  by (rule bit_eqI) (use assms in \<open>auto simp: bit_bits bit_insertBits bit_take_bit_iff\<close>)

lemma insertBits_bits:
  assumes "lst \<le> first" "first < 64"
  shows "insertBits val first lst (bits val first lst) = val"
  by (rule bit_eqI) (use assms in \<open>auto simp: bit_bits bit_insertBits\<close>)


subsection \<open>The searches for the first and last set bit\<close>

definition msb_inv :: "64 word \<Rightarrow> nat \<Rightarrow> nat \<times> 64 word \<Rightarrow> bool" where
  "msb_inv v n = (\<lambda>(pos, x). x = drop_bit pos v \<and> x \<noteq> 0 \<and> unat x < 2 ^ n)"

lemma unat_drop_bit: "unat (drop_bit n (x :: 64 word)) = unat x div 2 ^ n"
  unfolding unat_drop_bit_eq by (rule drop_bit_eq_div)

lemma msb_step:
  assumes "msb_inv v m s" "m = n + n" "\<And>x. unat x < 2 ^ m \<Longrightarrow> c x \<longleftrightarrow> 2 ^ n \<le> unat x"
  shows "msb_inv v n (half_step n c s)"
proof -
  obtain pos x where s: "s = (pos, x)" by (cases s)
  have *: "x = drop_bit pos v" "x \<noteq> 0" "unat x < 2 ^ n * 2 ^ n" "c x \<longleftrightarrow> 2 ^ n \<le> unat x"
    using assms(1,2,3) by (auto simp: msb_inv_def power_add s)
  have "unat x div 2 ^ n < 2 ^ n" using *(3) by (simp add: less_mult_imp_div_less)
  moreover have "drop_bit n x \<noteq> 0" if "c x"
  proof
    assume "drop_bit n x = 0"
    then have "unat x div 2 ^ n = 0" by (simp add: unat_eq_0 flip: unat_drop_bit)
    then show False using that *(4) by (simp add: div_eq_0_iff)
  qed
  ultimately show ?thesis using * unat_drop_bit [of n x]
    by (auto simp: msb_inv_def half_step_def add.commute s)
qed

lemma msb_final:
  assumes "msb_inv v 1 (pos, x)"
  shows "2 ^ pos \<le> unat v" "unat v < 2 ^ Suc pos"
proof -
  have "unat x \<noteq> 0" using assms by (auto simp: msb_inv_def unat_eq_0)
  moreover have "unat x < 2" using assms by (auto simp: msb_inv_def)
  ultimately have "unat x = 1" by linarith
  then have d: "unat v div 2 ^ pos = 1" using assms by (simp add: msb_inv_def unat_drop_bit)
  show "2 ^ pos \<le> unat v" using d by (metis div_greater_zero_iff less_one)
  show "unat v < 2 ^ Suc pos"
    using d dividend_less_times_div [of "2 ^ pos" "unat v"] by simp
qed

lemma bits_ge:
  assumes "unat x < 2 ^ m" "m = n + n" "0 < n" "n \<le> 32" "hi = m - 1"
  shows "bits x hi n \<noteq> 0 \<longleftrightarrow> 2 ^ n \<le> unat x"
proof -
  have "unat x div 2 ^ n < 2 ^ n" using assms(1,2) by (simp add: less_mult_imp_div_less power_add)
  then have "unat (bits x hi n) = unat x div 2 ^ n"
    using unat_bits [of n hi x] assms by simp
  then show ?thesis by (metis div_greater_zero_iff gr0I unat_0 unat_eq_0 zero_less_numeral zero_less_power less_numeral_extra(3))
qed

lemma msb_bits_step:
  assumes "msb_inv v m s" "m = n + n" "0 < n" "n \<le> 32" "hi = m - 1"
  shows "msb_inv v n (half_step n (\<lambda>x. bits x hi n \<noteq> 0) s)"
  using assms bits_ge [OF _ assms(2-5)] by (intro msb_step) auto

lemma msb_inv_start: "v \<noteq> 0 \<Longrightarrow> msb_inv v 64 (0, v)"
  using unsigned_less [of v] by (simp add: msb_inv_def)

lemma findMsbSet_spec:
  assumes "v \<noteq> 0"
  shows "2 ^ findMsbSet v \<le> unat v \<and> unat v < 2 ^ Suc (findMsbSet v)"
proof -
  define s where "s = half_step 1 (\<lambda>val. bits val 1 1 \<noteq> 0) (half_step 2 (\<lambda>val. bits val 3 2 \<noteq> 0)
    (half_step 4 (\<lambda>val. bits val 7 4 \<noteq> 0) (half_step 8 (\<lambda>val. bits val 15 8 \<noteq> 0)
    (half_step 16 (\<lambda>val. bits val 31 16 \<noteq> 0) (half_step 32 (\<lambda>val. bits val 63 32 \<noteq> 0) (0, v))))))"
  have "msb_inv v 1 s" unfolding s_def
    by (rule msb_bits_step msb_inv_start [OF assms] | simp)+
  moreover have "findMsbSet v = fst s" using assms by (simp add: findMsbSet_def s_def Let_def)
  ultimately show ?thesis using msb_final [of v "fst s" "snd s"] by simp
qed

definition lsb_inv :: "64 word \<Rightarrow> nat \<Rightarrow> nat \<times> 64 word \<Rightarrow> bool" where
  "lsb_inv v n = (\<lambda>(pos, x). x = drop_bit pos v \<and> (\<forall>i < pos. \<not> bit v i) \<and> (\<exists>i < n. bit x i))"

lemma lsb_step:
  assumes "lsb_inv v m s" "m = n + n" "\<And>x. c x \<longleftrightarrow> (\<forall>i < n. \<not> bit x i)"
  shows "lsb_inv v n (half_step n c s)"
proof -
  obtain pos where s: "s = (pos, drop_bit pos v)" and z: "\<forall>i < pos. \<not> bit v i"
    and ex: "\<exists>i < n + n. bit v (pos + i)"
    using assms(1,2) by (cases s) (auto simp: lsb_inv_def bit_drop_bit_eq)
  show ?thesis
  proof (cases "\<forall>i < n. \<not> bit v (pos + i)")
    case True
    then have z': "\<not> bit v i" if "i < pos + n" for i
      using z that by (cases "i < pos") (auto dest: spec [of _ "i - pos"])
    obtain i where i: "i < n + n" "bit v (pos + i)" using ex by blast
    then have "n \<le> i" using True leI by blast
    then have "i - n < n" "bit v (pos + n + (i - n))" using i by (auto simp: algebra_simps)
    then have "\<exists>i < n. bit v (pos + n + i)" by blast
    then show ?thesis using True z' assms(3)
      by (auto simp: lsb_inv_def half_step_def s bit_drop_bit_eq add.commute [of n pos])
  next
    case False
    then show ?thesis using z assms(3) by (auto simp: lsb_inv_def half_step_def s bit_drop_bit_eq)
  qed
qed

lemma bits_low_zero: "n \<le> 64 \<Longrightarrow> 0 < n \<Longrightarrow> hi = n - 1 \<Longrightarrow> bits x hi 0 = 0 \<longleftrightarrow> (\<forall>i < n. \<not> bit x i)"
  by (auto simp: bit_eq_iff [of _ "0 :: 64 word"] bit_bits)

lemma lsb_bits_step:
  assumes "lsb_inv v m s" "m = n + n" "0 < n" "n \<le> 32" "hi = n - 1"
  shows "lsb_inv v n (half_step n (\<lambda>x. bits x hi 0 = 0) s)"
  using assms by (intro lsb_step bits_low_zero) auto

lemma lsb_inv_start:
  assumes "v \<noteq> 0"
  shows "lsb_inv v 64 (0, v)"
proof -
  obtain i where "bit v i" using assms by (auto simp: bit_eq_iff)
  then show ?thesis using bit_imp_le_length [of v i] by (auto simp: lsb_inv_def)
qed

lemma findLsbSet_spec:
  assumes "v \<noteq> 0"
  shows "bit v (findLsbSet v) \<and> (\<forall>i < findLsbSet v. \<not> bit v i)"
proof -
  define s where "s = half_step 1 (\<lambda>val. bits val 0 0 = 0) (half_step 2 (\<lambda>val. bits val 1 0 = 0)
    (half_step 4 (\<lambda>val. bits val 3 0 = 0) (half_step 8 (\<lambda>val. bits val 7 0 = 0)
    (half_step 16 (\<lambda>val. bits val 15 0 = 0) (half_step 32 (\<lambda>val. bits val 31 0 = 0) (0, v))))))"
  have "lsb_inv v 1 s" unfolding s_def
    by (rule lsb_bits_step lsb_inv_start [OF assms] | simp)+
  moreover have "findLsbSet v = fst s" using assms by (simp add: findLsbSet_def s_def Let_def)
  ultimately show ?thesis by (auto simp: lsb_inv_def bit_drop_bit_eq split_def)
qed

subsection \<open>Powers of two and sign extension\<close>

lemma nat_and_pred: "(n :: nat) AND (n - 1) = 0 \<longleftrightarrow> n = 0 \<or> (\<exists>k. n = 2 ^ k)"
proof (induction n rule: less_induct)
  case (less n)
  consider "n = 0" | m where "n = 2 * m" "0 < m" | m where "n = Suc (2 * m)"
    by (metis oddE evenE gr0I mult_0_right Suc_eq_plus1)
  then show ?case
  proof cases
    case 2
    then have "n - 1 = Suc (2 * (m - 1))" by simp
    then have "n AND (n - 1) = 2 * (m AND (m - 1))" using 2 by (subst and_rec) simp
    moreover have "(\<exists>k. n = 2 ^ k) \<longleftrightarrow> (\<exists>k. m = 2 ^ k)"
    proof
      assume "\<exists>k. n = 2 ^ k"
      then obtain k where k: "2 * m = 2 ^ k" using 2 by auto
      then have "k \<noteq> 0" using 2 by (cases k) auto
      then show "\<exists>k. m = 2 ^ k" using k by (cases k) auto
    next
      assume "\<exists>k. m = 2 ^ k"
      then show "\<exists>k. n = 2 ^ k" using 2 by (metis power_Suc)
    qed
    ultimately show ?thesis using less.IH [of m] 2 by auto
  next
    case 3
    then have "n AND (n - 1) = 2 * m" by (subst and_rec) simp
    moreover have "(\<exists>k. n = 2 ^ k) \<longleftrightarrow> m = 0"
    proof
      assume "\<exists>k. n = 2 ^ k"
      then obtain k where "Suc (2 * m) = 2 ^ k" using 3 by auto
      then show "m = 0" by (cases k) (auto, metis even_Suc even_mult_iff even_numeral)
    qed (auto simp: 3 intro: exI [of _ 0])
    ultimately show ?thesis using 3 by auto
  qed simp
qed

lemma word_and_pred: "(v :: 64 word) AND (v - 1) = 0 \<longleftrightarrow> v = 0 \<or> (\<exists>k < 64. v = 2 ^ k)"
proof (cases "v = 0")
  case False
  then have "unat (v - 1) = unat v - 1" by (simp add: unat_minus_one)
  then have "unat (v AND (v - 1)) = unat v AND (unat v - 1)" by (simp add: unsigned_and_eq)
  then have "v AND (v - 1) = 0 \<longleftrightarrow> (\<exists>k. unat v = 2 ^ k)"
    using nat_and_pred [of "unat v"] False by (metis unat_0 unat_eq_0)
  moreover have "unat v = 2 ^ k \<longleftrightarrow> k < 64 \<and> v = 2 ^ k" for k
  proof
    assume k: "unat v = 2 ^ k"
    have "unat v < 2 ^ 64" using unsigned_less [of v] by simp
    then have "k < 64" using k by (metis power_strict_increasing_iff one_less_numeral_iff semiring_norm(76))
    moreover have "v = 2 ^ k" using k \<open>k < 64\<close> by (simp add: word_unat_eq_iff)
    ultimately show "k < 64 \<and> v = 2 ^ k" by simp
  qed (simp add:)
  ultimately show ?thesis using False by auto
qed simp

lemma isPow2_iff: "isPow2 v \<longleftrightarrow> v = 0 \<or> (\<exists>k < 64. v = 2 ^ k)"
  unfolding isPow2_def by (rule word_and_pred)

lemma sext_eq:
  assumes "0 < N" "N \<le> 64" "unat val < 2 ^ N"
  shows "sext N val = signed_take_bit (N - 1) val"
proof (rule bit_word_eqI)
  fix i assume "i < LENGTH(64)"
  have top: "\<not> bit val j" if "N \<le> j" for j
  proof -
    have "unat val < 2 ^ j" using assms(3) that by (meson less_le_trans one_le_numeral power_increasing)
    then have "\<not> bit (unat val) j" by (simp add: bit_iff_odd)
    then show ?thesis by (auto simp: bit_unsigned_iff)
  qed
  have "bits val (N - 1) (N - 1) \<noteq> 0 \<longleftrightarrow> bit val (N - 1)"
    using assms by (auto simp: bit_eq_iff [of _ "0 :: 64 word"] bit_bits)
  then show "bit (sext N val) i \<longleftrightarrow> bit (signed_take_bit (N - 1) val) i"
    using assms top [of i] \<open>i < LENGTH(64)\<close>
    by (cases "i = N - 1"; cases "i < N") (auto simp: sext_def bit_signed_take_bit_iff bit_or_iff bit_not_iff bit_bf_mask min_def
        intro: arg_cong [of _ _ "bit val"])
qed

subsection \<open>Properties\<close>

text \<open>C32. The searches for the most and the least significant set bit are exact on every nonzero
  64-bit value, and setting a field and reading it back gives the value written, with all other
  bits unchanged.\<close>

theorem bit_searches_and_fields:
  assumes "v \<noteq> 0" "lst \<le> first" "first < 64"
  shows "2 ^ findMsbSet v \<le> unat v \<and> unat v < 2 ^ Suc (findMsbSet v) \<and>
    bit v (findLsbSet v) \<and> (\<forall>i < findLsbSet v. \<not> bit v i) \<and>
    bits (insertBits v first lst b) first lst = take_bit (Suc first - lst) b \<and>
    (\<forall>i. i < lst \<or> first < i \<longrightarrow> bit (insertBits v first lst b) i = bit v i)"
  using findMsbSet_spec [OF assms(1)] findLsbSet_spec [OF assms(1)] bits_insertBits [OF assms(2,3)]
    bit_insertBits [OF assms(2,3)] by auto

theorem bit_searches_and_fields_witness:
  "2 ^ findMsbSet 40 \<le> (40 :: nat) \<and> bit (40 :: 64 word) (findLsbSet 40) \<and>
   bits (insertBits 40 7 4 5) 7 4 = take_bit 4 5"
  using bit_searches_and_fields [of 40 4 7 5] by simp

end
