(* ===== verification/Intmath.thy ===== *)
theory Intmath
  imports Bitfield "HOL-Library.Char_ord"
begin

text \<open>
  The integer helpers of \<^verbatim>\<open>base/intmath.{hh,cc}\<close>: primes, logarithms, powers of two and
  rounding. Templates are taken at \<^verbatim>\<open>uint64_t\<close>, with wrap-around; the prime helpers, which the
  simulator uses at \<^verbatim>\<open>int\<close>, are over the integers, since no value of theirs overflows
  below 46337 squared.
\<close>

subsection \<open>Primes\<close>

function isPrime_loop :: "int \<Rightarrow> nat \<Rightarrow> bool" where
  "isPrime_loop n i =
     (if int i * int i \<le> n
      then if n mod int i = 0 \<or> n mod (int i + 2) = 0 then False else isPrime_loop n (i + 6)
      else True)"
  by pat_completeness auto
termination
proof (relation "measure (\<lambda>(n, i). nat (n + 6) - i)", goal_cases)
  case (2 n i)
  have "int i \<le> int i * int i" by (cases i) auto
  then show ?case using 2(1) by auto
qed simp

declare isPrime_loop.simps [simp del]

definition isPrime :: "int \<Rightarrow> bool" where
  "isPrime n \<longleftrightarrow> n = 2 \<or> n = 3 \<or> isPrime_loop n 5"

text \<open>The search of \<^verbatim>\<open>prevPrime\<close>. The remainder of C++ truncates towards zero.\<close>

definition c_mod3 :: "int \<Rightarrow> int" where
  "c_mod3 n = (if 0 \<le> n then n mod 3 else - ((- n) mod 3))"

partial_function (option) prevPrime_loop :: "int \<Rightarrow> int \<Rightarrow> int option" where
  "prevPrime_loop n decr =
     (if isPrime n then Some n else prevPrime_loop (n - decr) (6 - decr))"

declare prevPrime_loop.simps [code]

definition prevPrime :: "int \<Rightarrow> int option" where
  "prevPrime n =
     (let n = (if even n then n - 1 else n); decr = c_mod3 n
      in if decr = 0 then prevPrime_loop (n - 2) 2
         else if decr = 1 then prevPrime_loop n 4
         else prevPrime_loop n decr)"

subsection \<open>Powers of two and logarithms\<close>

definition leastSigBit :: "64 word \<Rightarrow> 64 word" where
  "leastSigBit n = n AND NOT (n - 1)"

definition isPowerOf2 :: "64 word \<Rightarrow> bool" where
  "isPowerOf2 n \<longleftrightarrow> n \<noteq> 0 \<and> leastSigBit n = n"

text \<open>\<^verbatim>\<open>power\<close> multiplies in 64 bits and only warns on overflow.\<close>

fun power_loop :: "64 word \<Rightarrow> nat \<Rightarrow> 64 word \<Rightarrow> 64 word" where
  "power_loop n 0 result = result"
| "power_loop n (Suc k) result = power_loop n k (result * n)"

definition int_power :: "32 word \<Rightarrow> 32 word \<Rightarrow> 64 word" where
  "int_power n e = (if e = 0 then 1 else power_loop (ucast n) (unat e - 1) (ucast n))"

definition floorLog2 :: "64 word \<Rightarrow> nat result" where
  "floorLog2 x =
     assert_that ''x > 0'' (x > 0)
     (let
        s = half_step 32 (\<lambda>x. x AND 0xffffffff00000000 \<noteq> 0) (0, x);
        s = half_step 16 (\<lambda>x. x AND 0x00000000ffff0000 \<noteq> 0) s;
        s = half_step 8 (\<lambda>x. x AND 0x000000000000ff00 \<noteq> 0) s;
        s = half_step 4 (\<lambda>x. x AND 0x00000000000000f0 \<noteq> 0) s;
        s = half_step 2 (\<lambda>x. x AND 0x000000000000000c \<noteq> 0) s;
        s = half_step 1 (\<lambda>x. x AND 0x0000000000000002 \<noteq> 0) s
      in Inr (fst s))"

definition ceilLog2 :: "64 word \<Rightarrow> nat result" where
  "ceilLog2 n = (if n = 1 then Inr 0 else ebind (floorLog2 (n - 1)) (\<lambda>y. Inr (y + 1)))"

definition floorPow2 :: "64 word \<Rightarrow> 64 word result" where
  "floorPow2 n = ebind (floorLog2 n) (\<lambda>y. Inr (push_bit y 1))"

definition ceilPow2 :: "64 word \<Rightarrow> 64 word result" where
  "ceilPow2 n = ebind (ceilLog2 n) (\<lambda>y. Inr (push_bit y 1))"

definition divCeil :: "64 word \<Rightarrow> 64 word \<Rightarrow> 64 word" where
  "divCeil a b = (a + b - 1) div b"

definition roundUp :: "64 word \<Rightarrow> 64 word \<Rightarrow> 64 word" where
  "roundUp val align = (let msk = align - 1 in (val + msk) AND NOT msk)"

definition roundDown :: "64 word \<Rightarrow> 64 word \<Rightarrow> 64 word" where
  "roundDown val align = (let msk = align - 1 in val AND NOT msk)"

subsection \<open>Digits\<close>

definition isHex :: "char \<Rightarrow> bool" where
  "isHex c \<longleftrightarrow> (CHR ''0'' \<le> c \<and> c \<le> CHR ''9'') \<or> (CHR ''A'' \<le> c \<and> c \<le> CHR ''F'') \<or>
     (CHR ''a'' \<le> c \<and> c \<le> CHR ''f'')"

definition isOct :: "char \<Rightarrow> bool" where
  "isOct c \<longleftrightarrow> CHR ''0'' \<le> c \<and> c \<le> CHR ''7''"

definition isDec :: "char \<Rightarrow> bool" where
  "isDec c \<longleftrightarrow> CHR ''0'' \<le> c \<and> c \<le> CHR ''9''"

definition hex2Int :: "char \<Rightarrow> int" where
  "hex2Int c =
     (let v = of_char c :: int in
      if CHR ''0'' \<le> c \<and> c \<le> CHR ''9'' then v - of_char (CHR ''0'')
      else if CHR ''A'' \<le> c \<and> c \<le> CHR ''F'' then (v - of_char (CHR ''A'')) + 10
      else if CHR ''a'' \<le> c \<and> c \<le> CHR ''f'' then (v - of_char (CHR ''a'')) + 10
      else 0)"

subsection \<open>Logarithm lemmas\<close>

lemma and_mask_iff_bits:
  assumes "M = push_bit n (mask n)" "0 < n" "n \<le> 32" "hi = n + n - 1"
  shows "x AND M \<noteq> 0 \<longleftrightarrow> bits x hi n \<noteq> 0"
proof -
  have "x AND M = 0 \<longleftrightarrow> (\<forall>i < n. \<not> bit x (n + i))"
  proof -
    have "bit (x AND M) (n + i) \<longleftrightarrow> i < n \<and> bit x (n + i)" for i
      using assms by (auto simp: bit_and_iff bit_push_bit_iff bit_mask_iff dest: bit_imp_le_length)
    moreover have "\<not> bit (x AND M) i" if "i < n" for i
      using that assms by (auto simp: bit_and_iff bit_push_bit_iff)
    ultimately show ?thesis by (metis bit_eqI bit_0_eq bot_apply bot_bool_def le_add_diff_inverse leI)
  qed
  moreover have "bits x hi n = 0 \<longleftrightarrow> (\<forall>i < n. \<not> bit x (n + i))"
    using assms by (auto simp: bit_eq_iff [of _ "0 :: 64 word"] bit_bits)
  ultimately show ?thesis by blast
qed

lemma msb_mask_step:
  assumes "msb_inv v m s" "m = n + n" "0 < n" "n \<le> 32" "M = push_bit n (mask n)"
  shows "msb_inv v n (half_step n (\<lambda>x. x AND M \<noteq> 0) s)"
  using msb_bits_step [OF assms(1-4) refl] and_mask_iff_bits [OF assms(5,3,4) refl] assms(2) by simp

lemma floorLog2_spec:
  assumes "x \<noteq> 0"
  shows "\<exists>y. floorLog2 x = Inr y \<and> y < 64 \<and> 2 ^ y \<le> unat x \<and> unat x < 2 ^ Suc y"
proof -
  define s where "s = half_step 1 (\<lambda>x. x AND 0x2 \<noteq> 0) (half_step 2 (\<lambda>x. x AND 0xc \<noteq> 0)
    (half_step 4 (\<lambda>x. x AND 0xf0 \<noteq> 0) (half_step 8 (\<lambda>x. x AND 0xff00 \<noteq> 0)
    (half_step 16 (\<lambda>x. x AND 0xffff0000 \<noteq> 0) (half_step 32 (\<lambda>x. x AND 0xffffffff00000000 \<noteq> 0) (0, x))))))"
  have "msb_inv x 1 s" unfolding s_def
    by (rule msb_mask_step msb_inv_start [OF assms] | simp add: push_bit_eq_mult mask_eq_exp_minus_1)+
  then have "2 ^ fst s \<le> unat x" "unat x < 2 ^ Suc (fst s)"
    using msb_final [of x "fst s" "snd s"] by simp_all
  moreover have "fst s < 64"
  proof -
    have "2 ^ fst s < (2 :: nat) ^ 64" using calculation(1) unat_lt64 [of x] by linarith
    then show ?thesis by (meson power_strict_increasing_iff one_less_numeral_iff semiring_norm(76))
  qed
  moreover have "floorLog2 x = Inr (fst s)"
    using assms by (simp add: floorLog2_def s_def Let_def word_gt_0)
  ultimately show ?thesis by blast
qed

lemma ceilLog2_spec:
  assumes "n \<noteq> 0"
  shows "\<exists>y. ceilLog2 n = Inr y \<and> y \<le> 64 \<and> unat n \<le> 2 ^ y \<and> (\<forall>z < y. 2 ^ z < unat n)"
proof (cases "n = 1")
  case False
  then have "n - 1 \<noteq> 0" by simp
  from floorLog2_spec [OF this] obtain y where
    y: "floorLog2 (n - 1) = Inr y" "y < 64" "2 ^ y \<le> unat (n - 1)" "unat (n - 1) < 2 ^ Suc y" by blast
  have n: "unat (n - 1) = unat n - 1" "0 < unat n"
    using assms by (simp_all add: unat_minus_one unat_gt_0)
  have "2 ^ z < unat n" if "z < Suc y" for z
  proof -
    have "(2 :: nat) ^ z \<le> 2 ^ y" using that by (simp add: power_increasing)
    then show ?thesis using y(3) n by linarith
  qed
  then show ?thesis using y n False by (intro exI [of _ "Suc y"]) (auto simp: ceilLog2_def)
qed (auto simp: ceilLog2_def)

subsection \<open>Rounding lemmas\<close>

lemma pow2_nonzero: "k < 64 \<Longrightarrow> (2 :: 64 word) ^ k \<noteq> 0"
  using unat_pow2 [of k] by (metis power_not_zero unat_0 zero_neq_numeral)

lemma isPowerOf2_iff: "isPowerOf2 n \<longleftrightarrow> (\<exists>k < 64. n = 2 ^ k)"
proof -
  have "n AND NOT (n - 1) = n \<longleftrightarrow> n AND (n - 1) = 0"
    by (auto simp: bit_eq_iff bit_and_iff bit_not_iff)
  then show ?thesis using pow2_nonzero unfolding isPowerOf2_def leastSigBit_def word_and_pred by auto
qed

lemma unat_and_not_mask: "unat (x AND NOT (mask k) :: 64 word) = unat x div 2 ^ k * 2 ^ k"
proof -
  have "unat (push_bit k (drop_bit k x)) = take_bit 64 (unat x div 2 ^ k * 2 ^ k)"
    unfolding unsigned_push_bit_eq unat_drop_bit_eq
    by (simp add: push_bit_eq_mult [where 'a = nat] drop_bit_eq_div [where 'a = nat])
  moreover have "unat x div 2 ^ k * 2 ^ k < 2 ^ 64"
    using unat_lt64 [of x] div_times_less_eq_dividend [of "unat x" "2 ^ k"] by linarith
  moreover have "x AND NOT (mask k) = push_bit k (drop_bit k x)"
    by (rule bit_eqI) (auto simp: bit_and_iff bit_not_iff bit_mask_iff bit_push_bit_iff bit_drop_bit_eq
        dest: bit_imp_le_length)
  ultimately show ?thesis by (simp add: take_bit_nat_eq_self)
qed

lemma roundDown_spec: "unat (roundDown val (2 ^ k)) = unat val div 2 ^ k * 2 ^ k"
  by (simp add: roundDown_def Let_def unat_and_not_mask flip: mask_eq_exp_minus_1)

lemma roundUp_spec:
  assumes "k < 64" "unat val + 2 ^ k \<le> 2 ^ 64"
  shows "unat (roundUp val (2 ^ k)) = (unat val + (2 ^ k - 1)) div 2 ^ k * 2 ^ k"
proof -
  have "unat (mask k :: 64 word) = 2 ^ k - 1" using assms(1) pow2_nonzero [OF assms(1)]
    by (simp add: mask_eq_exp_minus_1 unat_minus_one)
  moreover have "unat val + (2 ^ k - 1) < 2 ^ 64" using assms(2) by (simp add: less_le_trans)
  ultimately have "unat (val + mask k) = unat val + (2 ^ k - 1)"
    using unat_add_lem [of val "mask k"] by simp
  then show ?thesis by (simp add: roundUp_def Let_def unat_and_not_mask flip: mask_eq_exp_minus_1)
qed

subsection \<open>Prime lemmas\<close>

definition prime_int :: "int \<Rightarrow> bool" where
  "prime_int n \<longleftrightarrow> 1 < n \<and> (\<forall>d. 1 < d \<longrightarrow> d dvd n \<longrightarrow> d = n)"

lemma isPrime_loop_iff:
  "isPrime_loop n i \<longleftrightarrow>
     (\<forall>k. int (i + 6 * k) * int (i + 6 * k) \<le> n \<longrightarrow>
        \<not> int (i + 6 * k) dvd n \<and> \<not> (int (i + 6 * k) + 2) dvd n)"
proof (induction n i rule: isPrime_loop.induct)
  case (1 n i)
  have mono: "int i * int i \<le> int (i + 6 * k) * int (i + 6 * k)" for k
    by (intro mult_mono) auto
  show ?case
  proof (cases "int i * int i \<le> n")
    case False
    then have "isPrime_loop n i" by (simp add: isPrime_loop.simps)
    moreover have "\<not> int (i + 6 * k) * int (i + 6 * k) \<le> n" for k using False mono [of k] by linarith
    ultimately show ?thesis by blast
  next
    case True
    define P where "P k \<longleftrightarrow> int (i + 6 * k) * int (i + 6 * k) \<le> n \<longrightarrow>
      \<not> int (i + 6 * k) dvd n \<and> \<not> (int (i + 6 * k) + 2) dvd n" for k
    have all: "(\<forall>k. P k) \<longleftrightarrow> P 0 \<and> (\<forall>k. P (Suc k))" by (metis not0_implies_Suc)
    have P0: "P 0 \<longleftrightarrow> \<not> (n mod int i = 0 \<or> n mod (int i + 2) = 0)"
      using True by (simp add: P_def dvd_eq_mod_eq_0)
    have Ps: "P (Suc k) \<longleftrightarrow> (int (i + 6 + 6 * k) * int (i + 6 + 6 * k) \<le> n \<longrightarrow>
      \<not> int (i + 6 + 6 * k) dvd n \<and> \<not> (int (i + 6 + 6 * k) + 2) dvd n)" for k
      by (simp add: P_def add.assoc)
    have "isPrime_loop n i \<longleftrightarrow> P 0 \<and> isPrime_loop n (i + 6)"
      using True P0 by (subst isPrime_loop.simps) auto
    also have "\<dots> \<longleftrightarrow> P 0 \<and> (\<forall>k. P (Suc k))"
      using "1.IH" [OF True] P0 Ps by auto
    finally show ?thesis using all unfolding P_def by blast
  qed
qed

lemma least_divisor:
  assumes "1 < n" "\<not> prime_int n"
  obtains p where "1 < p" "p dvd n" "p * p \<le> n"
proof -
  obtain d where d: "1 < d" "d dvd n" "d \<noteq> n" using assms by (auto simp: prime_int_def)
  then obtain e where e: "n = d * e" by blast
  have "0 < e" using e d(1) assms(1) by (metis less_trans zero_less_one zero_less_mult_pos)
  moreover have "e \<noteq> 1" using e d(3) by auto
  ultimately have "1 < e" by simp
  show ?thesis
  proof (cases "d \<le> e")
    case True
    then show ?thesis using that [of d] d e by (simp add: mult_left_mono)
  next
    case False
    then show ?thesis using that [of e] \<open>1 < e\<close> d e by (simp add: mult_right_mono)
  qed
qed

lemma isPrime_correct:
  assumes "3 < n" "\<not> 2 dvd n" "\<not> 3 dvd n"
  shows "isPrime n \<longleftrightarrow> prime_int n"
proof
  assume pr: "prime_int n"
  have nd: "\<not> d dvd n" if "5 \<le> j" "j * j \<le> n" "d = j \<or> d = j + 2" for d j
  proof -
    have "5 * j \<le> j * j" using that(1) by (intro mult_right_mono) auto
    then have "1 < d" "d < n" using that by linarith+
    then show ?thesis using pr by (auto simp: prime_int_def)
  qed
  have "isPrime_loop n 5" unfolding isPrime_loop_iff
  proof (intro allI impI conjI)
    fix k assume "int (5 + 6 * k) * int (5 + 6 * k) \<le> n"
    then show "\<not> int (5 + 6 * k) dvd n" "\<not> (int (5 + 6 * k) + 2) dvd n"
      using nd [of "int (5 + 6 * k)"] by simp_all
  qed
  then show "isPrime n" by (simp add: isPrime_def)
next
  assume ip: "isPrime n"
  show "prime_int n"
  proof (rule ccontr)
    assume "\<not> prime_int n"
    then obtain p where p: "1 < p" "p dvd n" "p * p \<le> n" using least_divisor assms(1) by force
    have no: "\<not> 2 dvd p" "\<not> 3 dvd p" using p(2) assms(2,3) dvd_trans by blast+
    have "isPrime_loop n 5" using ip assms(1) by (simp add: isPrime_def)
    then have loop: "\<not> int (5 + 6 * k) dvd n \<and> \<not> (int (5 + 6 * k) + 2) dvd n"
      if "int (5 + 6 * k) * int (5 + 6 * k) \<le> n" for k using that unfolding isPrime_loop_iff by blast
    have "p mod 6 = 1 \<or> p mod 6 = 5" using no by presburger
    then show False
    proof
      assume "p mod 6 = 5"
      then have "p = 5 + 6 * (p div 6)" by presburger
      moreover have "0 \<le> p div 6" using p(1) by simp
      ultimately have "int (5 + 6 * nat (p div 6)) = p" by simp
      then show False using loop [of "nat (p div 6)"] p by simp
    next
      assume m: "p mod 6 = 1"
      let ?k = "nat (p div 6 - 1)"
      have "p = 7 + 6 * (p div 6 - 1)" using m by presburger
      moreover have "0 \<le> p div 6 - 1" using m p(1) by presburger
      ultimately have k: "int (5 + 6 * ?k) = p - 2" by simp
      have "0 \<le> p - 2" using p(1) by simp
      then have "(p - 2) * (p - 2) \<le> p * p" by (intro mult_mono) auto
      then show False using loop [of ?k, unfolded k] p by simp
    qed
  qed
qed

lemma isPrime_small: "n < 25 \<Longrightarrow> isPrime n"
  by (simp add: isPrime_def isPrime_loop.simps)

lemma prevPrime_loop_returns:
  assumes "decr = 2 \<or> decr = 4"
  shows "\<exists>m. prevPrime_loop n decr = Some m \<and> m \<le> n \<and> isPrime m"
  using assms
proof (induction "nat n" arbitrary: n decr rule: less_induct)
  case less
  show ?case
  proof (cases "isPrime n")
    case True
    then show ?thesis by (simp add: prevPrime_loop.simps)
  next
    case False
    then have "25 \<le> n" using isPrime_small by force
    then have "nat (n - decr) < nat n" "6 - decr = 2 \<or> 6 - decr = 4" using less.prems by auto
    from less.hyps [OF this] obtain m where "prevPrime_loop (n - decr) (6 - decr) = Some m"
      "m \<le> n - decr" "isPrime m" by blast
    then show ?thesis using False less.prems by (subst prevPrime_loop.simps) auto
  qed
qed

lemma prevPrime_returns:
  "\<exists>m. prevPrime n = Some m \<and> m \<le> n \<and> isPrime m"
proof -
  define n' where "n' = (if even n then n - 1 else n)"
  have le: "n' \<le> n" by (simp add: n'_def)
  have "c_mod3 n' = 0 \<or> c_mod3 n' = 1 \<or> c_mod3 n' = 2 \<or> n' < 0"
    by (auto simp: c_mod3_def)
  then consider "c_mod3 n' = 0" | "c_mod3 n' = 1" | "c_mod3 n' = 2" | "n' < 0" by blast
  then show ?thesis
  proof cases
    case 1
    then show ?thesis using prevPrime_loop_returns [of 2 "n' - 2"] le
      by (fastforce simp: prevPrime_def Let_def simp flip: n'_def)
  next
    case 2
    then show ?thesis using prevPrime_loop_returns [of 4 n'] le
      by (fastforce simp: prevPrime_def Let_def simp flip: n'_def)
  next
    case 3
    then show ?thesis using prevPrime_loop_returns [of 2 n'] le
      by (fastforce simp: prevPrime_def Let_def simp flip: n'_def)
  next
    case 4
    have "prevPrime_loop n' d = Some n'" "prevPrime_loop (n' - 2) d = Some (n' - 2)" for d
      using 4 isPrime_small [of n'] isPrime_small [of "n' - 2"] by (simp_all add: prevPrime_loop.simps)
    then show ?thesis using le 4 isPrime_small [of n'] isPrime_small [of "n' - 2"]
      by (auto simp: prevPrime_def Let_def simp flip: n'_def)
  qed
qed

lemma rounding_to_multiples:
  assumes "k < 64" "unat val + 2 ^ k \<le> 2 ^ 64"
  shows "2 ^ k dvd unat (roundDown val (2 ^ k)) \<and> unat (roundDown val (2 ^ k)) \<le> unat val \<and>
    unat val < unat (roundDown val (2 ^ k)) + 2 ^ k \<and>
    2 ^ k dvd unat (roundUp val (2 ^ k)) \<and> unat val \<le> unat (roundUp val (2 ^ k)) \<and>
    unat (roundUp val (2 ^ k)) < unat val + 2 ^ k"
proof -
  have d: "x div 2 ^ k * 2 ^ k \<le> x" "x < x div 2 ^ k * 2 ^ k + 2 ^ k" for x :: nat
    using dividend_less_div_times [of "2 ^ k" x] by (simp_all add: add.commute)
  have "0 < (2 :: nat) ^ k" by simp
  then show ?thesis
    unfolding roundDown_spec roundUp_spec [OF assms]
    using d [of "unat val"] d [of "unat val + (2 ^ k - 1)"] by (intro conjI dvd_triv_right) linarith+
qed

subsection \<open>Properties\<close>

text \<open>C31. The arithmetic on powers of two is exact. \<^verbatim>\<open>floorLog2\<close> gives the largest power of two not
  above a nonzero 64-bit value and \<^verbatim>\<open>ceilLog2\<close> the smallest one not below it, without failing an
  assertion; \<^verbatim>\<open>roundDown\<close> gives the greatest multiple not above a value and \<^verbatim>\<open>roundUp\<close> the least one
  not below it, as long as the sum does not leave 64 bits.\<close>

theorem powers_of_two_exact:
  assumes "n \<noteq> 0" "k < 64" "unat val + 2 ^ k \<le> 2 ^ 64"
  shows "(\<exists>f c. floorLog2 n = Inr f \<and> 2 ^ f \<le> unat n \<and> unat n < 2 ^ Suc f \<and>
      ceilLog2 n = Inr c \<and> unat n \<le> 2 ^ c \<and> (\<forall>z < c. 2 ^ z < unat n)) \<and>
    2 ^ k dvd unat (roundDown val (2 ^ k)) \<and> unat (roundDown val (2 ^ k)) \<le> unat val \<and>
    unat val < unat (roundDown val (2 ^ k)) + 2 ^ k \<and>
    2 ^ k dvd unat (roundUp val (2 ^ k)) \<and> unat val \<le> unat (roundUp val (2 ^ k)) \<and>
    unat (roundUp val (2 ^ k)) < unat val + 2 ^ k"
  using floorLog2_spec [OF assms(1)] ceilLog2_spec [OF assms(1)] rounding_to_multiples [OF assms(2,3)] by blast

theorem powers_of_two_exact_witness:
  "(\<exists>c. ceilLog2 1000 = Inr c \<and> 1000 \<le> (2 :: nat) ^ c) \<and> unat (roundUp 1000 (2 ^ 6)) < 1064"
  using powers_of_two_exact [of 1000 6 1000] by auto



end
