(* ===== verification/AddrRange.thy ===== *)
theory AddrRange
  imports Bitfield
begin

text \<open>
  Address ranges of \<^verbatim>\<open>base/addr_range.hh\<close>: intervals of addresses, optionally striped by
  matching a slice of the address bits, with or without XOR hashing. Panics and fatal errors are
  values of the result type.
\<close>

record addr_range =
  ar_start :: addr
  ar_end :: addr
  intlvHighBit :: "8 word"
  xorHighBit :: "8 word"
  intlvBits :: "8 word"
  intlvMatch :: "8 word"

definition empty_range :: addr_range where
  "empty_range = \<lparr>ar_start = 1, ar_end = 0, intlvHighBit = 0, xorHighBit = 0, intlvBits = 0,
     intlvMatch = 0\<rparr>"

definition intlv_range ::
  "addr \<Rightarrow> addr \<Rightarrow> 8 word \<Rightarrow> 8 word \<Rightarrow> 8 word \<Rightarrow> 8 word \<Rightarrow> addr_range result" where
  "intlv_range s e hi xor_hi n m =
     (let r = \<lparr>ar_start = s, ar_end = e, intlvHighBit = hi, xorHighBit = xor_hi, intlvBits = n,
               intlvMatch = m\<rparr> in
      if n \<noteq> 0 \<and> xor_hi \<noteq> 0 then
        if xor_hi = hi then Inl (Fatal ''XOR and interleave high bit must be different'')
        else if xor_hi > hi then
          if unat xor_hi - unat hi < unat n
          then Inl (Fatal ''XOR and interleave high bit must be apart'') else Inr r
        else if unat hi - unat xor_hi < unat n
          then Inl (Fatal ''Interleave and XOR high bit must be apart'') else Inr r
      else Inr r)"

definition plain_range :: "addr \<Rightarrow> addr \<Rightarrow> addr_range" where
  "plain_range s e = \<lparr>ar_start = s, ar_end = e, intlvHighBit = 0, xorHighBit = 0, intlvBits = 0,
     intlvMatch = 0\<rparr>"

definition interleaved :: "addr_range \<Rightarrow> bool" where
  "interleaved r \<longleftrightarrow> intlvBits r \<noteq> 0"

definition hashed :: "addr_range \<Rightarrow> bool" where
  "hashed r \<longleftrightarrow> interleaved r \<and> xorHighBit r \<noteq> 0"

definition granularity :: "addr_range \<Rightarrow> 64 word" where
  "granularity r = push_bit (Suc (unat (intlvHighBit r)) - unat (intlvBits r)) 1"

definition stripes :: "addr_range \<Rightarrow> 32 word" where
  "stripes r = ucast (push_bit (unat (intlvBits r)) (1 :: 64 word))"

definition ar_size :: "addr_range \<Rightarrow> addr" where
  "ar_size r = drop_bit (unat (intlvBits r)) (ar_end r - ar_start r + 1)"

definition ar_valid :: "addr_range \<Rightarrow> bool" where
  "ar_valid r \<longleftrightarrow> ar_start r \<le> ar_end r"

definition mergesWith :: "addr_range \<Rightarrow> addr_range \<Rightarrow> bool" where
  "mergesWith this r \<longleftrightarrow> ar_start r = ar_start this \<and> ar_end r = ar_end this \<and>
     intlvHighBit r = intlvHighBit this \<and> xorHighBit r = xorHighBit this \<and>
     intlvBits r = intlvBits this"

definition ar_contains :: "addr_range \<Rightarrow> addr \<Rightarrow> bool" where
  "ar_contains r a =
     (let in_range = a \<ge> ar_start r \<and> a \<le> ar_end r;
          hi = unat (intlvHighBit r); xhi = unat (xorHighBit r); n = unat (intlvBits r) in
      if \<not> interleaved r then in_range
      else if in_range then
        if \<not> hashed r then bits a hi (Suc hi - n) = ucast (intlvMatch r)
        else bits a hi (Suc hi - n) XOR bits a xhi (Suc xhi - n) = ucast (intlvMatch r)
      else False)"

definition ar_intersects :: "addr_range \<Rightarrow> addr_range \<Rightarrow> bool result" where
  "ar_intersects this r =
     (if ar_start this > ar_end r \<or> ar_end this < ar_start r then Inr False
      else if \<not> interleaved this \<and> \<not> interleaved r then Inr True
      else if ar_size r = 1 then Inr (ar_contains this (ar_start r))
      else if mergesWith this r then Inr (intlvMatch this = intlvMatch r)
      else Inl (Panic ''Cannot test intersection''))"

definition isSubset :: "addr_range \<Rightarrow> addr_range \<Rightarrow> bool result" where
  "isSubset this r =
     (if interleaved this then Inl (Panic ''Cannot test subset of interleaved range'')
      else Inr (ar_start this \<ge> ar_start r \<and> ar_end this \<le> ar_end r))"

definition range_less :: "addr_range \<Rightarrow> addr_range \<Rightarrow> bool" where
  "range_less this r =
     (if ar_start this \<noteq> ar_start r then ar_start this < ar_start r
      else intlvMatch this < intlvMatch r)"

definition range_eq :: "addr_range \<Rightarrow> addr_range \<Rightarrow> bool" where
  "range_eq this r =
     (if ar_start this \<noteq> ar_start r then False
      else if ar_end this \<noteq> ar_end r then False
      else if intlvBits this \<noteq> intlvBits r then False
      else if intlvBits this \<noteq> 0 then
        intlvHighBit this = intlvHighBit r \<and> intlvMatch this = intlvMatch r
      else True)"

definition RangeEx :: "addr \<Rightarrow> addr \<Rightarrow> addr_range" where
  "RangeEx s e = plain_range s (e - 1)"

definition RangeIn :: "addr \<Rightarrow> addr \<Rightarrow> addr_range" where
  "RangeIn s e = plain_range s e"

definition RangeSize :: "addr \<Rightarrow> addr \<Rightarrow> addr_range" where
  "RangeSize s sz = plain_range s (s + sz - 1)"

text \<open>The constructor that merges the stripes of one chunk.\<close>

fun check_stripes :: "addr_range \<Rightarrow> 8 word \<Rightarrow> addr_range list \<Rightarrow> unit result" where
  "check_stripes this mtch [] = Inr ()"
| "check_stripes this mtch (r # rs) =
     (if \<not> mergesWith this r then Inl (Fatal ''Can only merge ranges with the same start, end and bits'')
      else if intlvMatch r \<noteq> mtch then Inl (Fatal ''Expected interleave match'')
      else check_stripes this (mtch + 1) rs)"

definition merge_ranges :: "addr_range list \<Rightarrow> addr_range result" where
  "merge_ranges ranges =
     (case ranges of
        [] \<Rightarrow> Inr empty_range
      | front # _ \<Rightarrow>
          let this = front\<lparr>intlvMatch := 0\<rparr> in
          if length ranges \<noteq> unat (push_bit (unat (intlvBits this)) 1 :: 64 word)
          then Inl (Fatal ''Got ranges spanning interleaving bits'')
          else ebind (check_stripes this 0 ranges) (\<lambda>_.
                 Inr (this\<lparr>intlvHighBit := 0, xorHighBit := 0, intlvBits := 0\<rparr>)))"

subsection \<open>Stripes\<close>

text \<open>The stripe an address falls into; \<^verbatim>\<open>range_geom\<close> says that the bit positions are within
  64 bits and that a stripe number fits the match field.\<close>

definition stripe :: "addr_range \<Rightarrow> addr \<Rightarrow> 64 word" where
  "stripe r a =
     (let hi = unat (intlvHighBit r); xhi = unat (xorHighBit r); n = unat (intlvBits r) in
      if hashed r then bits a hi (Suc hi - n) XOR bits a xhi (Suc xhi - n) else bits a hi (Suc hi - n))"

definition range_geom :: "addr_range \<Rightarrow> bool" where
  "range_geom r \<longleftrightarrow> intlvBits r \<le> 8 \<and> intlvHighBit r < 64 \<and>
     unat (intlvBits r) \<le> Suc (unat (intlvHighBit r)) \<and>
     (hashed r \<longrightarrow> xorHighBit r < 64 \<and> unat (intlvBits r) \<le> Suc (unat (xorHighBit r)))"

lemma ar_contains_iff:
  "ar_contains r a \<longleftrightarrow> ar_start r \<le> a \<and> a \<le> ar_end r \<and>
     (interleaved r \<longrightarrow> stripe r a = ucast (intlvMatch r))"
  by (auto simp: ar_contains_def stripe_def Let_def)

lemma mergesWith_stripe:
  "mergesWith this r \<Longrightarrow> stripe r a = stripe this a \<and> interleaved r = interleaved this"
  by (simp add: mergesWith_def stripe_def hashed_def interleaved_def)

lemma unat8_less: "(x :: 8 word) < 64 \<Longrightarrow> unat x < 64" "x \<le> 8 \<Longrightarrow> unat x \<le> 8"
  by (simp_all add: word_less_nat_alt word_le_nat_alt)

lemma stripe_less:
  assumes "range_geom r"
  shows "unat (stripe r a) < 2 ^ unat (intlvBits r)"
proof -
  let ?n = "unat (intlvBits r)"
  have b: "take_bit ?n (bits a hi (Suc hi - ?n)) = bits a hi (Suc hi - ?n)"
    if "?n \<le> Suc hi" "hi < 64" for hi
    using that by (simp add: bits_eq)
  have "take_bit ?n (stripe r a) = stripe r a"
    using assms b [of "unat (intlvHighBit r)"] b [of "unat (xorHighBit r)"]
    by (auto simp: stripe_def Let_def range_geom_def unat8_less)
  then have "unat (stripe r a) = take_bit ?n (unat (stripe r a))" by (metis unsigned_take_bit_eq)
  then show ?thesis by (metis take_bit_nat_less_exp)
qed

lemma check_stripes_Inr:
  assumes "check_stripes this m rs = Inr u" "i < length rs"
  shows "mergesWith this (rs ! i) \<and> intlvMatch (rs ! i) = m + of_nat i"
  using assms
proof (induction rs arbitrary: m i)
  case (Cons r rs)
  then show ?case by (cases i) (auto split: if_splits)
qed simp

lemma ucast8_inj: "(ucast (a :: 8 word) :: 64 word) = ucast b \<longleftrightarrow> a = b"
proof
  assume eq: "(ucast a :: 64 word) = ucast b"
  show "a = b"
  proof (rule bit_word_eqI)
    fix n assume "n < LENGTH(8)"
    then show "bit a n = bit b n" using arg_cong [OF eq, of "\<lambda>w. bit w n"] by (simp add: bit_ucast_iff)
  qed
qed simp

lemma ucast_of_nat8: "i < 256 \<Longrightarrow> unat (ucast (of_nat i :: 8 word) :: 64 word) = i"
  by (simp add: unsigned_ucast_eq unsigned_of_nat take_bit_nat_eq_self)

lemma merge_ranges_Inr:
  assumes "merge_ranges rs = Inr m" "rs \<noteq> []" "range_geom (hd rs)"
  shows "m = plain_range (ar_start (hd rs)) (ar_end (hd rs))"
    "length rs = 2 ^ unat (intlvBits (hd rs))"
    "\<And>i. i < length rs \<Longrightarrow> mergesWith (hd rs) (rs ! i) \<and> intlvMatch (rs ! i) = of_nat i"
proof -
  obtain r rs' where rs: "rs = r # rs'" using assms(2) by (cases rs) auto
  let ?r0 = "r\<lparr>intlvMatch := 0\<rparr>"
  have "unat (intlvBits r) < 64" using assms(3) rs unat8_less(2) [of "intlvBits r"] by (simp add: range_geom_def)
  then have p: "unat (2 ^ unat (intlvBits r) :: 64 word) = 2 ^ unat (intlvBits r)" by simp
  from assms(1) obtain u where u: "check_stripes ?r0 0 rs = Inr u"
    "length rs = 2 ^ unat (intlvBits r)"
    "m = ?r0\<lparr>intlvHighBit := 0, xorHighBit := 0, intlvBits := 0\<rparr>"
    by (auto simp: merge_ranges_def rs Let_def p ebind_Inr_iff split: if_splits)
  show "m = plain_range (ar_start (hd rs)) (ar_end (hd rs))"
    using u(3) by (simp add: plain_range_def rs)
  show "length rs = 2 ^ unat (intlvBits (hd rs))" using u(2) rs by simp
  show "mergesWith (hd rs) (rs ! i) \<and> intlvMatch (rs ! i) = of_nat i" if "i < length rs" for i
    using check_stripes_Inr [OF u(1) that] by (simp add: mergesWith_def rs)
qed

lemma merged_contains:
  assumes "merge_ranges rs = Inr m" "rs \<noteq> []" "range_geom (hd rs)" "i < length rs"
  shows "ar_contains (rs ! i) a \<longleftrightarrow> ar_contains m a \<and> i = unat (stripe (hd rs) a)"
proof -
  note M = merge_ranges_Inr [OF assms(1-3)]
  have i: "mergesWith (hd rs) (rs ! i)" "intlvMatch (rs ! i) = of_nat i" using M(3) [OF assms(4)] by auto
  have "unat (intlvBits (hd rs)) \<le> 8" using assms(3) unat8_less(2) by (simp add: range_geom_def)
  then have "length rs \<le> 2 ^ 8" unfolding M(2) by (rule power_increasing) simp
  then have lt: "i < 256" using assms(4) by simp
  have m: "ar_contains m a \<longleftrightarrow> ar_start (hd rs) \<le> a \<and> a \<le> ar_end (hd rs)"
    by (simp add: M(1) plain_range_def ar_contains_def interleaved_def)
  have "stripe (hd rs) a = ucast (of_nat i :: 8 word) \<longleftrightarrow> i = unat (stripe (hd rs) a)"
    using ucast_of_nat8 [OF lt] by (auto simp: word_unat_eq_iff)
  moreover have "\<not> interleaved (hd rs) \<Longrightarrow> i = unat (stripe (hd rs) a)"
    using assms(4) M(2) stripe_less [OF assms(3), of a] by (simp add: interleaved_def)
  ultimately show ?thesis
    using mergesWith_stripe [OF i(1), of a] i m by (auto simp: ar_contains_iff mergesWith_def)
qed

subsection \<open>Intersection\<close>

lemma ar_intersects_False:
  assumes "ar_intersects this r = Inr False" "interleaved r \<Longrightarrow> ar_size r \<noteq> 1"
  shows "\<not> (ar_contains this a \<and> ar_contains r a)"
proof
  assume c: "ar_contains this a \<and> ar_contains r a"
  then have ab: "ar_start this \<le> a" "a \<le> ar_end this" "ar_start r \<le> a" "a \<le> ar_end r"
    by (simp_all add: ar_contains_iff)
  then have "\<not> (ar_start this > ar_end r \<or> ar_end this < ar_start r)" by auto
  with assms(1) consider "ar_size r = 1" "\<not> ar_contains this (ar_start r)"
    | "interleaved this \<or> interleaved r" "mergesWith this r" "intlvMatch this \<noteq> intlvMatch r"
    by (auto simp: ar_intersects_def split: if_splits)
  then show False
  proof cases
    case 1
    then have "intlvBits r = 0" using assms(2) by (auto simp: interleaved_def)
    then have "ar_end r = ar_start r" using 1(1) by (simp add: ar_size_def)
    then show False using 1(2) c ab(3,4) by (simp add: order.antisym)
  next
    case 2
    then have "ucast (intlvMatch this) = (ucast (intlvMatch r) :: 64 word)"
      using c mergesWith_stripe [OF 2(2), of a] by (auto simp: ar_contains_iff)
    then have "intlvMatch this = intlvMatch r"
      by (simp add: ucast8_inj)
    then show False using 2(3) by simp
  qed
qed

lemma ar_intersects_True:
  assumes "ar_valid this" "ar_valid r" "\<not> interleaved this" "\<not> interleaved r"
  shows "ar_intersects this r = Inr (\<exists>a. ar_contains this a \<and> ar_contains r a)"
proof (cases "ar_start this > ar_end r \<or> ar_end this < ar_start r")
  case True
  then show ?thesis by (auto simp: ar_intersects_def ar_contains_iff)
next
  case False
  then have "ar_contains this (max (ar_start this) (ar_start r)) \<and>
      ar_contains r (max (ar_start this) (ar_start r))"
    using assms by (auto simp: ar_contains_iff ar_valid_def)
  then show ?thesis using False assms(3,4) by (auto simp: ar_intersects_def)
qed

text \<open>The ranges of single addresses, with which the address map is searched.\<close>

lemma point_range [simp]:
  "ar_start (RangeSize a 1) = a" "ar_end (RangeSize a 1) = a" "intlvMatch (RangeSize a 1) = 0"
  "\<not> interleaved (RangeSize a 1)" "ar_size (RangeSize a 1) = 1"
  by (simp_all add: RangeSize_def plain_range_def interleaved_def ar_size_def)

lemma ar_intersects_point: "ar_intersects r (RangeSize a 1) = Inr (ar_contains r a)"
  by (auto simp: ar_intersects_def ar_contains_iff)

subsection \<open>Properties\<close>

text \<open>C16. Merging the stripes of a chunk loses and invents nothing: when the constructor accepts
  the stripes, the merged range contains exactly the addresses of the stripes, and each address of
  it lies in exactly one stripe.\<close>

theorem merge_is_partition:
  assumes "merge_ranges rs = Inr m" "rs \<noteq> []" "range_geom (hd rs)"
  shows "(ar_contains m a \<longleftrightarrow> (\<exists>r \<in> set rs. ar_contains r a)) \<and>
    (ar_contains m a \<longrightarrow> (\<exists>!i. i < length rs \<and> ar_contains (rs ! i) a))"
proof -
  have lt: "unat (stripe (hd rs) a) < length rs"
    using stripe_less [OF assms(3)] merge_ranges_Inr(2) [OF assms] by simp
  have "(\<exists>r \<in> set rs. ar_contains r a) \<longleftrightarrow> ar_contains m a"
    using merged_contains [OF assms] lt by (metis in_set_conv_nth)
  moreover have "\<exists>!i. i < length rs \<and> ar_contains (rs ! i) a" if "ar_contains m a"
    using merged_contains [OF assms, of _ a] lt that by auto
  ultimately show ?thesis by blast
qed

definition demo_stripe :: "8 word \<Rightarrow> addr_range" where
  "demo_stripe m = \<lparr>ar_start = 0, ar_end = 1023, intlvHighBit = 7, xorHighBit = 0, intlvBits = 1,
     intlvMatch = m\<rparr>"

theorem merge_is_partition_witness:
  "merge_ranges [demo_stripe 0, demo_stripe 1] = Inr (plain_range 0 1023) \<and>
   (\<exists>!i. i < length [demo_stripe 0, demo_stripe 1] \<and>
      ar_contains ([demo_stripe 0, demo_stripe 1] ! i) 200)"
proof -
  have m: "merge_ranges [demo_stripe 0, demo_stripe 1] = Inr (plain_range 0 1023)"
    by (simp add: merge_ranges_def demo_stripe_def plain_range_def mergesWith_def Let_def)
  have "range_geom (hd [demo_stripe 0, demo_stripe 1])"
    by (simp add: range_geom_def demo_stripe_def hashed_def)
  moreover have "ar_contains (plain_range 0 1023) 200"
    by (simp add: plain_range_def ar_contains_def interleaved_def)
  ultimately show ?thesis using merge_is_partition [OF m, of 200] m by blast
qed



end
