(* ===== verification/AddrRangeMap.thy ===== *)
theory AddrRangeMap
  imports AddrRange
begin

text \<open>
  The address map of \<^verbatim>\<open>base/addr_range_map.hh\<close>. The \<^verbatim>\<open>std::map\<close> ordered by the less-than
  operator of ranges is the list of its entries in that order; an iterator is an index, and
  \<open>None\<close> is \<^verbatim>\<open>end()\<close>.
\<close>

type_synonym 'v range_map = "(addr_range \<times> 'v) list"

definition upper_bound :: "'v range_map \<Rightarrow> addr_range \<Rightarrow> nat" where
  "upper_bound tree r = length (takeWhile (\<lambda>e. \<not> range_less r (fst e)) tree)"

definition hit :: "'v range_map \<Rightarrow> addr_range \<Rightarrow> nat \<Rightarrow> nat option result" where
  "hit tree r i = ebind (ar_intersects (fst (tree ! i)) r) (\<lambda>b. Inr (if b then Some i else None))"

text \<open>The backward loop over the stripes of one chunk, with the check after the loop.\<close>

fun find_back :: "'v range_map \<Rightarrow> addr_range \<Rightarrow> addr_range \<Rightarrow> nat \<Rightarrow> nat option result" where
  "find_back tree r orig 0 = hit tree r 0"
| "find_back tree r orig (Suc i) =
     (if mergesWith (fst (tree ! Suc i)) orig then
        ebind (hit tree r i) (\<lambda>h. if h \<noteq> None then Inr h else find_back tree r orig i)
      else hit tree r (Suc i))"

definition arm_find :: "'v range_map \<Rightarrow> addr_range \<Rightarrow> nat option result" where
  "arm_find tree r =
     (if tree = [] then Inr None
      else let i = upper_bound tree r in
        if i = 0 then hit tree r 0
        else ebind (hit tree r (i - 1)) (\<lambda>h.
          if h \<noteq> None then Inr h
          else if interleaved (fst (tree ! (i - 1)))
            then find_back tree r (fst (tree ! (i - 1))) (i - 1)
            else Inr None))"

definition arm_find_addr :: "'v range_map \<Rightarrow> addr \<Rightarrow> nat option result" where
  "arm_find_addr tree a = arm_find tree (RangeSize a 1)"

definition arm_intersect :: "'v range_map \<Rightarrow> addr_range \<Rightarrow> bool result" where
  "arm_intersect tree r = ebind (arm_find tree r) (\<lambda>h. Inr (h \<noteq> None))"

text \<open>\<^verbatim>\<open>std::map::insert\<close>, which keeps an existing entry with an equivalent key.\<close>

fun map_insert :: "addr_range \<Rightarrow> 'v \<Rightarrow> 'v range_map \<Rightarrow> 'v range_map \<times> nat" where
  "map_insert r d [] = ([(r, d)], 0)"
| "map_insert r d (e # es) =
     (if range_less (fst e) r then (let (es', i) = map_insert r d es in (e # es', Suc i))
      else if range_less r (fst e) then ((r, d) # e # es, 0)
      else (e # es, 0))"

definition arm_insert :: "addr_range \<Rightarrow> 'v \<Rightarrow> 'v range_map \<Rightarrow> ('v range_map \<times> nat option) result" where
  "arm_insert r d tree =
     ebind (arm_intersect tree r) (\<lambda>b.
       if b then Inr (tree, None)
       else let (tree', i) = map_insert r d tree in Inr (tree', Some i))"

definition arm_erase :: "nat \<Rightarrow> 'v range_map \<Rightarrow> 'v range_map" where
  "arm_erase p tree = take p tree @ drop (Suc p) tree"

definition arm_erase_range :: "nat \<Rightarrow> nat \<Rightarrow> 'v range_map \<Rightarrow> 'v range_map" where
  "arm_erase_range p q tree = take p tree @ drop q tree"

definition arm_clear :: "'v range_map \<Rightarrow> 'v range_map" where
  "arm_clear tree = arm_erase_range 0 (length tree) tree"

subsection \<open>Well-formed maps\<close>

text \<open>An entry is well formed if a contiguous range has match 0 and the first address of an
  interleaved one belongs to stripe 0; two entries are separate if they do not overlap or are
  different stripes of one chunk.\<close>

definition entry_ok :: "addr_range \<Rightarrow> bool" where
  "entry_ok r \<longleftrightarrow> ar_valid r \<and>
     (if interleaved r then range_geom r \<and> stripe r (ar_start r) = 0 else intlvMatch r = 0)"

definition separate :: "addr_range \<Rightarrow> addr_range \<Rightarrow> bool" where
  "separate r r' \<longleftrightarrow> range_less r r' \<and>
     (ar_end r < ar_start r' \<or> mergesWith r r' \<and> interleaved r)"

definition tree_ok :: "'v range_map \<Rightarrow> bool" where
  "tree_ok tree \<longleftrightarrow> (\<forall>e \<in> set tree. entry_ok (fst e)) \<and>
     sorted_wrt (\<lambda>e e'. separate (fst e) (fst e')) tree"

lemma hit_point: "hit tree (RangeSize a 1) i = Inr (if ar_contains (fst (tree ! i)) a then Some i else None)"
  by (simp add: hit_def ar_intersects_point)

lemma find_back_point:
  assumes "j < i" "\<forall>l. j < l \<and> l \<le> i \<longrightarrow> mergesWith (fst (tree ! l)) orig" "ar_contains (fst (tree ! j)) a"
  shows "\<exists>k \<le> i. find_back tree (RangeSize a 1) orig i = Inr (Some k) \<and> ar_contains (fst (tree ! k)) a"
  using assms
proof (induction i)
  case (Suc i)
  then have m: "mergesWith (fst (tree ! Suc i)) orig" by auto
  show ?case
  proof (cases "ar_contains (fst (tree ! i)) a")
    case True
    then show ?thesis using m by (intro exI [of _ i]) (simp add: hit_point)
  next
    case False
    then have "j < i" using Suc.prems by (auto simp: less_Suc_eq)
    from Suc.IH [OF this] Suc.prems(2,3) obtain k where
      "k \<le> i" "find_back tree (RangeSize a 1) orig i = Inr (Some k)" "ar_contains (fst (tree ! k)) a" by auto
    then show ?thesis using m False by (intro exI [of _ k]) (simp add: hit_point)
  qed
qed simp

lemma find_back_sound:
  "\<exists>h. find_back tree (RangeSize a 1) orig i = Inr h \<and>
     (\<forall>k. h = Some k \<longrightarrow> k \<le> i \<and> ar_contains (fst (tree ! k)) a)"
proof (induction i)
  case (Suc i)
  then obtain h where h: "find_back tree (RangeSize a 1) orig i = Inr h"
    "\<forall>k. h = Some k \<longrightarrow> k \<le> i \<and> ar_contains (fst (tree ! k)) a" by blast
  show ?case
  proof (cases "mergesWith (fst (tree ! Suc i)) orig \<and> \<not> ar_contains (fst (tree ! i)) a")
    case True
    then show ?thesis using h by (intro exI [of _ h]) (auto simp: hit_point)
  qed (auto simp: hit_point)
qed (simp add: hit_point)

lemma tree_ok_nth:
  assumes "tree_ok tree" "i < j" "j < length tree"
  shows "separate (fst (tree ! i)) (fst (tree ! j))"
  using assms by (auto simp: tree_ok_def sorted_wrt_iff_nth_less)

lemma tree_ok_entry: "tree_ok tree \<Longrightarrow> i < length tree \<Longrightarrow> entry_ok (fst (tree ! i))"
  by (auto simp: tree_ok_def)

lemma upper_bound_le: "upper_bound tree r \<le> length tree"
  by (simp add: upper_bound_def length_takeWhile_le)

lemma upper_bound_below: "i < upper_bound tree r \<Longrightarrow> \<not> range_less r (fst (tree ! i))"
  unfolding upper_bound_def
  by (metis nth_mem set_takeWhileD takeWhile_nth)

lemma upper_bound_at:
  "upper_bound tree r < length tree \<Longrightarrow> range_less r (fst (tree ! upper_bound tree r))"
  unfolding upper_bound_def using nth_length_takeWhile by blast

lemma range_less_trans: "range_less a b \<Longrightarrow> range_less b c \<Longrightarrow> range_less a c"
  by (auto simp: range_less_def split: if_splits)

lemma upper_bound_above:
  assumes "tree_ok tree" "upper_bound tree r \<le> i" "i < length tree"
  shows "range_less r (fst (tree ! i))"
proof (cases "i = upper_bound tree r")
  case True
  then show ?thesis using upper_bound_at assms(3) by blast
next
  case False
  then have "range_less (fst (tree ! upper_bound tree r)) (fst (tree ! i))"
    using tree_ok_nth [OF assms(1), of "upper_bound tree r" i] assms(2,3) by (simp add: separate_def)
  then show ?thesis using upper_bound_at [of tree r] assms(2,3) range_less_trans by force
qed

text \<open>The entry of an address lies below the upper bound of the search.\<close>

lemma contains_below_upper:
  assumes "tree_ok tree" "j < length tree" "ar_contains (fst (tree ! j)) a"
  shows "j < upper_bound tree (RangeSize a 1)"
proof (rule ccontr)
  assume "\<not> j < upper_bound tree (RangeSize a 1)"
  then have less: "range_less (RangeSize a 1) (fst (tree ! j))"
    using upper_bound_above [OF assms(1) _ assms(2)] by simp
  let ?e = "fst (tree ! j)"
  have "ar_start ?e = a" "0 < intlvMatch ?e"
    using less assms(3) by (auto simp: range_less_def ar_contains_iff split: if_splits)
  moreover have "entry_ok ?e" using tree_ok_entry [OF assms(1,2)] .
  moreover have "(0 :: 64 word) = ucast (0 :: 8 word)" by simp
  ultimately show False using assms(3) ucast8_inj [of 0 "intlvMatch ?e"]
    by (auto simp: entry_ok_def ar_contains_iff split: if_splits)
qed

lemma arm_find_addr_correct:
  assumes "tree_ok tree"
  shows "if \<exists>j < length tree. ar_contains (fst (tree ! j)) a
    then \<exists>i < length tree. arm_find_addr tree a = Inr (Some i) \<and> ar_contains (fst (tree ! i)) a
    else arm_find_addr tree a = Inr None"
proof -
  let ?p = "RangeSize a 1" and ?u = "upper_bound tree (RangeSize a 1)"
  show ?thesis
  proof (cases "\<exists>j < length tree. ar_contains (fst (tree ! j)) a")
    case True
    then obtain j where j: "j < length tree" "ar_contains (fst (tree ! j)) a" by blast
    have ju: "j < ?u" "?u \<le> length tree" using contains_below_upper [OF assms j] upper_bound_le by auto
    let ?e = "fst (tree ! (?u - 1))"
    have "\<exists>i < length tree. arm_find tree ?p = Inr (Some i) \<and> ar_contains (fst (tree ! i)) a"
    proof (cases "ar_contains ?e a")
      case True
      then show ?thesis using ju by (intro exI [of _ "?u - 1"]) (auto simp: arm_find_def hit_point Let_def)
    next
      case False
      have merges: "mergesWith (fst (tree ! j)) (fst (tree ! l)) \<and> interleaved (fst (tree ! j))"
        if "j < l" "l < ?u" for l
      proof -
        have "ar_start (fst (tree ! l)) \<le> a"
          using upper_bound_below [OF that(2)] by (auto simp: range_less_def split: if_splits)
        moreover have "a \<le> ar_end (fst (tree ! j))" using j(2) by (simp add: ar_contains_iff)
        ultimately show ?thesis using tree_ok_nth [OF assms that(1)] that(2) ju(2)
          by (auto simp: separate_def)
      qed
      have jl: "j < ?u - 1" using False j(2) ju(1) by (cases "j = ?u - 1") auto
      then have "\<forall>l. j < l \<and> l \<le> ?u - 1 \<longrightarrow> mergesWith (fst (tree ! l)) ?e"
        using merges merges [of "?u - 1"] ju by (auto simp: mergesWith_def)
      from find_back_point [OF jl this j(2)] obtain k where
        "k \<le> ?u - 1" "find_back tree ?p ?e (?u - 1) = Inr (Some k)" "ar_contains (fst (tree ! k)) a" by blast
      moreover have "interleaved ?e"
        using merges [of "?u - 1"] jl by (auto simp: mergesWith_def interleaved_def)
      ultimately show ?thesis using False ju
        by (intro exI [of _ k]) (auto simp: arm_find_def hit_point Let_def)
    qed
    then show ?thesis using True by (simp add: arm_find_addr_def)
  next
    case False
    then have no: "\<not> ar_contains (fst (tree ! i)) a" if "i < length tree" for i using that by blast
    obtain h where h: "find_back tree ?p (fst (tree ! (?u - 1))) (?u - 1) = Inr h"
      "\<forall>k. h = Some k \<longrightarrow> k \<le> ?u - 1 \<and> ar_contains (fst (tree ! k)) a"
      using find_back_sound by blast
    have "tree \<noteq> [] \<Longrightarrow> ?u - 1 < length tree" using upper_bound_le [of tree ?p] by (cases tree) auto
    then have "tree \<noteq> [] \<Longrightarrow> h = None" using h(2) no by (cases h) fastforce+
    then have "arm_find tree ?p = Inr None"
      using h(1) no [of "?u - 1"] no [of 0] \<open>tree \<noteq> [] \<Longrightarrow> ?u - 1 < length tree\<close>
      by (auto simp: arm_find_def hit_point Let_def)
    then show ?thesis using False by (simp add: arm_find_addr_def)
  qed
qed

subsection \<open>Insertion\<close>

definition apart :: "addr_range \<Rightarrow> addr_range \<Rightarrow> bool" where
  "apart r r' \<longleftrightarrow> ar_end r < ar_start r' \<or> ar_end r' < ar_start r"

lemma hit_apart: "apart r (fst (tree ! i)) \<Longrightarrow> hit tree r i = Inr None"
  by (auto simp: hit_def ar_intersects_def apart_def)

lemma find_back_apart:
  "i < length tree \<Longrightarrow> \<forall>e \<in> set tree. apart r (fst e) \<Longrightarrow> find_back tree r orig i = Inr None"
  by (induction i) (auto simp: hit_apart)

lemma arm_find_apart:
  assumes "\<forall>e \<in> set tree. apart r (fst e)"
  shows "arm_find tree r = Inr None"
proof (cases "tree = []")
  case False
  then have "upper_bound tree r - 1 < length tree" "0 < length tree"
    using upper_bound_le [of tree r] by (cases tree; auto)+
  then show ?thesis using assms find_back_apart [of "upper_bound tree r - 1" tree r]
    by (auto simp: arm_find_def Let_def hit_apart)
qed (simp add: arm_find_def)

lemma apart_less:
  assumes "apart r r'" "ar_valid r" "ar_valid r'"
  shows "range_less r r' \<longleftrightarrow> ar_end r < ar_start r'" "range_less r' r \<longleftrightarrow> ar_end r' < ar_start r"
  using assms by (auto simp: apart_def range_less_def ar_valid_def)

lemma map_insert_ok:
  assumes "tree_ok tree" "entry_ok r" "\<forall>e \<in> set tree. apart r (fst e)"
  shows "tree_ok (fst (map_insert r d tree)) \<and> set (fst (map_insert r d tree)) = insert (r, d) (set tree) \<and>
    snd (map_insert r d tree) < length (fst (map_insert r d tree)) \<and>
    fst (map_insert r d tree) ! snd (map_insert r d tree) = (r, d)"
  using assms
proof (induction tree)
  case (Cons e es)
  have ok: "ar_valid r" "ar_valid (fst e)" "apart r (fst e)"
    using Cons.prems by (auto simp: tree_ok_def entry_ok_def)
  note less = apart_less [OF ok(3,1,2)]
  have es: "tree_ok es" "\<forall>x \<in> set es. separate (fst e) (fst x)" "entry_ok (fst e)"
    using Cons.prems(1) by (auto simp: tree_ok_def)
  show ?case
  proof (cases "range_less (fst e) r")
    case True
    then have "separate (fst e) r" using less by (simp add: separate_def)
    then show ?thesis using Cons.IH [OF es(1) Cons.prems(2)] Cons.prems(3) True es(2,3)
      by (auto simp: tree_ok_def split_def Let_def)
  next
    case False
    then have lt: "range_less r (fst e)" "ar_end r < ar_start (fst e)" using less ok(3) by (auto simp: apart_def)
    have "separate r (fst x)" if "x \<in> set (e # es)" for x
    proof -
      have "range_less r (fst x)" using lt(1) es(2) that range_less_trans by (auto simp: separate_def)
      moreover have "apart r (fst x)" "ar_valid (fst x)"
        using Cons.prems that by (auto simp: tree_ok_def entry_ok_def)
      ultimately show ?thesis using apart_less(1) ok(1) by (simp add: separate_def)
    qed
    then show ?thesis using False lt(1) Cons.prems(1,2) by (auto simp: tree_ok_def)
  qed
qed (auto simp: tree_ok_def)

lemma arm_insert_apart:
  assumes "tree_ok tree" "entry_ok r" "\<forall>e \<in> set tree. apart r (fst e)"
  shows "\<exists>tree' i. arm_insert r d tree = Inr (tree', Some i) \<and> tree_ok tree' \<and>
    set tree' = insert (r, d) (set tree) \<and> i < length tree' \<and> tree' ! i = (r, d)"
  using map_insert_ok [OF assms] arm_find_apart [OF assms(3)]
  by (auto simp: arm_insert_def arm_intersect_def split_def Let_def)

subsection \<open>Properties\<close>

text \<open>C14. Decoding an address is exact on every well-formed map, interleaved chunks included:
  the search never panics, returns an entry that contains the address if there is one, and
  otherwise the end of the map.\<close>

theorem find_addr_exact:
  assumes "tree_ok tree"
  shows "if \<exists>j < length tree. ar_contains (fst (tree ! j)) a
    then \<exists>i < length tree. arm_find_addr tree a = Inr (Some i) \<and> ar_contains (fst (tree ! i)) a
    else arm_find_addr tree a = Inr None"
  using assms by (rule arm_find_addr_correct)

definition demo_tree :: "nat range_map" where
  "demo_tree = [(demo_stripe 0, 0), (demo_stripe 1, 1), (plain_range 2048 4095, 2)]"

lemma demo_tree_ok: "tree_ok demo_tree"
  by (simp add: tree_ok_def demo_tree_def entry_ok_def separate_def demo_stripe_def plain_range_def
      interleaved_def range_geom_def hashed_def stripe_def bits_def bf_mask_def Let_def ar_valid_def
      range_less_def mergesWith_def)

theorem find_addr_exact_witness:
  "\<exists>i < length demo_tree. arm_find_addr demo_tree 200 = Inr (Some i) \<and>
     ar_contains (fst (demo_tree ! i)) 200"
proof -
  have "ar_contains (fst (demo_tree ! 1)) 200"
    by (simp add: ar_contains_def demo_tree_def demo_stripe_def interleaved_def hashed_def bits_def
        bf_mask_def Let_def)
  then have "\<exists>j < length demo_tree. ar_contains (fst (demo_tree ! j)) 200"
    by (intro exI [of _ 1]) (simp add: demo_tree_def)
  then show ?thesis using find_addr_exact [OF demo_tree_ok, of 200] by simp
qed

text \<open>C15. Inserting a range that overlaps no entry always succeeds, keeps the map well formed
  and adds exactly that entry; afterwards every address of the new range decodes to it.\<close>

theorem insert_then_find:
  assumes "tree_ok tree" "entry_ok r" "\<forall>e \<in> set tree. apart r (fst e)" "ar_contains r a"
  shows "\<exists>tree' i k. arm_insert r d tree = Inr (tree', Some i) \<and> tree_ok tree' \<and>
    set tree' = insert (r, d) (set tree) \<and> arm_find_addr tree' a = Inr (Some k) \<and> tree' ! k = (r, d)"
proof -
  from arm_insert_apart [OF assms(1-3)] obtain tree' i where
    ins: "arm_insert r d tree = Inr (tree', Some i)" "tree_ok tree'" "set tree' = insert (r, d) (set tree)"
      "i < length tree'" "tree' ! i = (r, d)" by blast
  have "\<exists>j < length tree'. ar_contains (fst (tree' ! j)) a" using ins(4,5) assms(4) by auto
  then obtain k where k: "k < length tree'" "arm_find_addr tree' a = Inr (Some k)"
    "ar_contains (fst (tree' ! k)) a" using arm_find_addr_correct [OF ins(2), of a] by (auto split: if_splits)
  have "tree' ! k \<in> insert (r, d) (set tree)" using k(1) ins(3) nth_mem by blast
  moreover have "tree' ! k \<notin> set tree"
    using k(3) assms(3,4) by (fastforce simp: apart_def ar_contains_iff)
  ultimately show ?thesis using ins k(2) by blast
qed

theorem insert_then_find_witness:
  "\<exists>tree' i k. arm_insert (plain_range 4096 8191) 3 demo_tree = Inr (tree', Some i) \<and>
     arm_find_addr tree' 5000 = Inr (Some k) \<and> tree' ! k = (plain_range 4096 8191, 3)"
proof -
  have "entry_ok (plain_range 4096 8191)" "ar_contains (plain_range 4096 8191) 5000"
    "\<forall>e \<in> set demo_tree. apart (plain_range 4096 8191) (fst e)"
    by (simp_all add: entry_ok_def plain_range_def interleaved_def ar_valid_def ar_contains_def
        demo_tree_def apart_def demo_stripe_def)
  then show ?thesis using insert_then_find [OF demo_tree_ok, of "plain_range 4096 8191" 5000 3] by blast
qed

text \<open>Two limits of the map. Insertion does not look at the entry after the new range: a range
  that overlaps only its successor is accepted, and an address is then in two entries of the map.
  And the search needs the first address of a chunk to lie in stripe 0: for a chunk that starts in
  stripe 1, the first address is not found although the entry of stripe 1 contains it.\<close>

lemma map_limits:
  "arm_insert (plain_range 15 25) 2 [(plain_range 0 9, 0 :: nat), (plain_range 20 29, 1)] =
     Inr ([(plain_range 0 9, 0), (plain_range 15 25, 2), (plain_range 20 29, 1)], Some 1) \<and>
   ar_contains (plain_range 15 25) 22 \<and> ar_contains (plain_range 20 29) 22 \<and>
   arm_find_addr [((demo_stripe 0)\<lparr>ar_start := 128\<rparr>, 0 :: nat), ((demo_stripe 1)\<lparr>ar_start := 128\<rparr>, 1)] 128
     = Inr None \<and>
   ar_contains ((demo_stripe 1)\<lparr>ar_start := 128\<rparr>) 128"
  by (simp add: arm_insert_def arm_intersect_def arm_find_def arm_find_addr_def upper_bound_def hit_def
      ar_intersects_def range_less_def plain_range_def interleaved_def ar_contains_def Let_def
      demo_stripe_def RangeSize_def hashed_def bits_def bf_mask_def ar_size_def)

end
