(* ===== verification/Request.thy ===== *)
theory Request
  imports Prelude
begin

text \<open>
  Memory requests of \<^verbatim>\<open>mem/request.hh\<close>: the fields, the validity flags that guard them, and the
  operations that set, read and split a request. The atomic operation is an opaque reference.
\<close>

subsection \<open>Flags\<close>

definition INST_FETCH :: "32 word" where "INST_FETCH = 0x00000100"
definition UNCACHEABLE :: "32 word" where "UNCACHEABLE = 0x00000400"
definition STRICT_ORDER :: "32 word" where "STRICT_ORDER = 0x00000800"
definition LOCKED_RMW :: "32 word" where "LOCKED_RMW = 0x00100000"
definition LLSC :: "32 word" where "LLSC = 0x00200000"
definition MEM_SWAP :: "32 word" where "MEM_SWAP = 0x00400000"
definition MEM_SWAP_COND :: "32 word" where "MEM_SWAP_COND = 0x00800000"
definition PREFETCH :: "32 word" where "PREFETCH = 0x01000000"
definition SECURE :: "32 word" where "SECURE = 0x10000000"
definition ATOMIC_RETURN_OP :: "32 word" where "ATOMIC_RETURN_OP = 0x40000000"
definition ATOMIC_NO_RETURN_OP :: "32 word" where "ATOMIC_NO_RETURN_OP = 0x80000000"
definition STICKY_FLAGS :: "32 word" where "STICKY_FLAGS = INST_FETCH"

definition VALID_SIZE :: "8 word" where "VALID_SIZE = 0x01"
definition VALID_PADDR :: "8 word" where "VALID_PADDR = 0x02"
definition VALID_VADDR :: "8 word" where "VALID_VADDR = 0x04"
definition VALID_INST_SEQ_NUM :: "8 word" where "VALID_INST_SEQ_NUM = 0x08"
definition VALID_PC :: "8 word" where "VALID_PC = 0x10"
definition VALID_CONTEXT_ID :: "8 word" where "VALID_CONTEXT_ID = 0x20"
definition VALID_EXTRA_DATA :: "8 word" where "VALID_EXTRA_DATA = 0x80"
definition STICKY_PRIVATE_FLAGS :: "8 word" where "STICKY_PRIVATE_FLAGS = VALID_CONTEXT_ID"

lemmas req_flag_consts = INST_FETCH_def UNCACHEABLE_def STRICT_ORDER_def LOCKED_RMW_def LLSC_def
  MEM_SWAP_def MEM_SWAP_COND_def PREFETCH_def SECURE_def ATOMIC_RETURN_OP_def
  ATOMIC_NO_RETURN_OP_def STICKY_FLAGS_def

lemmas req_valid_consts = VALID_SIZE_def VALID_PADDR_def VALID_VADDR_def VALID_INST_SEQ_NUM_def
  VALID_PC_def VALID_CONTEXT_ID_def VALID_EXTRA_DATA_def STICKY_PRIVATE_FLAGS_def

definition invldMasterId :: "16 word" where "invldMasterId = 0xffff"

definition unknownTaskId :: "32 word" where "unknownTaskId = 1024"

subsection \<open>The request\<close>

record request =
  rq_paddr :: addr
  rq_size :: "32 word"
  rq_masterId :: "16 word"
  rq_flags :: "32 word"
  rq_privateFlags :: "8 word"
  rq_time :: tick
  rq_taskId :: "32 word"
  rq_asid :: int
  rq_vaddr :: addr
  rq_extraData :: "64 word"
  rq_contextId :: int
  rq_pc :: addr
  rq_reqInstSeqNum :: "64 word"
  rq_atomicOp :: "nat option"
  rq_translateDelta :: tick
  rq_accessDelta :: tick
  rq_depth :: int

definition empty_request :: request where
  "empty_request = \<lparr>rq_paddr = 0, rq_size = 0, rq_masterId = invldMasterId, rq_flags = 0,
     rq_privateFlags = 0, rq_time = 0, rq_taskId = unknownTaskId, rq_asid = 0, rq_vaddr = 0,
     rq_extraData = 0, rq_contextId = 0, rq_pc = 0, rq_reqInstSeqNum = 0, rq_atomicOp = None,
     rq_translateDelta = 0, rq_accessDelta = 0, rq_depth = 0\<rparr>"

definition setPhys :: "addr \<Rightarrow> 32 word \<Rightarrow> 32 word \<Rightarrow> 16 word \<Rightarrow> tick \<Rightarrow> request \<Rightarrow> request" where
  "setPhys paddr sz fl mid tm r = r\<lparr>
     rq_paddr := paddr, rq_size := sz, rq_time := tm, rq_masterId := mid,
     rq_flags := flags_set (flags_clear (rq_flags r) (NOT STICKY_FLAGS)) fl,
     rq_privateFlags := flags_set (flags_clear (rq_privateFlags r) (NOT STICKY_PRIVATE_FLAGS))
       (VALID_PADDR OR VALID_SIZE),
     rq_depth := 0, rq_accessDelta := 0\<rparr>"

definition setContext :: "int \<Rightarrow> request \<Rightarrow> request" where
  "setContext cid r = r\<lparr>rq_contextId := cid,
     rq_privateFlags := flags_set (rq_privateFlags r) VALID_CONTEXT_ID\<rparr>"

definition setVirt :: "int \<Rightarrow> addr \<Rightarrow> 32 word \<Rightarrow> 32 word \<Rightarrow> 16 word \<Rightarrow> addr \<Rightarrow> tick \<Rightarrow> request \<Rightarrow> request" where
  "setVirt as vaddr sz fl mid pc now r = r\<lparr>
     rq_asid := as, rq_vaddr := vaddr, rq_size := sz, rq_masterId := mid, rq_pc := pc, rq_time := now,
     rq_flags := flags_set (flags_clear (rq_flags r) (NOT STICKY_FLAGS)) fl,
     rq_privateFlags := flags_set (flags_clear (rq_privateFlags r) (NOT STICKY_PRIVATE_FLAGS))
       (VALID_VADDR OR VALID_SIZE OR VALID_PC),
     rq_depth := 0, rq_accessDelta := 0, rq_translateDelta := 0\<rparr>"

definition new_request :: "addr \<Rightarrow> 32 word \<Rightarrow> 32 word \<Rightarrow> 16 word \<Rightarrow> tick \<Rightarrow> request" where
  "new_request paddr sz fl mid tm = setPhys paddr sz fl mid tm empty_request"

definition new_virt_request ::
  "int \<Rightarrow> addr \<Rightarrow> 32 word \<Rightarrow> 32 word \<Rightarrow> 16 word \<Rightarrow> addr \<Rightarrow> int \<Rightarrow> tick \<Rightarrow> request" where
  "new_virt_request as vaddr sz fl mid pc cid now =
     setContext cid (setVirt as vaddr sz fl mid pc now empty_request)"

definition setPaddr :: "addr \<Rightarrow> request \<Rightarrow> request" where
  "setPaddr paddr r = r\<lparr>rq_paddr := paddr, rq_privateFlags := flags_set (rq_privateFlags r) VALID_PADDR\<rparr>"

definition splitOnVaddr :: "addr \<Rightarrow> request \<Rightarrow> (request \<times> request) result" where
  "splitOnVaddr split_addr r =
     assert_that ''privateFlags.isSet(VALID_VADDR)'' (flags_isSet (rq_privateFlags r) VALID_VADDR)
     (assert_that ''privateFlags.noneSet(VALID_PADDR)'' (flags_noneSet (rq_privateFlags r) VALID_PADDR)
     (assert_that ''split_addr > _vaddr && split_addr < _vaddr + _size''
        (split_addr > rq_vaddr r \<and> split_addr < rq_vaddr r + ucast (rq_size r))
     (let req1 = r\<lparr>rq_size := ucast (split_addr - rq_vaddr r)\<rparr>;
          req2 = r\<lparr>rq_vaddr := split_addr, rq_size := rq_size r - rq_size req1\<rparr>
      in Inr (req1, req2))))"

definition hasPaddr :: "request \<Rightarrow> bool" where
  "hasPaddr r = flags_isSet (rq_privateFlags r) VALID_PADDR"

definition getPaddr :: "request \<Rightarrow> addr result" where
  "getPaddr r = assert_that ''VALID_PADDR'' (flags_isSet (rq_privateFlags r) VALID_PADDR) (Inr (rq_paddr r))"

definition hasSize :: "request \<Rightarrow> bool" where
  "hasSize r = flags_isSet (rq_privateFlags r) VALID_SIZE"

definition rq_getSize :: "request \<Rightarrow> 32 word result" where
  "rq_getSize r = assert_that ''VALID_SIZE'' (flags_isSet (rq_privateFlags r) VALID_SIZE) (Inr (rq_size r))"

definition getVaddr :: "request \<Rightarrow> addr result" where
  "getVaddr r = assert_that ''VALID_VADDR'' (flags_isSet (rq_privateFlags r) VALID_VADDR) (Inr (rq_vaddr r))"

definition rq_setFlags :: "32 word \<Rightarrow> request \<Rightarrow> request result" where
  "rq_setFlags fl r = assert_that ''VALID_PADDR|VALID_VADDR''
     (flags_isSet (rq_privateFlags r) (VALID_PADDR OR VALID_VADDR))
     (Inr (r\<lparr>rq_flags := flags_set (rq_flags r) fl\<rparr>))"

definition extraDataValid :: "request \<Rightarrow> bool" where
  "extraDataValid r = flags_isSet (rq_privateFlags r) VALID_EXTRA_DATA"

definition getExtraData :: "request \<Rightarrow> 64 word result" where
  "getExtraData r = assert_that ''VALID_EXTRA_DATA'' (flags_isSet (rq_privateFlags r) VALID_EXTRA_DATA)
     (Inr (rq_extraData r))"

definition setExtraData :: "64 word \<Rightarrow> request \<Rightarrow> request" where
  "setExtraData d r = r\<lparr>rq_extraData := d, rq_privateFlags := flags_set (rq_privateFlags r) VALID_EXTRA_DATA\<rparr>"

definition hasContextId :: "request \<Rightarrow> bool" where
  "hasContextId r = flags_isSet (rq_privateFlags r) VALID_CONTEXT_ID"

definition contextId :: "request \<Rightarrow> int result" where
  "contextId r = assert_that ''VALID_CONTEXT_ID'' (flags_isSet (rq_privateFlags r) VALID_CONTEXT_ID)
     (Inr (rq_contextId r))"

definition rq_isPrefetch :: "request \<Rightarrow> bool" where
  "rq_isPrefetch r = flags_isSet (rq_flags r) PREFETCH"

definition rq_isLLSC :: "request \<Rightarrow> bool" where
  "rq_isLLSC r = flags_isSet (rq_flags r) LLSC"

definition rq_isSwap :: "request \<Rightarrow> bool" where
  "rq_isSwap r = flags_isSet (rq_flags r) (MEM_SWAP OR MEM_SWAP_COND)"

definition rq_isCondSwap :: "request \<Rightarrow> bool" where
  "rq_isCondSwap r = flags_isSet (rq_flags r) MEM_SWAP_COND"

definition rq_isSecure :: "request \<Rightarrow> bool" where
  "rq_isSecure r = flags_isSet (rq_flags r) SECURE"

definition rq_isUncacheable :: "request \<Rightarrow> bool" where
  "rq_isUncacheable r = flags_isSet (rq_flags r) UNCACHEABLE"

definition rq_isAtomic :: "request \<Rightarrow> bool" where
  "rq_isAtomic r \<longleftrightarrow> flags_isSet (rq_flags r) ATOMIC_RETURN_OP \<or> flags_isSet (rq_flags r) ATOMIC_NO_RETURN_OP"

subsection \<open>Splitting\<close>

definition vbytes :: "request \<Rightarrow> nat set" where
  "vbytes r = {unat (rq_vaddr r) ..< unat (rq_vaddr r) + unat (rq_size r)}"

lemma splitOnVaddr_Inr:
  assumes "splitOnVaddr a r = Inr (r1, r2)" "unat (rq_vaddr r) + unat (rq_size r) < 2 ^ 64"
  shows "unat (rq_vaddr r) < unat a" "unat a < unat (rq_vaddr r) + unat (rq_size r)"
    "rq_vaddr r1 = rq_vaddr r" "unat (rq_size r1) = unat a - unat (rq_vaddr r)"
    "rq_vaddr r2 = a" "unat (rq_size r2) = unat (rq_vaddr r) + unat (rq_size r) - unat a"
proof -
  have sum: "unat (rq_vaddr r + ucast (rq_size r)) = unat (rq_vaddr r) + unat (rq_size r)"
    using assms(2) by (simp add: unat_plus_if' unsigned_ucast_eq take_bit_nat_eq_self)
  from assms(1) have b: "rq_vaddr r < a" "a < rq_vaddr r + ucast (rq_size r)"
    and r1: "r1 = r\<lparr>rq_size := ucast (a - rq_vaddr r)\<rparr>"
    and r2: "r2 = r\<lparr>rq_vaddr := a, rq_size := rq_size r - ucast (a - rq_vaddr r)\<rparr>"
    by (auto simp: splitOnVaddr_def Let_def result_iffs)
  show lo: "unat (rq_vaddr r) < unat a" using b(1) by (simp add: word_less_nat_alt)
  show hi: "unat a < unat (rq_vaddr r) + unat (rq_size r)" using b(2) sum by (simp add: word_less_nat_alt)
  have d: "unat (a - rq_vaddr r) = unat a - unat (rq_vaddr r)" using b(1) by (simp add: unat_sub less_imp_le)
  have lt: "unat (rq_size r) < 2 ^ 32" using unsigned_less [of "rq_size r", where 'a = nat] by simp
  have s1: "unat (ucast (a - rq_vaddr r) :: 32 word) = unat a - unat (rq_vaddr r)"
    using d lo hi lt by (simp add: unsigned_ucast_eq take_bit_nat_eq_self)
  then show "unat (rq_size r1) = unat a - unat (rq_vaddr r)" using r1 by simp
  have "(ucast (a - rq_vaddr r) :: 32 word) \<le> rq_size r" using s1 hi by (simp add: word_le_nat_alt)
  then show "unat (rq_size r2) = unat (rq_vaddr r) + unat (rq_size r) - unat a"
    using r2 s1 lo hi by (simp add: unat_sub)
  show "rq_vaddr r1 = rq_vaddr r" "rq_vaddr r2 = a" using r1 r2 by simp_all
qed

subsection \<open>Properties\<close>

text \<open>C30. Splitting a request on a virtual address partitions its bytes: both halves are
  non-empty, they do not overlap, and together they cover the request, with the sizes kept in
  their 32 bits, as long as the request does not wrap around the address space.\<close>

theorem split_partitions:
  assumes "splitOnVaddr a r = Inr (r1, r2)" "unat (rq_vaddr r) + unat (rq_size r) < 2 ^ 64"
  shows "vbytes r1 \<union> vbytes r2 = vbytes r \<and> vbytes r1 \<inter> vbytes r2 = {} \<and>
    vbytes r1 \<noteq> {} \<and> vbytes r2 \<noteq> {}"
  using splitOnVaddr_Inr [OF assms] by (auto simp: vbytes_def)

theorem split_partitions_witness:
  "\<exists>r1 r2. splitOnVaddr 0x1010 (new_virt_request 0 0x1000 0x40 0 0 0 0 0) = Inr (r1, r2) \<and>
    vbytes r1 \<union> vbytes r2 = vbytes (new_virt_request 0 0x1000 0x40 0 0 0 0 0)"
proof -
  let ?r = "new_virt_request 0 0x1000 0x40 0 0 0 0 0"
  have "\<exists>r1 r2. splitOnVaddr 0x1010 ?r = Inr (r1, r2)" and f: "rq_vaddr ?r = 0x1000" "rq_size ?r = 0x40"
    by (simp_all add: splitOnVaddr_def new_virt_request_def setVirt_def setContext_def empty_request_def
        flags_isSet_def flags_noneSet_def flags_set_def flags_clear_def req_valid_consts Let_def)
  then obtain r1 r2 where s: "splitOnVaddr 0x1010 ?r = Inr (r1, r2)" by blast
  show ?thesis using split_partitions [OF s] s f by auto
qed

end
