(* ===== verification/Packet.thy ===== *)
theory Packet
  imports Request
begin

text \<open>
  Memory commands and packets of \<^verbatim>\<open>mem/packet.{hh,cc}\<close>. The table of command attributes is a
  function by cases; a packet carries its payload by value, so that functional accesses return the
  changed packet and the changed bytes they were checked against.
\<close>

subsection \<open>Commands\<close>

datatype mem_cmd =
    InvalidCmd | ReadReq | ReadResp | ReadRespWithInvalidate | WriteReq | WriteResp
  | WritebackDirty | WritebackClean | CleanEvict | SoftPFReq | HardPFReq | SoftPFResp
  | HardPFResp | WriteLineReq | UpgradeReq | SCUpgradeReq | UpgradeResp | SCUpgradeFailReq
  | UpgradeFailResp | ReadExReq | ReadExResp | ReadCleanReq | ReadSharedReq | LoadLockedReq
  | StoreCondReq | StoreCondFailReq | StoreCondResp | SwapReq | SwapResp | MessageReq
  | MessageResp | MemFenceReq | MemFenceResp | InvalidDestError | BadAddressError
  | FunctionalReadError | FunctionalWriteError | PrintReq | FlushReq | InvalidateReq
  | InvalidateResp

datatype cmd_attribute =
    IsRead | IsWrite | IsUpgrade | IsInvalidate | NeedsWritable | IsRequest | IsResponse
  | NeedsResponse | IsEviction | IsSWPrefetch | IsHWPrefetch | IsLlsc | HasData | IsError
  | IsPrint | IsFlush | FromCache

datatype command_info = cmd_info (attributes: "cmd_attribute list") (response: mem_cmd) (cmd_str: string)

fun commandInfo :: "mem_cmd \<Rightarrow> command_info" where
  "commandInfo InvalidCmd = cmd_info [] InvalidCmd ''InvalidCmd''"
| "commandInfo ReadReq = cmd_info [IsRead, IsRequest, NeedsResponse] ReadResp ''ReadReq''"
| "commandInfo ReadResp = cmd_info [IsRead, IsResponse, HasData] InvalidCmd ''ReadResp''"
| "commandInfo ReadRespWithInvalidate = cmd_info [IsRead, IsResponse, HasData, IsInvalidate] InvalidCmd ''ReadRespWithInvalidate''"
| "commandInfo WriteReq = cmd_info [IsWrite, NeedsWritable, IsRequest, NeedsResponse, HasData] WriteResp ''WriteReq''"
| "commandInfo WriteResp = cmd_info [IsWrite, IsResponse] InvalidCmd ''WriteResp''"
| "commandInfo WritebackDirty = cmd_info [IsWrite, IsRequest, IsEviction, HasData, FromCache] InvalidCmd ''WritebackDirty''"
| "commandInfo WritebackClean = cmd_info [IsWrite, IsRequest, IsEviction, HasData, FromCache] InvalidCmd ''WritebackClean''"
| "commandInfo CleanEvict = cmd_info [IsRequest, IsEviction, FromCache] InvalidCmd ''CleanEvict''"
| "commandInfo SoftPFReq = cmd_info [IsRead, IsRequest, IsSWPrefetch, NeedsResponse] SoftPFResp ''SoftPFReq''"
| "commandInfo HardPFReq = cmd_info [IsRead, IsRequest, IsHWPrefetch, NeedsResponse, FromCache] HardPFResp ''HardPFReq''"
| "commandInfo SoftPFResp = cmd_info [IsRead, IsResponse, IsSWPrefetch, HasData] InvalidCmd ''SoftPFResp''"
| "commandInfo HardPFResp = cmd_info [IsRead, IsResponse, IsHWPrefetch, HasData] InvalidCmd ''HardPFResp''"
| "commandInfo WriteLineReq = cmd_info [IsWrite, NeedsWritable, IsRequest, NeedsResponse, HasData] WriteResp ''WriteLineReq''"
| "commandInfo UpgradeReq = cmd_info [IsInvalidate, NeedsWritable, IsUpgrade, IsRequest, NeedsResponse, FromCache] UpgradeResp ''UpgradeReq''"
| "commandInfo SCUpgradeReq = cmd_info [IsInvalidate, NeedsWritable, IsUpgrade, IsLlsc, IsRequest, NeedsResponse, FromCache] UpgradeResp ''SCUpgradeReq''"
| "commandInfo UpgradeResp = cmd_info [IsUpgrade, IsResponse] InvalidCmd ''UpgradeResp''"
| "commandInfo SCUpgradeFailReq = cmd_info [IsRead, NeedsWritable, IsInvalidate, IsLlsc, IsRequest, NeedsResponse, FromCache] UpgradeFailResp ''SCUpgradeFailReq''"
| "commandInfo UpgradeFailResp = cmd_info [IsRead, IsResponse, HasData] InvalidCmd ''UpgradeFailResp''"
| "commandInfo ReadExReq = cmd_info [IsRead, NeedsWritable, IsInvalidate, IsRequest, NeedsResponse, FromCache] ReadExResp ''ReadExReq''"
| "commandInfo ReadExResp = cmd_info [IsRead, IsResponse, HasData] InvalidCmd ''ReadExResp''"
| "commandInfo ReadCleanReq = cmd_info [IsRead, IsRequest, NeedsResponse, FromCache] ReadResp ''ReadCleanReq''"
| "commandInfo ReadSharedReq = cmd_info [IsRead, IsRequest, NeedsResponse, FromCache] ReadResp ''ReadSharedReq''"
| "commandInfo LoadLockedReq = cmd_info [IsRead, IsLlsc, IsRequest, NeedsResponse] ReadResp ''LoadLockedReq''"
| "commandInfo StoreCondReq = cmd_info [IsWrite, NeedsWritable, IsLlsc, IsRequest, NeedsResponse, HasData] StoreCondResp ''StoreCondReq''"
| "commandInfo StoreCondFailReq = cmd_info [IsWrite, NeedsWritable, IsLlsc, IsRequest, NeedsResponse, HasData] StoreCondResp ''StoreCondFailReq''"
| "commandInfo StoreCondResp = cmd_info [IsWrite, IsLlsc, IsResponse] InvalidCmd ''StoreCondResp''"
| "commandInfo SwapReq = cmd_info [IsRead, IsWrite, NeedsWritable, IsRequest, HasData, NeedsResponse] SwapResp ''SwapReq''"
| "commandInfo SwapResp = cmd_info [IsRead, IsWrite, IsResponse, HasData] InvalidCmd ''SwapResp''"
| "commandInfo MessageReq = cmd_info [IsWrite, IsRequest, NeedsResponse, HasData] MessageResp ''MessageReq''"
| "commandInfo MessageResp = cmd_info [IsWrite, IsResponse] InvalidCmd ''MessageResp''"
| "commandInfo MemFenceReq = cmd_info [IsRequest, NeedsResponse] MemFenceResp ''MemFenceReq''"
| "commandInfo MemFenceResp = cmd_info [IsResponse] InvalidCmd ''MemFenceResp''"
| "commandInfo InvalidDestError = cmd_info [IsResponse, IsError] InvalidCmd ''InvalidDestError''"
| "commandInfo BadAddressError = cmd_info [IsResponse, IsError] InvalidCmd ''BadAddressError''"
| "commandInfo FunctionalReadError = cmd_info [IsRead, IsResponse, IsError] InvalidCmd ''FunctionalReadError''"
| "commandInfo FunctionalWriteError = cmd_info [IsWrite, IsResponse, IsError] InvalidCmd ''FunctionalWriteError''"
| "commandInfo PrintReq = cmd_info [IsRequest, IsPrint] InvalidCmd ''PrintReq''"
| "commandInfo FlushReq = cmd_info [IsRequest, IsFlush, NeedsWritable] InvalidCmd ''FlushReq''"
| "commandInfo InvalidateReq = cmd_info [IsInvalidate, IsRequest, NeedsWritable, NeedsResponse, FromCache] InvalidateResp ''InvalidateReq''"
| "commandInfo InvalidateResp = cmd_info [IsInvalidate, IsResponse] InvalidCmd ''InvalidateResp''"

definition testCmdAttrib :: "mem_cmd \<Rightarrow> cmd_attribute \<Rightarrow> bool" where
  "testCmdAttrib c a \<longleftrightarrow> a \<in> set (attributes (commandInfo c))"

definition cmd_isRead :: "mem_cmd \<Rightarrow> bool" where "cmd_isRead c = testCmdAttrib c IsRead"
definition cmd_isWrite :: "mem_cmd \<Rightarrow> bool" where "cmd_isWrite c = testCmdAttrib c IsWrite"
definition cmd_isUpgrade :: "mem_cmd \<Rightarrow> bool" where "cmd_isUpgrade c = testCmdAttrib c IsUpgrade"
definition cmd_isRequest :: "mem_cmd \<Rightarrow> bool" where "cmd_isRequest c = testCmdAttrib c IsRequest"
definition cmd_isResponse :: "mem_cmd \<Rightarrow> bool" where "cmd_isResponse c = testCmdAttrib c IsResponse"
definition cmd_needsWritable :: "mem_cmd \<Rightarrow> bool" where "cmd_needsWritable c = testCmdAttrib c NeedsWritable"
definition cmd_needsResponse :: "mem_cmd \<Rightarrow> bool" where "cmd_needsResponse c = testCmdAttrib c NeedsResponse"
definition cmd_isInvalidate :: "mem_cmd \<Rightarrow> bool" where "cmd_isInvalidate c = testCmdAttrib c IsInvalidate"
definition cmd_isEviction :: "mem_cmd \<Rightarrow> bool" where "cmd_isEviction c = testCmdAttrib c IsEviction"
definition cmd_fromCache :: "mem_cmd \<Rightarrow> bool" where "cmd_fromCache c = testCmdAttrib c FromCache"
definition cmd_isWriteback :: "mem_cmd \<Rightarrow> bool" where
  "cmd_isWriteback c \<longleftrightarrow> testCmdAttrib c IsEviction \<and> testCmdAttrib c HasData"
definition cmd_hasData :: "mem_cmd \<Rightarrow> bool" where "cmd_hasData c = testCmdAttrib c HasData"
definition cmd_isLLSC :: "mem_cmd \<Rightarrow> bool" where "cmd_isLLSC c = testCmdAttrib c IsLlsc"
definition cmd_isPrefetch :: "mem_cmd \<Rightarrow> bool" where
  "cmd_isPrefetch c \<longleftrightarrow> testCmdAttrib c IsSWPrefetch \<or> testCmdAttrib c IsHWPrefetch"
definition cmd_isError :: "mem_cmd \<Rightarrow> bool" where "cmd_isError c = testCmdAttrib c IsError"
definition cmd_isPrint :: "mem_cmd \<Rightarrow> bool" where "cmd_isPrint c = testCmdAttrib c IsPrint"
definition cmd_isFlush :: "mem_cmd \<Rightarrow> bool" where "cmd_isFlush c = testCmdAttrib c IsFlush"

definition responseCommand :: "mem_cmd \<Rightarrow> mem_cmd" where
  "responseCommand c = response (commandInfo c)"

lemmas cmd_defs = testCmdAttrib_def cmd_isRead_def cmd_isWrite_def cmd_isUpgrade_def cmd_isRequest_def
  cmd_isResponse_def cmd_needsWritable_def cmd_needsResponse_def cmd_isInvalidate_def
  cmd_isEviction_def cmd_fromCache_def cmd_isWriteback_def cmd_hasData_def cmd_isLLSC_def
  cmd_isPrefetch_def cmd_isError_def cmd_isPrint_def cmd_isFlush_def responseCommand_def

subsection \<open>Packets\<close>

definition COPY_FLAGS :: "32 word" where "COPY_FLAGS = 0x0000000F"
definition HAS_SHARERS :: "32 word" where "HAS_SHARERS = 0x00000001"
definition EXPRESS_SNOOP :: "32 word" where "EXPRESS_SNOOP = 0x00000002"
definition RESPONDER_HAD_WRITABLE :: "32 word" where "RESPONDER_HAD_WRITABLE = 0x00000004"
definition CACHE_RESPONDING :: "32 word" where "CACHE_RESPONDING = 0x00000008"
definition PKT_VALID_ADDR :: "32 word" where "PKT_VALID_ADDR = 0x00000100"
definition PKT_VALID_SIZE :: "32 word" where "PKT_VALID_SIZE = 0x00000200"
definition STATIC_DATA :: "32 word" where "STATIC_DATA = 0x00001000"
definition DYNAMIC_DATA :: "32 word" where "DYNAMIC_DATA = 0x00002000"
definition SUPPRESS_FUNC_ERROR :: "32 word" where "SUPPRESS_FUNC_ERROR = 0x00008000"
definition BLOCK_CACHED :: "32 word" where "BLOCK_CACHED = 0x00010000"

lemmas pkt_flag_consts = COPY_FLAGS_def HAS_SHARERS_def EXPRESS_SNOOP_def RESPONDER_HAD_WRITABLE_def
  CACHE_RESPONDING_def PKT_VALID_ADDR_def PKT_VALID_SIZE_def STATIC_DATA_def DYNAMIC_DATA_def
  SUPPRESS_FUNC_ERROR_def BLOCK_CACHED_def

type_synonym byte = "8 word"

text \<open>The sender states, a linked stack in the source, are a list with the top first.\<close>

record packet =
  pk_flags :: "32 word"
  pk_cmd :: mem_cmd
  pk_req :: request
  pk_data :: "byte list option"
  pk_addr :: addr
  pk_isSecure :: bool
  pk_size :: "32 word"
  pk_bytesValid :: "bool list"
  pk_headerDelay :: "32 word"
  pk_snoopDelay :: "32 word"
  pk_payloadDelay :: "32 word"
  pk_senderState :: "nat list"

definition new_packet :: "request \<Rightarrow> mem_cmd \<Rightarrow> packet" where
  "new_packet rq c =
     (let p = \<lparr>pk_flags = 0, pk_cmd = c, pk_req = rq, pk_data = None, pk_addr = 0, pk_isSecure = False,
               pk_size = 0, pk_bytesValid = [], pk_headerDelay = 0, pk_snoopDelay = 0,
               pk_payloadDelay = 0, pk_senderState = []\<rparr>;
          p1 = (if hasPaddr rq
                then p\<lparr>pk_addr := rq_paddr rq, pk_flags := flags_set (pk_flags p) PKT_VALID_ADDR,
                       pk_isSecure := rq_isSecure rq\<rparr> else p)
      in if hasSize rq
         then p1\<lparr>pk_size := rq_size rq, pk_flags := flags_set (pk_flags p1) PKT_VALID_SIZE\<rparr> else p1)"

text \<open>The constructor that aligns the address to a block. The mask is built from an \<^verbatim>\<open>int\<close>, hence
  sign-extended.\<close>

definition new_packet_blk :: "request \<Rightarrow> mem_cmd \<Rightarrow> 32 word \<Rightarrow> packet" where
  "new_packet_blk rq c blkSize =
     (let p = \<lparr>pk_flags = 0, pk_cmd = c, pk_req = rq, pk_data = None, pk_addr = 0, pk_isSecure = False,
               pk_size = 0, pk_bytesValid = [], pk_headerDelay = 0, pk_snoopDelay = 0,
               pk_payloadDelay = 0, pk_senderState = []\<rparr>;
          p1 = (if hasPaddr rq
                then p\<lparr>pk_addr := rq_paddr rq AND scast (NOT (blkSize - 1)),
                       pk_flags := flags_set (pk_flags p) PKT_VALID_ADDR,
                       pk_isSecure := rq_isSecure rq\<rparr> else p)
      in p1\<lparr>pk_size := blkSize, pk_flags := flags_set (pk_flags p1) PKT_VALID_SIZE\<rparr>)"

definition hasRespData :: "packet \<Rightarrow> bool" where
  "hasRespData p = cmd_hasData (responseCommand (pk_cmd p))"

definition pk_needsWritable :: "packet \<Rightarrow> bool result" where
  "pk_needsWritable p = assert_that ''isRequest()'' (cmd_isRequest (pk_cmd p)) (Inr (cmd_needsWritable (pk_cmd p)))"

definition cacheResponding :: "packet \<Rightarrow> bool" where
  "cacheResponding p = flags_isSet (pk_flags p) CACHE_RESPONDING"

definition setCacheResponding :: "packet \<Rightarrow> packet result" where
  "setCacheResponding p =
     assert_that ''isRequest()'' (cmd_isRequest (pk_cmd p))
     (assert_that ''!flags.isSet(CACHE_RESPONDING)'' (\<not> flags_isSet (pk_flags p) CACHE_RESPONDING)
      (Inr (p\<lparr>pk_flags := flags_set (pk_flags p) CACHE_RESPONDING\<rparr>)))"

definition setHasSharers :: "packet \<Rightarrow> packet" where
  "setHasSharers p = p\<lparr>pk_flags := flags_set (pk_flags p) HAS_SHARERS\<rparr>"

definition hasSharers :: "packet \<Rightarrow> bool" where
  "hasSharers p = flags_isSet (pk_flags p) HAS_SHARERS"

definition setExpressSnoop :: "packet \<Rightarrow> packet" where
  "setExpressSnoop p = p\<lparr>pk_flags := flags_set (pk_flags p) EXPRESS_SNOOP\<rparr>"

definition isExpressSnoop :: "packet \<Rightarrow> bool" where
  "isExpressSnoop p = flags_isSet (pk_flags p) EXPRESS_SNOOP"

definition setResponderHadWritable :: "packet \<Rightarrow> packet result" where
  "setResponderHadWritable p = assert_that ''cacheResponding()'' (cacheResponding p)
     (Inr (p\<lparr>pk_flags := flags_set (pk_flags p) RESPONDER_HAD_WRITABLE\<rparr>))"

definition setBlockCached :: "packet \<Rightarrow> packet" where
  "setBlockCached p = p\<lparr>pk_flags := flags_set (pk_flags p) BLOCK_CACHED\<rparr>"

definition isBlockCached :: "packet \<Rightarrow> bool" where
  "isBlockCached p = flags_isSet (pk_flags p) BLOCK_CACHED"

definition clearBlockCached :: "packet \<Rightarrow> packet" where
  "clearBlockCached p = p\<lparr>pk_flags := flags_clear (pk_flags p) BLOCK_CACHED\<rparr>"

definition setBadAddress :: "packet \<Rightarrow> packet result" where
  "setBadAddress p = assert_that ''isResponse()'' (cmd_isResponse (pk_cmd p)) (Inr (p\<lparr>pk_cmd := BadAddressError\<rparr>))"

definition copyError :: "packet \<Rightarrow> packet \<Rightarrow> packet result" where
  "copyError other p = assert_that ''pkt->isError()'' (cmd_isError (pk_cmd other)) (Inr (p\<lparr>pk_cmd := pk_cmd other\<rparr>))"

definition getAddr :: "packet \<Rightarrow> addr result" where
  "getAddr p = assert_that ''VALID_ADDR'' (flags_isSet (pk_flags p) PKT_VALID_ADDR) (Inr (pk_addr p))"

definition setAddr :: "addr \<Rightarrow> packet \<Rightarrow> packet result" where
  "setAddr a p = assert_that ''VALID_ADDR'' (flags_isSet (pk_flags p) PKT_VALID_ADDR) (Inr (p\<lparr>pk_addr := a\<rparr>))"

definition getSize :: "packet \<Rightarrow> 32 word result" where
  "getSize p = assert_that ''VALID_SIZE'' (flags_isSet (pk_flags p) PKT_VALID_SIZE) (Inr (pk_size p))"

definition getOffset :: "32 word \<Rightarrow> packet \<Rightarrow> addr result" where
  "getOffset blk_size p = ebind (getAddr p) (\<lambda>a. Inr (a AND ucast (blk_size - 1)))"

definition getBlockAddr :: "32 word \<Rightarrow> packet \<Rightarrow> addr result" where
  "getBlockAddr blk_size p = ebind (getAddr p) (\<lambda>a. Inr (a AND NOT (ucast (blk_size - 1))))"

definition convertScToWrite :: "packet \<Rightarrow> packet result" where
  "convertScToWrite p =
     assert_that ''isLLSC()'' (cmd_isLLSC (pk_cmd p))
     (assert_that ''isWrite()'' (cmd_isWrite (pk_cmd p)) (Inr (p\<lparr>pk_cmd := WriteReq\<rparr>)))"

definition convertLlToRead :: "packet \<Rightarrow> packet result" where
  "convertLlToRead p =
     assert_that ''isLLSC()'' (cmd_isLLSC (pk_cmd p))
     (assert_that ''isRead()'' (cmd_isRead (pk_cmd p)) (Inr (p\<lparr>pk_cmd := ReadReq\<rparr>)))"

definition makeReadCmd :: "request \<Rightarrow> mem_cmd" where
  "makeReadCmd rq = (if rq_isLLSC rq then LoadLockedReq else if rq_isPrefetch rq then SoftPFReq else ReadReq)"

definition makeWriteCmd :: "request \<Rightarrow> mem_cmd" where
  "makeWriteCmd rq = (if rq_isLLSC rq then StoreCondReq else if rq_isSwap rq then SwapReq else WriteReq)"

definition createRead :: "request \<Rightarrow> packet" where
  "createRead rq = new_packet rq (makeReadCmd rq)"

definition createWrite :: "request \<Rightarrow> packet" where
  "createWrite rq = new_packet rq (makeWriteCmd rq)"

definition makeResponse :: "packet \<Rightarrow> packet result" where
  "makeResponse p =
     assert_that ''needsResponse()'' (cmd_needsResponse (pk_cmd p))
     (assert_that ''isRequest()'' (cmd_isRequest (pk_cmd p))
      (Inr (p\<lparr>pk_cmd := responseCommand (pk_cmd p), pk_flags := flags_clear (pk_flags p) EXPRESS_SNOOP\<rparr>)))"

definition setFunctionalResponseStatus :: "bool \<Rightarrow> packet \<Rightarrow> packet" where
  "setFunctionalResponseStatus success p =
     (if \<not> success then
        if cmd_isWrite (pk_cmd p) then p\<lparr>pk_cmd := FunctionalWriteError\<rparr>
        else p\<lparr>pk_cmd := FunctionalReadError\<rparr>
      else p)"

definition setSize :: "32 word \<Rightarrow> packet \<Rightarrow> packet result" where
  "setSize sz p = assert_that ''!VALID_SIZE'' (\<not> flags_isSet (pk_flags p) PKT_VALID_SIZE)
     (Inr (p\<lparr>pk_size := sz, pk_flags := flags_set (pk_flags p) PKT_VALID_SIZE\<rparr>))"

definition dataStatic :: "byte list \<Rightarrow> packet \<Rightarrow> packet result" where
  "dataStatic d p = assert_that ''noneSet(STATIC_DATA|DYNAMIC_DATA)''
     (flags_noneSet (pk_flags p) (STATIC_DATA OR DYNAMIC_DATA))
     (Inr (p\<lparr>pk_data := Some d, pk_flags := flags_set (pk_flags p) STATIC_DATA\<rparr>))"

definition dataDynamic :: "byte list \<Rightarrow> packet \<Rightarrow> packet result" where
  "dataDynamic d p = assert_that ''noneSet(STATIC_DATA|DYNAMIC_DATA)''
     (flags_noneSet (pk_flags p) (STATIC_DATA OR DYNAMIC_DATA))
     (Inr (p\<lparr>pk_data := Some d, pk_flags := flags_set (pk_flags p) DYNAMIC_DATA\<rparr>))"

definition getPtr :: "packet \<Rightarrow> byte list result" where
  "getPtr p = assert_that ''isSet(STATIC_DATA|DYNAMIC_DATA)''
     (flags_isSet (pk_flags p) (STATIC_DATA OR DYNAMIC_DATA))
     (case pk_data p of None \<Rightarrow> Inl NullDeref | Some d \<Rightarrow> Inr d)"

definition deleteData :: "packet \<Rightarrow> packet" where
  "deleteData p = p\<lparr>pk_flags := flags_clear (pk_flags p) (STATIC_DATA OR DYNAMIC_DATA), pk_data := None\<rparr>"

text \<open>The fresh memory that \<^verbatim>\<open>allocate\<close> returns is an argument of the model.\<close>

definition allocate :: "(nat \<Rightarrow> byte list) \<Rightarrow> packet \<Rightarrow> packet result" where
  "allocate fresh p =
     (if cmd_hasData (pk_cmd p) \<or> hasRespData p then
        assert_that ''noneSet(STATIC_DATA|DYNAMIC_DATA)''
          (flags_noneSet (pk_flags p) (STATIC_DATA OR DYNAMIC_DATA))
          (ebind (getSize p) (\<lambda>sz.
             Inr (p\<lparr>pk_flags := flags_set (pk_flags p) DYNAMIC_DATA, pk_data := Some (fresh (unat sz))\<rparr>)))
      else Inr p)"

definition copy_packet :: "(nat \<Rightarrow> byte list) \<Rightarrow> packet \<Rightarrow> bool \<Rightarrow> bool \<Rightarrow> packet result" where
  "copy_packet fresh p clear_flags alloc_data =
     (let q = p\<lparr>pk_flags := 0, pk_data := None, pk_snoopDelay := 0\<rparr>;
          q1 = (if \<not> clear_flags then q\<lparr>pk_flags := flags_set (pk_flags q) (pk_flags p AND COPY_FLAGS)\<rparr> else q);
          q2 = q1\<lparr>pk_flags := flags_set (pk_flags q1) (pk_flags p AND (PKT_VALID_ADDR OR PKT_VALID_SIZE))\<rparr>
      in if alloc_data then
           if flags_isSet (pk_flags p) STATIC_DATA
           then Inr (q2\<lparr>pk_data := pk_data p, pk_flags := flags_set (pk_flags q2) STATIC_DATA\<rparr>)
           else allocate fresh q2
         else Inr q2)"

definition mustCheckAbove :: "packet \<Rightarrow> bool" where
  "mustCheckAbove p \<longleftrightarrow> pk_cmd p = HardPFReq \<or> cmd_isEviction (pk_cmd p)"

definition isCleanEviction :: "packet \<Rightarrow> bool" where
  "isCleanEviction p \<longleftrightarrow> pk_cmd p = CleanEvict \<or> pk_cmd p = WritebackClean"

definition pushSenderState :: "nat \<Rightarrow> packet \<Rightarrow> packet" where
  "pushSenderState s p = p\<lparr>pk_senderState := s # pk_senderState p\<rparr>"

definition popSenderState :: "packet \<Rightarrow> (nat \<times> packet) result" where
  "popSenderState p =
     (case pk_senderState p of
        [] \<Rightarrow> Inl (AssertFail ''senderState != NULL'')
      | s # ss \<Rightarrow> Inr (s, p\<lparr>pk_senderState := ss\<rparr>))"

subsection \<open>Copying data and functional accesses\<close>

text \<open>\<^verbatim>\<open>memcpy\<close> between two distinct buffers; leaving one of them is undefined in the source and an
  error here. Offsets and lengths are \<^verbatim>\<open>int\<close> values.\<close>

definition memcpy :: "byte list \<Rightarrow> int \<Rightarrow> byte list \<Rightarrow> int \<Rightarrow> int \<Rightarrow> byte list result" where
  "memcpy dest doff src soff n =
     (if 0 \<le> doff \<and> 0 \<le> soff \<and> 0 \<le> n \<and> doff + n \<le> int (length dest) \<and> soff + n \<le> int (length src)
      then Inr (take (nat doff) dest @ take (nat n) (drop (nat soff) src) @ drop (nat doff + nat n) dest)
      else Inl OutOfRange)"

text \<open>Conversion of an address difference to \<^verbatim>\<open>int\<close>.\<close>

definition to_int :: "64 word \<Rightarrow> int" where
  "to_int w = sint (ucast w :: 32 word)"

definition setData :: "byte list \<Rightarrow> int \<Rightarrow> packet \<Rightarrow> packet result" where
  "setData src off p =
     ebind (getPtr p) (\<lambda>buf. ebind (getSize p) (\<lambda>sz.
     ebind (memcpy buf 0 src off (int (unat sz))) (\<lambda>buf'. Inr (p\<lparr>pk_data := Some buf'\<rparr>))))"

definition setDataFromBlock :: "byte list \<Rightarrow> 32 word \<Rightarrow> packet \<Rightarrow> packet result" where
  "setDataFromBlock blk blkSize p =
     ebind (getOffset blkSize p) (\<lambda>off. setData blk (int (unat off)) p)"

definition writeData :: "packet \<Rightarrow> byte list \<Rightarrow> int \<Rightarrow> byte list result" where
  "writeData p dest off =
     ebind (getPtr p) (\<lambda>buf. ebind (getSize p) (\<lambda>sz. memcpy dest off buf 0 (int (unat sz))))"

definition writeDataToBlock :: "packet \<Rightarrow> byte list \<Rightarrow> 32 word \<Rightarrow> byte list result" where
  "writeDataToBlock p blk blkSize =
     ebind (getOffset blkSize p) (\<lambda>off. writeData p blk (int (unat off)))"

text \<open>The offsets and the length that a partially overlapping functional read copies:
  position in the checked value, position in the packet, number of bytes.\<close>

definition read_overlap :: "addr \<Rightarrow> addr \<Rightarrow> addr \<Rightarrow> addr \<Rightarrow> nat \<Rightarrow> (int \<times> int \<times> int) result" where
  "read_overlap func_start func_end val_start val_end sz =
     (if val_start < func_start \<and> val_end \<le> func_end
      then Inr (to_int (func_start - val_start), 0, to_int (val_end - func_start))
      else if val_start \<ge> func_start \<and> val_end > func_end
      then Inr (0, to_int (val_start - func_start), to_int (func_end - val_start))
      else if val_start \<ge> func_start \<and> val_end \<le> func_end
      then Inr (0, to_int (val_start - func_start), int sz)
      else if val_start < func_start \<and> val_end > func_end
      then Inr (to_int (func_start - val_start), 0, to_int (func_end - func_start))
      else Inl (Panic ''Missed a case for checkFunctional''))"

definition mark_valid :: "int \<Rightarrow> int \<Rightarrow> bool list \<Rightarrow> bool list" where
  "mark_valid off n bv = map (\<lambda>(i, b). b \<or> off \<le> int i \<and> int i < off + n) (enumerate 0 bv)"

definition functional_read ::
  "packet \<Rightarrow> addr \<Rightarrow> addr \<Rightarrow> addr \<Rightarrow> addr \<Rightarrow> nat \<Rightarrow> byte list \<Rightarrow> (bool \<times> packet) result" where
  "functional_read p func_start func_end val_start val_end sz d =
     ebind (getPtr p) (\<lambda>buf. ebind (getSize p) (\<lambda>psize.
     if func_start \<ge> val_start \<and> func_end \<le> val_end then
       ebind (memcpy buf 0 d (to_int (func_start - val_start)) (int (unat psize))) (\<lambda>buf'.
         Inr (True, p\<lparr>pk_data := Some buf',
           pk_bytesValid := if pk_bytesValid p = [] then replicate (unat psize) True else pk_bytesValid p\<rparr>))
     else
       ebind (read_overlap func_start func_end val_start val_end sz) (\<lambda>(val_offset, func_offset, overlap_size).
       ebind (memcpy buf func_offset d val_offset overlap_size) (\<lambda>buf'.
         let bv = (if pk_bytesValid p = [] then replicate (unat psize) False else pk_bytesValid p);
             bv' = mark_valid func_offset overlap_size bv;
             all_valid = list_all id (take (nat func_offset) bv) \<and>
                         list_all id (drop (nat func_offset + nat overlap_size) bv')
         in Inr (all_valid, p\<lparr>pk_data := Some buf', pk_bytesValid := bv'\<rparr>)))))"

definition functional_write ::
  "packet \<Rightarrow> addr \<Rightarrow> addr \<Rightarrow> addr \<Rightarrow> addr \<Rightarrow> byte list \<Rightarrow> byte list result" where
  "functional_write p func_start func_end val_start val_end d =
     ebind (getPtr p) (\<lambda>buf.
       let offset = to_int (func_start - val_start) in
       if offset \<ge> 0
       then memcpy d offset buf 0 (int (unat ((min func_end val_end - func_start) + 1)))
       else memcpy d 0 buf (- offset) (int (unat ((min func_end val_end - val_start) + 1))))"

definition checkFunctional ::
  "packet \<Rightarrow> addr \<Rightarrow> bool \<Rightarrow> nat \<Rightarrow> byte list option \<Rightarrow> (bool \<times> packet \<times> byte list option) result" where
  "checkFunctional p addr is_secure sz data =
     ebind (getAddr p) (\<lambda>func_start. ebind (getSize p) (\<lambda>psize.
     let func_end = func_start + ucast psize - 1;
         val_start = addr;
         val_end = val_start + of_nat sz - 1
     in if is_secure \<noteq> pk_isSecure p \<or> func_start > val_end \<or> val_start > func_end
        then Inr (False, p, data)
        else if cmd_isPrint (pk_cmd p)
        then assert_that ''!_data'' (data = None) (Inr (False, p, data))
        else (case data of
          None \<Rightarrow> Inr (False, p, None)
        | Some d \<Rightarrow>
            if cmd_isRead (pk_cmd p) then
              ebind (functional_read p func_start func_end val_start val_end sz d) (\<lambda>(b, p').
                Inr (b, p', Some d))
            else if cmd_isWrite (pk_cmd p) then
              ebind (functional_write p func_start func_end val_start val_end d) (\<lambda>d'.
                Inr (False, p, Some d'))
            else Inl (Panic ''Don't know how to handle command''))))"

subsection \<open>Functional access lemmas\<close>

lemma to_int_eq: "to_int w = signed_take_bit 31 (uint w)"
  by (simp add: to_int_def sint_uint unsigned_ucast_eq signed_take_bit_take_bit)

lemma int32_range:
  "k < 2 ^ 31 \<Longrightarrow> signed_take_bit 31 (int k) = int k" "k \<le> 2 ^ 31 \<Longrightarrow> signed_take_bit 31 (- int k) = - int k"
  by (simp_all add: signed_take_bit_int_eq_self)

lemma to_int_small: "unat w < 2 ^ 31 \<Longrightarrow> to_int w = int (unat w)"
  unfolding to_int_eq uint_nat by (rule int32_range)

lemma to_int_neg: "unat w \<le> 2 ^ 31 \<Longrightarrow> to_int (- w) = - int (unat w)"
  using int32_range(2) [of "unat w"]
  by (simp add: to_int_eq uint_word_arith_bintrs(4) signed_take_bit_take_bit)

lemma memcpy_spec:
  assumes "D + N \<le> length dest" "S + N \<le> length src"
  shows "\<exists>r. memcpy dest (int D) src (int S) (int N) = Inr r \<and> length r = length dest \<and>
    (\<forall>i < length dest. r ! i = (if D \<le> i \<and> i < D + N then src ! (S + (i - D)) else dest ! i))"
proof -
  define r where "r = take D dest @ take N (drop S src) @ drop (D + N) dest"
  have m: "memcpy dest (int D) src (int S) (int N) = Inr r"
    using assms by (simp add: memcpy_def r_def flip: of_nat_add)
  have "r ! i = (if D \<le> i \<and> i < D + N then src ! (S + (i - D)) else dest ! i)" if "i < length dest" for i
  proof -
    consider "i < D" | "D \<le> i" "i < D + N" | "D + N \<le> i" by linarith
    then show ?thesis by cases (use assms that in \<open>auto simp: r_def nth_append\<close>)
  qed
  moreover have "length r = length dest" using assms by (simp add: r_def)
  ultimately show ?thesis using m by blast
qed

lemma memcpy_all:
  "length buf = m \<Longrightarrow> D + m \<le> length d \<Longrightarrow> memcpy buf 0 d (int D) (int m) = Inr (take m (drop D d))"
  by (simp add: memcpy_def flip: of_nat_add)

text \<open>A packet ready for a functional access, and a value it can be checked against.\<close>

definition pk_ready :: "packet \<Rightarrow> byte list \<Rightarrow> bool" where
  "pk_ready p buf \<longleftrightarrow> flags_isSet (pk_flags p) PKT_VALID_ADDR \<and> flags_isSet (pk_flags p) PKT_VALID_SIZE \<and>
     flags_isSet (pk_flags p) (STATIC_DATA OR DYNAMIC_DATA) \<and> pk_data p = Some buf \<and>
     length buf = unat (pk_size p) \<and> 0 < unat (pk_size p) \<and> unat (pk_size p) < 2 ^ 31 \<and>
     unat (pk_addr p) + unat (pk_size p) \<le> 2 ^ 64 \<and> \<not> cmd_isPrint (pk_cmd p)"

definition val_ready :: "addr \<Rightarrow> nat \<Rightarrow> byte list \<Rightarrow> bool" where
  "val_ready a sz d \<longleftrightarrow> 0 < sz \<and> sz < 2 ^ 31 \<and> unat a + sz \<le> 2 ^ 64 \<and> length d = sz"

definition overlap :: "packet \<Rightarrow> addr \<Rightarrow> nat \<Rightarrow> bool" where
  "overlap p a sz \<longleftrightarrow> unat (pk_addr p) < unat a + sz \<and> unat a < unat (pk_addr p) + unat (pk_size p)"

lemma unat_last:
  assumes "0 < n" "unat a + n \<le> 2 ^ 64"
  shows "unat (a + of_nat n - 1 :: 64 word) = unat a + n - 1"
proof -
  define w :: "64 word" where "w = of_nat (n - 1)"
  have "n - 1 < 2 ^ 64" using assms by linarith
  then have u: "unat w = n - 1" unfolding w_def unsigned_of_nat by (simp add: take_bit_nat_eq_self)
  have eq: "a + of_nat n - 1 = a + w" using assms(1) by (simp add: of_nat_diff w_def)
  have "unat a + unat w < 2 ^ 64" using assms u by linarith
  then show ?thesis using unat_add_lem [of a w] assms(1) u unfolding eq by simp
qed

lemma pk_ready_ends:
  assumes "pk_ready p buf"
  shows "unat (pk_addr p + ucast (pk_size p) - 1) = unat (pk_addr p) + unat (pk_size p) - 1"
  using unat_last [of "unat (pk_size p)" "pk_addr p"] assms by (auto simp: pk_ready_def)

lemma val_ready_ends: "val_ready a sz d \<Longrightarrow> unat (a + of_nat sz - 1) = unat a + sz - 1"
  using unat_last [of sz a] by (simp add: val_ready_def)

lemma unat_span:
  assumes "unat (b :: 64 word) + 1 \<le> 2 ^ 64" "unat a \<le> unat b"
  shows "unat (b - a) = unat b - unat a" "unat b - unat a < 2 ^ 32 \<Longrightarrow> unat (b - a + 1) = unat b - unat a + 1"
proof -
  show d: "unat (b - a) = unat b - unat a" using assms(2) by (simp add: unat_sub word_le_nat_alt)
  show "unat (b - a + 1) = unat b - unat a + 1" if "unat b - unat a < 2 ^ 32"
    using unat_add_lem [of "b - a" 1] d that by simp
qed

lemma functional_write_spec:
  assumes p: "pk_ready p buf" and v: "val_ready a sz d" and o: "overlap p a sz"
  shows "\<exists>d'. functional_write p (pk_addr p) (pk_addr p + ucast (pk_size p) - 1) a (a + of_nat sz - 1) d = Inr d' \<and>
    length d' = sz \<and> (\<forall>i < sz. d' ! i = (if unat (pk_addr p) \<le> unat a + i \<and>
      unat a + i < unat (pk_addr p) + unat (pk_size p) then buf ! (unat a + i - unat (pk_addr p)) else d ! i))"
proof -
  let ?F = "unat (pk_addr p)" and ?m = "unat (pk_size p)" and ?V = "unat a"
  let ?fe = "pk_addr p + ucast (pk_size p) - 1" and ?ve = "a + of_nat sz - 1"
  have fe: "unat ?fe = ?F + ?m - 1" and ve: "unat ?ve = ?V + sz - 1"
    using pk_ready_ends [OF p] val_ready_ends [OF v] by blast+
  have mi: "unat (min ?fe ?ve) = min (?F + ?m) (?V + sz) - 1"
    using fe ve by (auto simp: min_def word_le_nat_alt)
  have bnd: "0 < ?m" "?m < 2 ^ 31" "0 < sz" "sz < 2 ^ 31" "length buf = ?m" "length d = sz"
    "?F < ?V + sz" "?V < ?F + ?m"
    using p v o by (auto simp: pk_ready_def val_ready_def overlap_def)
  have pos: "0 < min (?F + ?m) (?V + sz)" using bnd by simp
  have ptr: "getPtr p = Inr buf" using p by (simp add: getPtr_def pk_ready_def)
  have lt: "unat (min ?fe ?ve) + 1 \<le> 2 ^ 64" using unat_lt64 [of "min ?fe ?ve"] by linarith
  show ?thesis
  proof (cases "?V \<le> ?F")
    case True
    define L where "L = min (?F + ?m) (?V + sz) - ?F"
    have "unat (pk_addr p - a) = ?F - ?V" using True by (simp add: unat_sub word_le_nat_alt)
    then have off: "to_int (pk_addr p - a) = int (?F - ?V)" using bnd by (simp add: to_int_small)
    have s: "?F \<le> unat (min ?fe ?ve)" "unat (min ?fe ?ve) - ?F < 2 ^ 32" using mi bnd True by auto
    then have len: "unat (min ?fe ?ve - pk_addr p + 1) = L"
      using unat_span(2) [OF lt s] mi pos unfolding L_def by linarith
    have "functional_write p (pk_addr p) ?fe a ?ve d = memcpy d (int (?F - ?V)) buf 0 (int L)"
      unfolding functional_write_def ptr using off len by simp
    moreover have "?F - ?V + L \<le> length d" "0 + L \<le> length buf" using bnd True by (auto simp: L_def)
    then obtain d' where "memcpy d (int (?F - ?V)) buf 0 (int L) = Inr d'" "length d' = sz"
      "\<forall>i < sz. d' ! i = (if ?F - ?V \<le> i \<and> i < ?F - ?V + L then buf ! (i - (?F - ?V)) else d ! i)"
      using memcpy_spec [of "?F - ?V" L d 0 buf] bnd by auto
    moreover have "?F - ?V \<le> i \<and> i < ?F - ?V + L \<longleftrightarrow> ?F \<le> ?V + i \<and> ?V + i < ?F + ?m" if "i < sz" for i
      using True that by (auto simp: L_def)
    moreover have "i - (?F - ?V) = ?V + i - ?F" for i using True by simp
    ultimately show ?thesis by (intro exI [of _ d']) simp
  next
    case False
    define L where "L = min (?F + ?m) (?V + sz) - ?V"
    have "unat (a - pk_addr p) = ?V - ?F" using False by (simp add: unat_sub word_le_nat_alt)
    then have "to_int (- (a - pk_addr p)) = - int (?V - ?F)" using bnd by (intro trans [OF to_int_neg]) simp_all
    then obtain D where D: "D = ?V - ?F" "to_int (pk_addr p - a) = - int D" "0 < D" using False by simp
    have s: "?V \<le> unat (min ?fe ?ve)" "unat (min ?fe ?ve) - ?V < 2 ^ 32" using mi bnd False by auto
    then have len: "unat (min ?fe ?ve - a + 1) = L"
      using unat_span(2) [OF lt s] mi pos unfolding L_def by linarith
    have "functional_write p (pk_addr p) ?fe a ?ve d = memcpy d 0 buf (int (?V - ?F)) (int L)"
      unfolding functional_write_def ptr D(1) [symmetric] using D(2,3) len by (simp add: Let_def)
    moreover have "0 + L \<le> length d" "?V - ?F + L \<le> length buf" using bnd False by (auto simp: L_def)
    then obtain d' where "memcpy d 0 buf (int (?V - ?F)) (int L) = Inr d'" "length d' = sz"
      "\<forall>i < sz. d' ! i = (if i < L then buf ! (?V - ?F + i) else d ! i)"
      using memcpy_spec [of 0 L d "?V - ?F" buf] bnd by auto
    moreover have "i < L \<longleftrightarrow> ?F \<le> ?V + i \<and> ?V + i < ?F + ?m" if "i < sz" for i
      using False that by (auto simp: L_def)
    moreover have "?V - ?F + i = ?V + i - ?F" for i using False by simp
    ultimately show ?thesis by (intro exI [of _ d']) simp
  qed
qed

lemma no_overlap_iff:
  assumes "pk_ready p buf" "val_ready a sz d"
  shows "(pk_addr p > a + of_nat sz - 1 \<or> a > pk_addr p + ucast (pk_size p) - 1) \<longleftrightarrow> \<not> overlap p a sz"
proof -
  have "0 < sz" "0 < unat (pk_size p)" using assms by (auto simp: pk_ready_def val_ready_def)
  then show ?thesis
    unfolding word_less_nat_alt pk_ready_ends [OF assms(1)] val_ready_ends [OF assms(2)] overlap_def by linarith
qed

lemma functional_read_full:
  assumes p: "pk_ready p buf" and v: "val_ready a sz d"
    and f: "unat a \<le> unat (pk_addr p)" "unat (pk_addr p) + unat (pk_size p) \<le> unat a + sz"
  shows "\<exists>p' buf'. functional_read p (pk_addr p) (pk_addr p + ucast (pk_size p) - 1) a (a + of_nat sz - 1) sz d =
      Inr (True, p') \<and> pk_data p' = Some buf' \<and>
      buf' = take (unat (pk_size p)) (drop (unat (pk_addr p) - unat a) d) \<and>
      p' = p\<lparr>pk_data := pk_data p', pk_bytesValid := pk_bytesValid p'\<rparr>"
proof -
  let ?D = "unat (pk_addr p) - unat a" and ?m = "unat (pk_size p)"
  have b: "0 < ?m" "sz < 2 ^ 31" "length buf = ?m" "length d = sz" "pk_data p = Some buf"
    using p v by (auto simp: pk_ready_def val_ready_def)
  have in_val: "a \<le> pk_addr p" "pk_addr p + ucast (pk_size p) - 1 \<le> a + of_nat sz - 1"
    unfolding word_le_nat_alt pk_ready_ends [OF p] val_ready_ends [OF v] using f by linarith+
  have off: "to_int (pk_addr p - a) = int ?D"
  proof -
    have "unat (pk_addr p - a) = ?D" using in_val(1) by (simp add: unat_sub)
    then show ?thesis using b f by (simp add: to_int_small)
  qed
  have "memcpy buf 0 d (int ?D) (int ?m) = Inr (take ?m (drop ?D d))"
    using b f by (intro memcpy_all) auto
  then show ?thesis
    using p in_val off b unfolding functional_read_def
    by (simp add: getPtr_def getSize_def pk_ready_def)
qed

subsection \<open>Properties\<close>

lemma response_table:
  "cmd_needsResponse c \<Longrightarrow> cmd_isRequest c \<and> cmd_isResponse (responseCommand c) \<and>
     \<not> cmd_isRequest (responseCommand c) \<and> \<not> cmd_needsResponse (responseCommand c) \<and>
     (cmd_isRead c \<longrightarrow> cmd_isRead (responseCommand c) \<and> cmd_hasData (responseCommand c)) \<and>
     (cmd_isWrite c \<longrightarrow> cmd_isWrite (responseCommand c))"
  by (cases c) (simp_all add: cmd_defs)

text \<open>C21. Turning a request into a response follows the command table: it succeeds for exactly
  the commands that need a response, and gives a response, of the same direction and with data for
  a read, that needs no further response and is never an express snoop.\<close>

theorem makeResponse_exact:
  "if cmd_needsResponse (pk_cmd p)
   then \<exists>p'. makeResponse p = Inr p' \<and> cmd_isResponse (pk_cmd p') \<and> \<not> cmd_isRequest (pk_cmd p') \<and>
     \<not> cmd_needsResponse (pk_cmd p') \<and> (cmd_isRead (pk_cmd p) \<longrightarrow> cmd_isRead (pk_cmd p') \<and> cmd_hasData (pk_cmd p')) \<and>
     (cmd_isWrite (pk_cmd p) \<longrightarrow> cmd_isWrite (pk_cmd p')) \<and> \<not> isExpressSnoop p' \<and>
     pk_addr p' = pk_addr p \<and> pk_size p' = pk_size p
   else \<exists>m. makeResponse p = Inl (AssertFail m)"
  using response_table [of "pk_cmd p"]
  by (auto simp: makeResponse_def assert_that_def isExpressSnoop_def)

theorem makeResponse_exact_witness:
  "\<exists>p'. makeResponse (new_packet empty_request ReadExReq) = Inr p' \<and> cmd_hasData (pk_cmd p')"
  using makeResponse_exact [of "new_packet empty_request ReadExReq"]
  by (auto simp: new_packet_def cmd_defs hasPaddr_def hasSize_def empty_request_def flags_isSet_def)

text \<open>C22. A functional write that meets a value, wherever the two overlap, replaces exactly the
  overlapping bytes of the value by the bytes of the packet, leaves the others and lets the request
  go on.\<close>

theorem functional_write_exact:
  assumes "pk_ready p buf" "val_ready a sz d" "overlap p a sz" "is_secure = pk_isSecure p"
    "cmd_isWrite (pk_cmd p)" "\<not> cmd_isRead (pk_cmd p)"
  shows "\<exists>d'. checkFunctional p a is_secure sz (Some d) = Inr (False, p, Some d') \<and> length d' = sz \<and>
    (\<forall>i < sz. d' ! i = (if unat (pk_addr p) \<le> unat a + i \<and> unat a + i < unat (pk_addr p) + unat (pk_size p)
      then buf ! (unat a + i - unat (pk_addr p)) else d ! i))"
proof -
  have s: "getAddr p = Inr (pk_addr p)" "getSize p = Inr (pk_size p)" "\<not> cmd_isPrint (pk_cmd p)"
    using assms(1) by (auto simp: pk_ready_def getAddr_def getSize_def)
  show ?thesis
    using functional_write_spec [OF assms(1-3)] no_overlap_iff [OF assms(1,2)] assms(3-6) s
    by (auto simp: checkFunctional_def Let_def)
qed

definition demo_packet :: "mem_cmd \<Rightarrow> addr \<Rightarrow> byte list \<Rightarrow> packet" where
  "demo_packet c a d = (new_packet empty_request c)\<lparr>pk_flags := 0x1300, pk_addr := a,
     pk_size := of_nat (length d), pk_data := Some d\<rparr>"

theorem functional_write_exact_witness:
  "\<exists>d'. checkFunctional (demo_packet WriteReq 4 [40, 50, 60, 70]) 0 False 6 (Some [0, 1, 2, 3, 4, 5]) =
     Inr (False, demo_packet WriteReq 4 [40, 50, 60, 70], Some d') \<and> d' ! 3 = 3 \<and> d' ! 5 = 50"
proof -
  let ?p = "demo_packet WriteReq 4 [40, 50, 60, 70]" and ?d = "[0, 1, 2, 3, 4, 5] :: byte list"
  have "pk_ready ?p [40, 50, 60, 70]" "val_ready 0 6 ?d" "overlap ?p 0 6" "False = pk_isSecure ?p"
    "cmd_isWrite (pk_cmd ?p)" "\<not> cmd_isRead (pk_cmd ?p)" and a: "unat (pk_addr ?p) = 4" "unat (pk_size ?p) = 4"
    by (simp_all add: pk_ready_def demo_packet_def new_packet_def flags_isSet_def pkt_flag_consts val_ready_def
        overlap_def cmd_defs hasPaddr_def hasSize_def empty_request_def)
  from functional_write_exact [OF this(1-6)] obtain d' where
    "checkFunctional ?p 0 False 6 (Some ?d) = Inr (False, ?p, Some d')"
    "\<forall>i < 6. d' ! i = (if 4 \<le> i \<and> i < 8 then [40, 50, 60, 70] ! (i - 4) else ?d ! i)"
    unfolding a by auto
  then show ?thesis by (intro exI [of _ d']) simp
qed

text \<open>C23. A functional read that lies completely within a value is satisfied by it: the packet
  gets exactly the bytes of the value at its addresses and the request is done.\<close>

theorem functional_read_exact:
  assumes "pk_ready p buf" "val_ready a sz d" "is_secure = pk_isSecure p" "cmd_isRead (pk_cmd p)"
    "unat a \<le> unat (pk_addr p)" "unat (pk_addr p) + unat (pk_size p) \<le> unat a + sz"
  shows "\<exists>p'. checkFunctional p a is_secure sz (Some d) = Inr (True, p', Some d) \<and>
    pk_data p' = Some (take (unat (pk_size p)) (drop (unat (pk_addr p) - unat a) d))"
proof -
  have s: "getAddr p = Inr (pk_addr p)" "getSize p = Inr (pk_size p)" "\<not> cmd_isPrint (pk_cmd p)"
    "0 < unat (pk_size p)"
    using assms(1) by (auto simp: pk_ready_def getAddr_def getSize_def)
  then have "overlap p a sz" using assms(5,6) by (simp add: overlap_def)
  then show ?thesis
    using functional_read_full [OF assms(1,2,5,6)] no_overlap_iff [OF assms(1,2)] assms(3,4) s
    by (auto simp: checkFunctional_def Let_def)
qed

theorem functional_read_exact_witness:
  "\<exists>p'. checkFunctional (demo_packet ReadReq 2 [0, 0]) 0 False 6 (Some [10, 11, 12, 13, 14, 15]) =
     Inr (True, p', Some [10, 11, 12, 13, 14, 15]) \<and> pk_data p' = Some [12, 13]"
proof -
  let ?p = "demo_packet ReadReq 2 [0, 0]" and ?d = "[10, 11, 12, 13, 14, 15] :: byte list"
  have "pk_ready ?p [0, 0]" "val_ready 0 6 ?d" "False = pk_isSecure ?p" "cmd_isRead (pk_cmd ?p)"
    "unat (0 :: addr) \<le> unat (pk_addr ?p)" "unat (pk_addr ?p) + unat (pk_size ?p) \<le> unat (0 :: addr) + 6"
    and a: "unat (pk_addr ?p) = 2" "unat (pk_size ?p) = 2"
    by (simp_all add: pk_ready_def demo_packet_def new_packet_def flags_isSet_def pkt_flag_consts val_ready_def
        cmd_defs hasPaddr_def hasSize_def empty_request_def)
  from functional_read_exact [OF this(1-6)] show ?thesis unfolding a by auto
qed


end
