(* ===== verification/CacheBlk.thy ===== *)
theory CacheBlk
  imports Packet
begin

text \<open>
  Cache blocks of \<^verbatim>\<open>mem/cache/blk.hh\<close>: the status bits with their permissions, and the list of
  locks with which a block implements load-locked and store-conditional accesses.
\<close>

definition BlkValid :: "32 word" where "BlkValid = 0x01"
definition BlkWritable :: "32 word" where "BlkWritable = 0x02"
definition BlkReadable :: "32 word" where "BlkReadable = 0x04"
definition BlkDirty :: "32 word" where "BlkDirty = 0x08"
definition BlkHWPrefetched :: "32 word" where "BlkHWPrefetched = 0x20"
definition BlkSecure :: "32 word" where "BlkSecure = 0x40"

lemmas blk_status_bits = BlkValid_def BlkWritable_def BlkReadable_def BlkDirty_def BlkHWPrefetched_def
  BlkSecure_def

record lock =
  lk_contextId :: int
  lowAddr :: addr
  highAddr :: addr

record cache_blk =
  task_id :: "32 word"
  asid :: int
  blk_tag :: addr
  blk_data :: nat              \<comment> \<open>offset of the block's bytes in the data array\<close>
  blk_size :: "32 word"
  status :: "32 word"
  whenReady :: tick
  blk_set :: int
  way :: int
  isTouched :: bool
  refCount :: "32 word"
  srcMasterId :: "16 word"
  tickInserted :: tick
  lockList :: "lock list"

definition new_blk :: cache_blk where
  "new_blk = \<lparr>task_id = unknownTaskId, asid = - 1, blk_tag = 0, blk_data = 0, blk_size = 0, status = 0,
     whenReady = 0, blk_set = - 1, way = - 1, isTouched = False, refCount = 0,
     srcMasterId = invldMasterId, tickInserted = 0, lockList = []\<rparr>"

definition isWritable :: "cache_blk \<Rightarrow> bool" where
  "isWritable b \<longleftrightarrow> status b AND (BlkWritable OR BlkValid) = BlkWritable OR BlkValid"

definition isReadable :: "cache_blk \<Rightarrow> bool" where
  "isReadable b \<longleftrightarrow> status b AND (BlkReadable OR BlkValid) = BlkReadable OR BlkValid"

definition blk_isValid :: "cache_blk \<Rightarrow> bool" where
  "blk_isValid b \<longleftrightarrow> status b AND BlkValid \<noteq> 0"

definition blk_invalidate :: "cache_blk \<Rightarrow> cache_blk" where
  "blk_invalidate b = b\<lparr>status := 0, isTouched := False, lockList := []\<rparr>"

definition isDirty :: "cache_blk \<Rightarrow> bool" where
  "isDirty b \<longleftrightarrow> status b AND BlkDirty \<noteq> 0"

definition wasPrefetched :: "cache_blk \<Rightarrow> bool" where
  "wasPrefetched b \<longleftrightarrow> status b AND BlkHWPrefetched \<noteq> 0"

definition blk_isSecure :: "cache_blk \<Rightarrow> bool" where
  "blk_isSecure b \<longleftrightarrow> status b AND BlkSecure \<noteq> 0"

text \<open>The letter that \<^verbatim>\<open>print\<close> shows for the coherence state.\<close>

definition moesi :: "cache_blk \<Rightarrow> char" where
  "moesi b =
     (case (isWritable b, isDirty b, blk_isValid b) of
        (True, True, True) \<Rightarrow> CHR ''M''
      | (False, True, True) \<Rightarrow> CHR ''O''
      | (True, False, True) \<Rightarrow> CHR ''E''
      | (False, False, True) \<Rightarrow> CHR ''S''
      | (False, False, False) \<Rightarrow> CHR ''I''
      | _ \<Rightarrow> CHR ''T'')"

subsection \<open>Locks\<close>

definition lock_matches :: "request \<Rightarrow> lock \<Rightarrow> bool result" where
  "lock_matches r l =
     ebind (getPaddr r) (\<lambda>req_low. ebind (rq_getSize r) (\<lambda>sz.
     let req_high = req_low + ucast sz - 1 in
     ebind (contextId r) (\<lambda>c.
       Inr (lk_contextId l = c \<and> req_low \<ge> lowAddr l \<and> req_high \<le> highAddr l))))"

definition lock_intersects :: "request \<Rightarrow> lock \<Rightarrow> bool result" where
  "lock_intersects r l =
     ebind (getPaddr r) (\<lambda>req_low. ebind (rq_getSize r) (\<lambda>sz.
     let req_high = req_low + ucast sz - 1 in
       Inr (req_low \<le> highAddr l \<and> req_high \<ge> lowAddr l)))"

definition new_lock :: "request \<Rightarrow> lock result" where
  "new_lock r =
     ebind (contextId r) (\<lambda>c. ebind (getPaddr r) (\<lambda>lo. ebind (rq_getSize r) (\<lambda>sz.
       Inr \<lparr>lk_contextId = c, lowAddr = lo, highAddr = lo + ucast sz - 1\<rparr>)))"

definition trackLoadLocked :: "packet \<Rightarrow> cache_blk \<Rightarrow> cache_blk result" where
  "trackLoadLocked p b =
     assert_that ''pkt->isLLSC()'' (cmd_isLLSC (pk_cmd p))
     (ebind (filterE (\<lambda>l. ebind (lock_intersects (pk_req p) l) (\<lambda>x. Inr (\<not> x))) (lockList b)) (\<lambda>ls.
      ebind (new_lock (pk_req p)) (\<lambda>l. Inr (b\<lparr>lockList := l # ls\<rparr>))))"

definition clearLoadLocks :: "request \<Rightarrow> cache_blk \<Rightarrow> cache_blk result" where
  "clearLoadLocks r b =
     ebind (filterE (\<lambda>l. ebind (lock_intersects r l) (\<lambda>x.
              if x then ebind (contextId r) (\<lambda>c. Inr (\<not> lk_contextId l \<noteq> c)) else Inr True)) (lockList b))
       (\<lambda>ls. Inr (b\<lparr>lockList := ls\<rparr>))"

text \<open>The search for a matching lock, which erases it.\<close>

fun take_lock :: "request \<Rightarrow> lock list \<Rightarrow> (bool \<times> lock list) result" where
  "take_lock r [] = Inr (False, [])"
| "take_lock r (l # ls) =
     ebind (lock_matches r l) (\<lambda>m.
       if m then Inr (True, ls)
       else ebind (take_lock r ls) (\<lambda>(s, ls'). Inr (s, l # ls')))"

definition checkWrite :: "packet \<Rightarrow> cache_blk \<Rightarrow> (bool \<times> packet \<times> cache_blk) result" where
  "checkWrite p b =
     assert_that ''pkt->isWrite()'' (cmd_isWrite (pk_cmd p))
     (if \<not> cmd_isLLSC (pk_cmd p) \<and> lockList b = [] then Inr (True, p, b)
      else if cmd_isLLSC (pk_cmd p) then
        ebind (take_lock (pk_req p) (lockList b)) (\<lambda>(success, ls).
          let p' = p\<lparr>pk_req := setExtraData (if success then 1 else 0) (pk_req p)\<rparr> in
          ebind (clearLoadLocks (pk_req p') (b\<lparr>lockList := ls\<rparr>)) (\<lambda>b'. Inr (success, p', b')))
      else ebind (clearLoadLocks (pk_req p) b) (\<lambda>b'. Inr (True, p, b')))"

subsection \<open>Lock lemmas\<close>

definition req_ok :: "request \<Rightarrow> bool" where
  "req_ok r \<longleftrightarrow> flags_isSet (rq_privateFlags r) VALID_PADDR \<and> flags_isSet (rq_privateFlags r) VALID_SIZE \<and>
     flags_isSet (rq_privateFlags r) VALID_CONTEXT_ID"

definition rhi :: "request \<Rightarrow> addr" where
  "rhi r = rq_paddr r + ucast (rq_size r) - 1"

definition hits :: "request \<Rightarrow> lock \<Rightarrow> bool" where
  "hits r l \<longleftrightarrow> rq_paddr r \<le> highAddr l \<and> lowAddr l \<le> rhi r"

definition owns :: "request \<Rightarrow> lock \<Rightarrow> bool" where
  "owns r l \<longleftrightarrow> lk_contextId l = rq_contextId r \<and> lowAddr l \<le> rq_paddr r \<and> rhi r \<le> highAddr l"

definition lock_of :: "request \<Rightarrow> lock" where
  "lock_of r = \<lparr>lk_contextId = rq_contextId r, lowAddr = rq_paddr r, highAddr = rhi r\<rparr>"

lemma lock_ops_pure:
  assumes "req_ok r"
  shows "lock_intersects r l = Inr (hits r l)" "lock_matches r l = Inr (owns r l)"
    "new_lock r = Inr (lock_of r)"
  using assms
  by (auto simp: lock_intersects_def lock_matches_def new_lock_def hits_def owns_def lock_of_def rhi_def
      getPaddr_def rq_getSize_def contextId_def req_ok_def Let_def)

lemma trackLoadLocked_pure:
  assumes "req_ok (pk_req p)" "cmd_isLLSC (pk_cmd p)"
  shows "trackLoadLocked p b =
    Inr (b\<lparr>lockList := lock_of (pk_req p) # filter (\<lambda>l. \<not> hits (pk_req p) l) (lockList b)\<rparr>)"
proof -
  have "filterE (\<lambda>l. ebind (lock_intersects (pk_req p) l) (\<lambda>x. Inr (\<not> x))) (lockList b) =
      Inr (filter (\<lambda>l. \<not> hits (pk_req p) l) (lockList b))"
    by (rule filterE_pure) (simp add: lock_ops_pure [OF assms(1)])
  then show ?thesis using assms by (simp add: trackLoadLocked_def lock_ops_pure)
qed

lemma clearLoadLocks_pure:
  assumes "req_ok r"
  shows "clearLoadLocks r b =
    Inr (b\<lparr>lockList := filter (\<lambda>l. \<not> (hits r l \<and> lk_contextId l \<noteq> rq_contextId r)) (lockList b)\<rparr>)"
proof -
  have "filterE (\<lambda>l. ebind (lock_intersects r l) (\<lambda>x.
              if x then ebind (contextId r) (\<lambda>c. Inr (\<not> lk_contextId l \<noteq> c)) else Inr True)) (lockList b) =
    Inr (filter (\<lambda>l. \<not> (hits r l \<and> lk_contextId l \<noteq> rq_contextId r)) (lockList b))"
    by (rule filterE_pure) (use assms in \<open>auto simp: lock_ops_pure contextId_def req_ok_def\<close>)
  then show ?thesis by (simp add: clearLoadLocks_def)
qed

lemma take_lock_pure:
  assumes "req_ok r"
  shows "\<exists>ls'. take_lock r ls = Inr (\<exists>l \<in> set ls. owns r l, ls') \<and> set ls' \<subseteq> set ls"
proof (induction ls)
  case (Cons l ls)
  then show ?case by (auto simp: lock_ops_pure [OF assms])
qed simp

lemma req_ok_setExtraData [simp]: "req_ok (setExtraData d r) = req_ok r"
proof -
  have "flags_isSet (flags_set f VALID_EXTRA_DATA) m = flags_isSet f m" if "VALID_EXTRA_DATA AND m = 0" for f m
    using that by (rule flags_isSet_set_disjoint)
  moreover have "VALID_EXTRA_DATA AND VALID_PADDR = 0" "VALID_EXTRA_DATA AND VALID_SIZE = 0"
    "VALID_EXTRA_DATA AND VALID_CONTEXT_ID = 0" by (simp_all add: req_valid_consts)
  ultimately show ?thesis by (simp add: req_ok_def setExtraData_def)
qed

lemma getExtraData_set: "getExtraData (setExtraData d r) = Inr d"
proof -
  have "VALID_EXTRA_DATA \<noteq> 0" by (simp add: VALID_EXTRA_DATA_def)
  then show ?thesis by (simp add: getExtraData_def setExtraData_def flags_isSet_set_same)
qed

text \<open>A store conditional succeeds exactly if the block holds a lock of its context that covers it.\<close>

lemma checkWrite_sc:
  assumes "req_ok (pk_req p)" "cmd_isWrite (pk_cmd p)" "cmd_isLLSC (pk_cmd p)"
  shows "\<exists>p' b'. checkWrite p b = Inr (\<exists>l \<in> set (lockList b). owns (pk_req p) l, p', b') \<and>
    getExtraData (pk_req p') = Inr (if \<exists>l \<in> set (lockList b). owns (pk_req p) l then 1 else 0) \<and>
    set (lockList b') \<subseteq> set (lockList b)"
proof -
  from take_lock_pure [OF assms(1), of "lockList b"] obtain ls where
    ls: "take_lock (pk_req p) (lockList b) = Inr (\<exists>l \<in> set (lockList b). owns (pk_req p) l, ls)"
    "set ls \<subseteq> set (lockList b)" by blast
  let ?ok = "\<exists>l \<in> set (lockList b). owns (pk_req p) l"
  let ?r = "setExtraData (if ?ok then 1 else 0) (pk_req p)"
  let ?b = "b\<lparr>lockList := filter (\<lambda>l. \<not> (hits ?r l \<and> lk_contextId l \<noteq> rq_contextId ?r)) ls\<rparr>"
  have "clearLoadLocks ?r (b\<lparr>lockList := ls\<rparr>) = Inr ?b"
    using clearLoadLocks_pure [of ?r "b\<lparr>lockList := ls\<rparr>"] assms(1) by simp
  then have "checkWrite p b = Inr (?ok, p\<lparr>pk_req := ?r\<rparr>, ?b)"
    using assms ls(1) by (simp add: checkWrite_def Let_def)
  then show ?thesis using ls(2) by (intro exI [of _ "p\<lparr>pk_req := ?r\<rparr>"] exI [of _ ?b]) (auto simp: getExtraData_set)
qed

subsection \<open>Properties\<close>

definition sane :: "request \<Rightarrow> bool" where
  "sane r \<longleftrightarrow> req_ok r \<and> rq_paddr r \<le> rhi r"

lemma owns_hits: "sane r \<Longrightarrow> owns r l \<Longrightarrow> hits r l"
  by (auto simp: owns_def hits_def sane_def)

text \<open>C10. Load-locked and store-conditional are atomic in a block: after a load-locked the store
  conditional of the same request succeeds and reports 1; if a write of another context to an
  overlapping address comes in between, that write goes through and the store conditional
  fails and reports 0. Both hold whatever other locks the block carries.\<close>

theorem ll_sc_atomic:
  assumes "sane r" "pk_req ll = r" "cmd_isLLSC (pk_cmd ll)"
    "pk_req sc = r" "cmd_isWrite (pk_cmd sc)" "cmd_isLLSC (pk_cmd sc)"
    "sane (pk_req w)" "cmd_isWrite (pk_cmd w)" "\<not> cmd_isLLSC (pk_cmd w)"
    "rq_contextId (pk_req w) \<noteq> rq_contextId r" "hits (pk_req w) (lock_of r)"
  shows "\<exists>b1 sc1 b2 b3 sc2 b4. trackLoadLocked ll b = Inr b1 \<and>
    checkWrite sc b1 = Inr (True, sc1, b2) \<and> getExtraData (pk_req sc1) = Inr 1 \<and>
    checkWrite w b1 = Inr (True, w, b3) \<and>
    checkWrite sc b3 = Inr (False, sc2, b4) \<and> getExtraData (pk_req sc2) = Inr 0"
proof -
  have ok: "req_ok (pk_req ll)" "req_ok (pk_req sc)" "req_ok (pk_req w)" using assms by (auto simp: sane_def)
  let ?b1 = "b\<lparr>lockList := lock_of r # filter (\<lambda>l. \<not> hits r l) (lockList b)\<rparr>"
  let ?keep = "\<lambda>l. \<not> (hits (pk_req w) l \<and> lk_contextId l \<noteq> rq_contextId (pk_req w))"
  let ?b3 = "?b1\<lparr>lockList := filter ?keep (lockList ?b1)\<rparr>"
  have 1: "trackLoadLocked ll b = Inr ?b1" using trackLoadLocked_pure [OF ok(1) assms(3)] assms(2) by simp
  have "owns (pk_req sc) (lock_of r)" using assms(4) by (simp add: owns_def lock_of_def)
  then have own: "(\<exists>l \<in> set (lockList ?b1). owns (pk_req sc) l) = True" by simp
  have 3: "checkWrite w ?b1 = Inr (True, w, ?b3)"
    using assms(8,9) ok(3) by (simp add: checkWrite_def clearLoadLocks_pure)
  have "\<not> ?keep (lock_of r)" using assms(10,11) by (simp add: lock_of_def)
  then have none: "(\<exists>l \<in> set (lockList ?b3). owns (pk_req sc) l) = False"
    using owns_hits [OF assms(1)] assms(4) by auto
  show ?thesis
    using 1 3 checkWrite_sc [OF ok(2) assms(5,6), of ?b1] checkWrite_sc [OF ok(2) assms(5,6), of ?b3]
    unfolding own none by (simp only: if_True if_False) blast
qed

definition demo_req :: "int \<Rightarrow> request" where
  "demo_req c = setContext c (new_request 0x100 8 LLSC 0 0)"

theorem ll_sc_atomic_witness:
  "\<exists>b1 sc1 b2. trackLoadLocked (new_packet (demo_req 1) LoadLockedReq) new_blk = Inr b1 \<and>
    checkWrite (new_packet (demo_req 1) StoreCondReq) b1 = Inr (True, sc1, b2)"
proof -
  have s: "sane (demo_req c)" "pk_req (new_packet (demo_req c) m) = demo_req c"
    "pk_cmd (new_packet (demo_req c) m) = m" "rq_contextId (demo_req c) = c" for c m
    by (simp_all add: sane_def req_ok_def rhi_def demo_req_def setContext_def new_request_def setPhys_def
        empty_request_def flags_isSet_def flags_set_def flags_clear_def req_valid_consts new_packet_def Let_def)
  have h: "hits (demo_req 2) (lock_of (demo_req 1))"
    by (simp add: hits_def lock_of_def rhi_def demo_req_def setContext_def new_request_def setPhys_def)
  show ?thesis
    using ll_sc_atomic [of "demo_req 1" "new_packet (demo_req 1) LoadLockedReq"
        "new_packet (demo_req 1) StoreCondReq" "new_packet (demo_req 2) WriteReq" new_blk] s h
    by (simp add: cmd_defs) blast
qed

end
