(* ===== verification/BPred_Dir.thy ===== *)
theory BPred_Dir
  imports Intmath
begin

text \<open>
  Direction predictors: \<^verbatim>\<open>cpu/pred/{sat_counter.hh,2bit_local,tournament,bi_mode}\<close>. A history
  object handed out by a predictor is passed by value, its absence is \<open>None\<close>; the virtual
  methods of \<^verbatim>\<open>BPredUnit\<close> are a record of functions.
\<close>

subsection \<open>Saturating counters\<close>

record sat_counter =
  sc_initialVal :: "8 word"
  sc_maxVal :: "8 word"
  sc_counter :: "8 word"

definition sc_max :: "nat \<Rightarrow> 8 word" where
  "sc_max nbits = ucast (push_bit nbits (1 :: 32 word) - 1)"

definition new_sat :: "nat \<Rightarrow> 8 word \<Rightarrow> sat_counter result" where
  "new_sat nbits v =
     (if v > sc_max nbits then Inl (Fatal ''BP: Initial counter value exceeds max size.'')
      else Inr \<lparr>sc_initialVal = v, sc_maxVal = sc_max nbits, sc_counter = v\<rparr>)"

text \<open>The default constructor followed by \<^verbatim>\<open>setBits\<close>, as the predictors build their tables.\<close>

definition sc_setBits :: "nat \<Rightarrow> sat_counter \<Rightarrow> sat_counter" where
  "sc_setBits nbits c = c\<lparr>sc_maxVal := sc_max nbits\<rparr>"

definition sc_default :: sat_counter where
  "sc_default = \<lparr>sc_initialVal = 0, sc_maxVal = 0, sc_counter = 0\<rparr>"

definition sc_reset :: "sat_counter \<Rightarrow> sat_counter" where
  "sc_reset c = c\<lparr>sc_counter := sc_initialVal c\<rparr>"

definition sc_increment :: "sat_counter \<Rightarrow> sat_counter" where
  "sc_increment c = (if sc_counter c < sc_maxVal c then c\<lparr>sc_counter := sc_counter c + 1\<rparr> else c)"

definition sc_decrement :: "sat_counter \<Rightarrow> sat_counter" where
  "sc_decrement c = (if sc_counter c > 0 then c\<lparr>sc_counter := sc_counter c - 1\<rparr> else c)"

definition sc_train :: "bool \<Rightarrow> sat_counter \<Rightarrow> sat_counter" where
  "sc_train taken = (if taken then sc_increment else sc_decrement)"

definition ctr_table :: "nat \<Rightarrow> nat \<Rightarrow> sat_counter list" where
  "ctr_table n nbits = replicate n (sc_setBits nbits sc_default)"

subsection \<open>The virtual methods\<close>

record ('s, 'h) dir_ops =
  d_lookup :: "nat \<Rightarrow> addr \<Rightarrow> 's \<Rightarrow> (bool \<times> 'h option \<times> 's) result"
  d_uncond :: "nat \<Rightarrow> addr \<Rightarrow> 's \<Rightarrow> ('h option \<times> 's) result"
  d_btbUpdate :: "nat \<Rightarrow> addr \<Rightarrow> 's \<Rightarrow> 's result"
  d_update :: "nat \<Rightarrow> addr \<Rightarrow> bool \<Rightarrow> 'h option \<Rightarrow> bool \<Rightarrow> 's \<Rightarrow> 's result"
  d_squash :: "nat \<Rightarrow> 'h option \<Rightarrow> 's \<Rightarrow> 's result"
  d_retireSquashed :: "nat \<Rightarrow> 'h option \<Rightarrow> 's \<Rightarrow> 's result"
  d_getGHR :: "nat \<Rightarrow> 'h option \<Rightarrow> 32 word result"

subsection \<open>Local predictor\<close>

record local_bp =
  lb_instShiftAmt :: nat
  lb_localCtrs :: "sat_counter list"
  lb_localPredictorSize :: nat
  lb_localPredictorSets :: nat
  lb_localCtrBits :: nat
  lb_indexMask :: "32 word"

definition new_local :: "nat \<Rightarrow> nat \<Rightarrow> nat \<Rightarrow> local_bp result" where
  "new_local shift sz ctrBits =
     (if \<not> isPowerOf2 (of_nat sz) then Inl (Fatal ''Invalid local predictor size!'')
      else if ctrBits = 0 then Inl (Panic ''division by zero'')
      else let nsets = sz div ctrBits in
      if \<not> isPowerOf2 (of_nat nsets)
      then Inl (Fatal ''Invalid number of local predictor sets! Check localCtrBits.'')
      else Inr \<lparr>lb_instShiftAmt = shift, lb_localCtrs = ctr_table nsets ctrBits, lb_localPredictorSize = sz,
                lb_localPredictorSets = nsets, lb_localCtrBits = ctrBits, lb_indexMask = of_nat nsets - 1\<rparr>)"

definition lb_reset :: "local_bp \<Rightarrow> local_bp" where
  "lb_reset p = p\<lparr>lb_localCtrs := map sc_reset (lb_localCtrs p)\<rparr>"

definition lb_getPrediction :: "local_bp \<Rightarrow> 8 word \<Rightarrow> bool" where
  "lb_getPrediction p count \<longleftrightarrow> drop_bit (lb_localCtrBits p - 1) count \<noteq> 0"

definition lb_getLocalIndex :: "local_bp \<Rightarrow> addr \<Rightarrow> nat" where
  "lb_getLocalIndex p a = unat (drop_bit (lb_instShiftAmt p) a AND ucast (lb_indexMask p))"

definition lb_lookup :: "nat \<Rightarrow> addr \<Rightarrow> local_bp \<Rightarrow> (bool \<times> unit option \<times> local_bp) result" where
  "lb_lookup tid a p =
     ebind (nthE (lb_localCtrs p) (lb_getLocalIndex p a)) (\<lambda>c.
       Inr (lb_getPrediction p (sc_counter c), None, p))"

definition lb_btbUpdate :: "nat \<Rightarrow> addr \<Rightarrow> local_bp \<Rightarrow> local_bp result" where
  "lb_btbUpdate tid a p = Inr p"

definition lb_update :: "nat \<Rightarrow> addr \<Rightarrow> bool \<Rightarrow> unit option \<Rightarrow> bool \<Rightarrow> local_bp \<Rightarrow> local_bp result" where
  "lb_update tid a taken h squashed p =
     assert_that ''bp_history == NULL'' (h = None)
     (ebind (updE (lb_getLocalIndex p a) (sc_train taken) (lb_localCtrs p)) (\<lambda>cs.
       Inr (p\<lparr>lb_localCtrs := cs\<rparr>)))"

definition lb_uncondBranch :: "nat \<Rightarrow> addr \<Rightarrow> local_bp \<Rightarrow> (unit option \<times> local_bp) result" where
  "lb_uncondBranch tid a p = Inr (None, p)"

definition lb_squash :: "nat \<Rightarrow> unit option \<Rightarrow> local_bp \<Rightarrow> local_bp result" where
  "lb_squash tid h p = assert_that ''bp_history == NULL'' (h = None) (Inr p)"

definition lb_retireSquashed :: "nat \<Rightarrow> unit option \<Rightarrow> local_bp \<Rightarrow> local_bp result" where
  "lb_retireSquashed tid h p = assert_that ''bp_history == NULL'' (h = None) (Inr p)"

definition local_ops :: "(local_bp, unit) dir_ops" where
  "local_ops = \<lparr>d_lookup = lb_lookup, d_uncond = lb_uncondBranch, d_btbUpdate = lb_btbUpdate,
     d_update = lb_update, d_squash = lb_squash, d_retireSquashed = lb_retireSquashed,
     d_getGHR = (\<lambda>_ _. Inr 0)\<rparr>"

subsection \<open>Tournament predictor\<close>

record tb_history =
  th_globalHistory :: "32 word"
  th_localHistoryIdx :: "32 word"
  th_localHistory :: "32 word"
  th_localPredTaken :: bool
  th_globalPredTaken :: bool
  th_globalUsed :: bool

definition invalidPredictorIndex :: "32 word" where
  "invalidPredictorIndex = - 1"

record tournament =
  tb_instShiftAmt :: nat
  tb_localCtrs :: "sat_counter list"
  tb_localPredictorSize :: nat
  tb_localPredictorMask :: "32 word"
  tb_localCtrBits :: nat
  tb_localHistoryTable :: "32 word list"
  tb_localHistoryTableSize :: nat
  tb_localHistoryBits :: nat
  tb_globalCtrs :: "sat_counter list"
  tb_globalPredictorSize :: nat
  tb_globalCtrBits :: nat
  tb_globalHistory :: "32 word list"
  tb_globalHistoryBits :: nat
  tb_globalHistoryMask :: "32 word"
  tb_choiceHistoryMask :: "32 word"
  tb_historyRegisterMask :: "32 word"
  tb_choiceCtrs :: "sat_counter list"
  tb_choicePredictorSize :: nat
  tb_choiceCtrBits :: nat
  tb_localThreshold :: "32 word"
  tb_globalThreshold :: "32 word"
  tb_choiceThreshold :: "32 word"

definition threshold :: "nat \<Rightarrow> 32 word" where
  "threshold ctrBits = ucast (push_bit (ctrBits - 1) (1 :: 64 word) - 1)"

definition above :: "sat_counter \<Rightarrow> 32 word \<Rightarrow> bool" where
  "above c thr \<longleftrightarrow> thr < ucast (sc_counter c)"

definition new_tournament ::
  "nat \<Rightarrow> nat \<Rightarrow> nat \<Rightarrow> nat \<Rightarrow> nat \<Rightarrow> nat \<Rightarrow> nat \<Rightarrow> nat \<Rightarrow> nat \<Rightarrow> tournament result" where
  "new_tournament shift nthreads lsz lbits lhsz gsz gbits csz cbits =
     ebind (ceilLog2 (of_nat lsz)) (\<lambda>lhb. ebind (ceilLog2 (of_nat gsz)) (\<lambda>glog. ebind (ceilLog2 (of_nat csz)) (\<lambda>clog.
     let ghb = (if glog > clog then glog else clog);
         lmask = ucast (bf_mask lhb); gmask = of_nat gsz - 1; cmask = of_nat csz - 1; hmask = ucast (bf_mask ghb)
     in if \<not> isPowerOf2 (of_nat lsz) then Inl (Fatal ''Invalid local predictor size!'')
        else if \<not> isPowerOf2 (of_nat gsz) then Inl (Fatal ''Invalid global predictor size!'')
        else if \<not> isPowerOf2 (of_nat lhsz) then Inl (Fatal ''Invalid local history table size!'')
        else if \<not> isPowerOf2 (of_nat csz) then Inl (Fatal ''Invalid choice predictor size!'')
        else if gmask > hmask then Inl (Fatal ''Global predictor too large for global history bits!'')
        else if cmask > hmask then Inl (Fatal ''Choice predictor too large for global history bits!'')
        else Inr \<lparr>tb_instShiftAmt = shift, tb_localCtrs = ctr_table lsz lbits, tb_localPredictorSize = lsz,
                  tb_localPredictorMask = lmask, tb_localCtrBits = lbits,
                  tb_localHistoryTable = replicate lhsz 0, tb_localHistoryTableSize = lhsz,
                  tb_localHistoryBits = lhb, tb_globalCtrs = ctr_table gsz gbits,
                  tb_globalPredictorSize = gsz, tb_globalCtrBits = gbits,
                  tb_globalHistory = replicate nthreads 0, tb_globalHistoryBits = ghb,
                  tb_globalHistoryMask = gmask, tb_choiceHistoryMask = cmask, tb_historyRegisterMask = hmask,
                  tb_choiceCtrs = ctr_table csz cbits, tb_choicePredictorSize = csz, tb_choiceCtrBits = cbits,
                  tb_localThreshold = threshold lbits, tb_globalThreshold = threshold gbits,
                  tb_choiceThreshold = threshold cbits\<rparr>)))"

definition calcLocHistIdx :: "tournament \<Rightarrow> addr \<Rightarrow> nat" where
  "calcLocHistIdx t a =
     unat (drop_bit (tb_instShiftAmt t) a AND ucast (of_nat (tb_localHistoryTableSize t) - 1 :: 32 word))"

definition shift_hist :: "bool \<Rightarrow> 32 word \<Rightarrow> 32 word" where
  "shift_hist taken h = (if taken then push_bit 1 h OR 1 else push_bit 1 h)"

definition tb_updateGlobalHist :: "bool \<Rightarrow> nat \<Rightarrow> tournament \<Rightarrow> tournament result" where
  "tb_updateGlobalHist taken tid t =
     ebind (updE tid (\<lambda>g. shift_hist taken g AND tb_historyRegisterMask t) (tb_globalHistory t)) (\<lambda>gs.
       Inr (t\<lparr>tb_globalHistory := gs\<rparr>))"

definition tb_updateLocalHist :: "bool \<Rightarrow> nat \<Rightarrow> tournament \<Rightarrow> tournament result" where
  "tb_updateLocalHist taken idx t =
     ebind (updE idx (shift_hist taken) (tb_localHistoryTable t)) (\<lambda>ls. Inr (t\<lparr>tb_localHistoryTable := ls\<rparr>))"

definition tb_btbUpdate :: "nat \<Rightarrow> addr \<Rightarrow> tournament \<Rightarrow> tournament result" where
  "tb_btbUpdate tid a t =
     ebind (updE tid (\<lambda>g. g AND (tb_historyRegisterMask t AND NOT 1)) (tb_globalHistory t)) (\<lambda>gs.
     ebind (updE (calcLocHistIdx t a) (\<lambda>l. l AND (tb_localPredictorMask t AND NOT 1)) (tb_localHistoryTable t)) (\<lambda>ls.
       Inr (t\<lparr>tb_globalHistory := gs, tb_localHistoryTable := ls\<rparr>)))"

definition tb_lookup :: "nat \<Rightarrow> addr \<Rightarrow> tournament \<Rightarrow> (bool \<times> tb_history option \<times> tournament) result" where
  "tb_lookup tid a t =
     (let idx = calcLocHistIdx t a in
      ebind (nthE (tb_localHistoryTable t) idx) (\<lambda>lh.
      let lidx = lh AND tb_localPredictorMask t in
      ebind (nthE (tb_localCtrs t) (unat lidx)) (\<lambda>lc.
      ebind (nthE (tb_globalHistory t) tid) (\<lambda>g.
      ebind (nthE (tb_globalCtrs t) (unat (g AND tb_globalHistoryMask t))) (\<lambda>gc.
      ebind (nthE (tb_choiceCtrs t) (unat (g AND tb_choiceHistoryMask t))) (\<lambda>cc.
      let local_prediction = above lc (tb_localThreshold t);
          global_prediction = above gc (tb_globalThreshold t);
          choice_prediction = above cc (tb_choiceThreshold t);
          taken = (if choice_prediction then global_prediction else local_prediction);
          h = \<lparr>th_globalHistory = g, th_localHistoryIdx = of_nat idx, th_localHistory = lidx,
               th_localPredTaken = local_prediction, th_globalPredTaken = global_prediction,
               th_globalUsed = choice_prediction\<rparr>
      in assert_that ''local_history_idx < localHistoryTableSize'' (idx < tb_localHistoryTableSize t)
         (ebind (tb_updateGlobalHist taken tid t) (\<lambda>t1.
          ebind (tb_updateLocalHist taken idx t1) (\<lambda>t2. Inr (taken, Some h, t2))))))))))"

definition tb_uncondBranch :: "nat \<Rightarrow> addr \<Rightarrow> tournament \<Rightarrow> (tb_history option \<times> tournament) result" where
  "tb_uncondBranch tid a t =
     ebind (nthE (tb_globalHistory t) tid) (\<lambda>g.
     ebind (tb_updateGlobalHist True tid t) (\<lambda>t1.
       Inr (Some \<lparr>th_globalHistory = g, th_localHistoryIdx = invalidPredictorIndex,
                  th_localHistory = invalidPredictorIndex, th_localPredTaken = True,
                  th_globalPredTaken = True, th_globalUsed = True\<rparr>, t1)))"

text \<open>The choice, global and local counters of \<^verbatim>\<open>update\<close>.\<close>

definition tb_train :: "tb_history \<Rightarrow> bool \<Rightarrow> tournament \<Rightarrow> tournament result" where
  "tb_train h taken t =
     (let lidx = th_localHistory h AND tb_localPredictorMask t;
          cidx = unat (th_globalHistory h AND tb_choiceHistoryMask t)
      in ebind (if th_localPredTaken h \<noteq> th_globalPredTaken h then
                  (if th_localPredTaken h = taken then updE cidx sc_decrement (tb_choiceCtrs t)
                   else if th_globalPredTaken h = taken then updE cidx sc_increment (tb_choiceCtrs t)
                   else Inr (tb_choiceCtrs t))
                else Inr (tb_choiceCtrs t)) (\<lambda>cs.
         ebind (updE (unat (th_globalHistory h AND tb_globalHistoryMask t)) (sc_train taken) (tb_globalCtrs t)) (\<lambda>gs.
         ebind (if th_localHistory h \<noteq> invalidPredictorIndex
                then updE (unat lidx) (sc_train taken) (tb_localCtrs t) else Inr (tb_localCtrs t)) (\<lambda>ls.
           Inr (t\<lparr>tb_choiceCtrs := cs, tb_globalCtrs := gs, tb_localCtrs := ls\<rparr>)))))"

definition tb_update ::
  "nat \<Rightarrow> addr \<Rightarrow> bool \<Rightarrow> tb_history option \<Rightarrow> bool \<Rightarrow> tournament \<Rightarrow> tournament result" where
  "tb_update tid a taken ho squashed t =
     (let idx = calcLocHistIdx t a in
      ebind (nthE (tb_localHistoryTable t) idx) (\<lambda>_.
      ebind (case ho of
               None \<Rightarrow> Inr t
             | Some h \<Rightarrow>
                 assert_that ''old_local_pred_index < localPredictorSize''
                   (unat (th_localHistory h AND tb_localPredictorMask t) < tb_localPredictorSize t)
                 (let historyPred = (if th_globalUsed h then th_globalPredTaken h else th_localPredTaken h) in
                  ebind (if historyPred \<noteq> taken \<or> \<not> squashed then tb_train h taken t else Inr t) (\<lambda>t1.
                  if squashed then
                    ebind (updE tid (\<lambda>_. shift_hist taken (th_globalHistory h) AND tb_historyRegisterMask t1)
                             (tb_globalHistory t1)) (\<lambda>gs.
                    ebind (if th_localHistory h \<noteq> invalidPredictorIndex
                           then updE idx (\<lambda>_. shift_hist taken (th_localHistory h)) (tb_localHistoryTable t1)
                           else Inr (tb_localHistoryTable t1)) (\<lambda>ls.
                      Inr (t1\<lparr>tb_globalHistory := gs, tb_localHistoryTable := ls\<rparr>)))
                  else Inr t1))) (\<lambda>t2.
      assert_that ''local_history_idx < localHistoryTableSize'' (idx < tb_localHistoryTableSize t) (Inr t2))))"

definition tb_retireSquashed :: "nat \<Rightarrow> tb_history option \<Rightarrow> tournament \<Rightarrow> tournament result" where
  "tb_retireSquashed tid h t = Inr t"

definition tb_squash :: "nat \<Rightarrow> tb_history option \<Rightarrow> tournament \<Rightarrow> tournament result" where
  "tb_squash tid ho t =
     (case ho of
        None \<Rightarrow> Inl NullDeref
      | Some h \<Rightarrow>
          ebind (updE tid (\<lambda>_. th_globalHistory h) (tb_globalHistory t)) (\<lambda>gs.
          ebind (if th_localHistoryIdx h \<noteq> invalidPredictorIndex
                 then updE (unat (th_localHistoryIdx h)) (\<lambda>_. th_localHistory h) (tb_localHistoryTable t)
                 else Inr (tb_localHistoryTable t)) (\<lambda>ls.
            Inr (t\<lparr>tb_globalHistory := gs, tb_localHistoryTable := ls\<rparr>))))"

definition tb_getGHR :: "nat \<Rightarrow> tb_history option \<Rightarrow> 32 word result" where
  "tb_getGHR tid ho = (case ho of None \<Rightarrow> Inl NullDeref | Some h \<Rightarrow> Inr (th_globalHistory h))"

definition tournament_ops :: "(tournament, tb_history) dir_ops" where
  "tournament_ops = \<lparr>d_lookup = tb_lookup, d_uncond = tb_uncondBranch, d_btbUpdate = tb_btbUpdate,
     d_update = tb_update, d_squash = tb_squash, d_retireSquashed = tb_retireSquashed, d_getGHR = tb_getGHR\<rparr>"

subsection \<open>Bi-mode predictor\<close>

record bm_history =
  mh_globalHistoryReg :: "32 word"
  mh_takenUsed :: bool
  mh_takenPred :: bool
  mh_notTakenPred :: bool
  mh_finalPred :: bool

record bi_mode =
  bm_instShiftAmt :: nat
  bm_globalHistoryReg :: "32 word list"
  bm_globalHistoryBits :: nat
  bm_historyRegisterMask :: "32 word"
  bm_choicePredictorSize :: nat
  bm_choiceCtrBits :: nat
  bm_choiceHistoryMask :: "32 word"
  bm_globalPredictorSize :: nat
  bm_globalCtrBits :: nat
  bm_globalHistoryMask :: "32 word"
  bm_choiceCounters :: "sat_counter list"
  bm_takenCounters :: "sat_counter list"
  bm_notTakenCounters :: "sat_counter list"
  bm_choiceThreshold :: "32 word"
  bm_takenThreshold :: "32 word"
  bm_notTakenThreshold :: "32 word"

definition new_bi_mode :: "nat \<Rightarrow> nat \<Rightarrow> nat \<Rightarrow> nat \<Rightarrow> nat \<Rightarrow> nat \<Rightarrow> bi_mode result" where
  "new_bi_mode shift nthreads csz cbits gsz gbits =
     ebind (ceilLog2 (of_nat gsz)) (\<lambda>ghb.
     if \<not> isPowerOf2 (of_nat csz) then Inl (Fatal ''Invalid choice predictor size.'')
     else if \<not> isPowerOf2 (of_nat gsz) then Inl (Fatal ''Invalid global history predictor size.'')
     else Inr \<lparr>bm_instShiftAmt = shift, bm_globalHistoryReg = replicate nthreads 0, bm_globalHistoryBits = ghb,
               bm_historyRegisterMask = ucast (bf_mask ghb), bm_choicePredictorSize = csz,
               bm_choiceCtrBits = cbits, bm_choiceHistoryMask = of_nat csz - 1,
               bm_globalPredictorSize = gsz, bm_globalCtrBits = gbits, bm_globalHistoryMask = of_nat gsz - 1,
               bm_choiceCounters = ctr_table csz cbits, bm_takenCounters = ctr_table gsz gbits,
               bm_notTakenCounters = ctr_table gsz gbits, bm_choiceThreshold = threshold cbits,
               bm_takenThreshold = threshold cbits, bm_notTakenThreshold = threshold cbits\<rparr>)"

definition bm_updateGlobalHistReg :: "nat \<Rightarrow> bool \<Rightarrow> bi_mode \<Rightarrow> bi_mode result" where
  "bm_updateGlobalHistReg tid taken p =
     ebind (updE tid (\<lambda>g. shift_hist taken g AND bm_historyRegisterMask p) (bm_globalHistoryReg p)) (\<lambda>gs.
       Inr (p\<lparr>bm_globalHistoryReg := gs\<rparr>))"

definition bm_uncondBranch :: "nat \<Rightarrow> addr \<Rightarrow> bi_mode \<Rightarrow> (bm_history option \<times> bi_mode) result" where
  "bm_uncondBranch tid a p =
     ebind (nthE (bm_globalHistoryReg p) tid) (\<lambda>g.
     ebind (bm_updateGlobalHistReg tid True p) (\<lambda>p1.
       Inr (Some \<lparr>mh_globalHistoryReg = g, mh_takenUsed = True, mh_takenPred = True, mh_notTakenPred = True,
                  mh_finalPred = True\<rparr>, p1)))"

definition bm_squash :: "nat \<Rightarrow> bm_history option \<Rightarrow> bi_mode \<Rightarrow> bi_mode result" where
  "bm_squash tid ho p =
     (case ho of
        None \<Rightarrow> Inl NullDeref
      | Some h \<Rightarrow> ebind (updE tid (\<lambda>_. mh_globalHistoryReg h) (bm_globalHistoryReg p)) (\<lambda>gs.
                    Inr (p\<lparr>bm_globalHistoryReg := gs\<rparr>)))"

definition bm_choiceIdx :: "bi_mode \<Rightarrow> addr \<Rightarrow> nat" where
  "bm_choiceIdx p a = unat (drop_bit (bm_instShiftAmt p) a AND ucast (bm_choiceHistoryMask p))"

definition bm_globalIdx :: "bi_mode \<Rightarrow> addr \<Rightarrow> 32 word \<Rightarrow> nat" where
  "bm_globalIdx p a g = unat ((drop_bit (bm_instShiftAmt p) a XOR ucast g) AND ucast (bm_globalHistoryMask p))"

definition bm_lookup :: "nat \<Rightarrow> addr \<Rightarrow> bi_mode \<Rightarrow> (bool \<times> bm_history option \<times> bi_mode) result" where
  "bm_lookup tid a p =
     ebind (nthE (bm_globalHistoryReg p) tid) (\<lambda>g.
     let cidx = bm_choiceIdx p a; gidx = bm_globalIdx p a g in
     assert_that ''choiceHistoryIdx < choicePredictorSize'' (cidx < bm_choicePredictorSize p)
     (assert_that ''globalHistoryIdx < globalPredictorSize'' (gidx < bm_globalPredictorSize p)
     (ebind (nthE (bm_choiceCounters p) cidx) (\<lambda>cc.
      ebind (nthE (bm_takenCounters p) gidx) (\<lambda>tc.
      ebind (nthE (bm_notTakenCounters p) gidx) (\<lambda>nc.
      let choicePrediction = above cc (bm_choiceThreshold p);
          takenGHBPrediction = above tc (bm_takenThreshold p);
          notTakenGHBPrediction = above nc (bm_notTakenThreshold p);
          finalPrediction = (if choicePrediction then takenGHBPrediction else notTakenGHBPrediction);
          h = \<lparr>mh_globalHistoryReg = g, mh_takenUsed = choicePrediction, mh_takenPred = takenGHBPrediction,
               mh_notTakenPred = notTakenGHBPrediction, mh_finalPred = finalPrediction\<rparr>
      in ebind (bm_updateGlobalHistReg tid finalPrediction p) (\<lambda>p1. Inr (finalPrediction, Some h, p1))))))))"

definition bm_btbUpdate :: "nat \<Rightarrow> addr \<Rightarrow> bi_mode \<Rightarrow> bi_mode result" where
  "bm_btbUpdate tid a p =
     ebind (updE tid (\<lambda>g. g AND (bm_historyRegisterMask p AND NOT 1)) (bm_globalHistoryReg p)) (\<lambda>gs.
       Inr (p\<lparr>bm_globalHistoryReg := gs\<rparr>))"

text \<open>The two halves of \<^verbatim>\<open>update\<close>: the direction table that was used, and the choice table.\<close>

definition bm_trainDirection :: "bm_history \<Rightarrow> bool \<Rightarrow> nat \<Rightarrow> bi_mode \<Rightarrow> bi_mode result" where
  "bm_trainDirection h taken gidx p =
     (if mh_takenUsed h
      then ebind (updE gidx (sc_train taken) (bm_takenCounters p)) (\<lambda>ts. Inr (p\<lparr>bm_takenCounters := ts\<rparr>))
      else ebind (updE gidx (sc_train taken) (bm_notTakenCounters p)) (\<lambda>ns. Inr (p\<lparr>bm_notTakenCounters := ns\<rparr>)))"

definition bm_trainChoice :: "bm_history \<Rightarrow> bool \<Rightarrow> nat \<Rightarrow> sat_counter list \<Rightarrow> sat_counter list result" where
  "bm_trainChoice h taken cidx cs =
     (if mh_finalPred h = taken
      then (if mh_finalPred h = mh_takenUsed h then updE cidx (sc_train taken) cs else Inr cs)
      else updE cidx (sc_train taken) cs)"

definition bm_update :: "nat \<Rightarrow> addr \<Rightarrow> bool \<Rightarrow> bm_history option \<Rightarrow> bool \<Rightarrow> bi_mode \<Rightarrow> bi_mode result" where
  "bm_update tid a taken ho squashed p =
     (case ho of
        None \<Rightarrow> Inr p
      | Some h \<Rightarrow>
          let cidx = bm_choiceIdx p a; gidx = bm_globalIdx p a (mh_globalHistoryReg h) in
          assert_that ''choiceHistoryIdx < choicePredictorSize'' (cidx < bm_choicePredictorSize p)
          (assert_that ''globalHistoryIdx < globalPredictorSize'' (gidx < bm_globalPredictorSize p)
          (ebind (bm_trainDirection h taken gidx p) (\<lambda>p1.
           ebind (bm_trainChoice h taken cidx (bm_choiceCounters p1)) (\<lambda>cs.
           let p2 = p1\<lparr>bm_choiceCounters := cs\<rparr> in
           if squashed then
             ebind (updE tid (\<lambda>_. shift_hist taken (mh_globalHistoryReg h) AND bm_historyRegisterMask p2)
                      (bm_globalHistoryReg p2)) (\<lambda>gs. Inr (p2\<lparr>bm_globalHistoryReg := gs\<rparr>))
           else Inr p2)))))"

definition bm_retireSquashed :: "nat \<Rightarrow> bm_history option \<Rightarrow> bi_mode \<Rightarrow> bi_mode result" where
  "bm_retireSquashed tid h p = Inr p"

definition bm_getGHR :: "nat \<Rightarrow> bm_history option \<Rightarrow> 32 word result" where
  "bm_getGHR tid ho = (case ho of None \<Rightarrow> Inl NullDeref | Some h \<Rightarrow> Inr (mh_globalHistoryReg h))"

definition bi_mode_ops :: "(bi_mode, bm_history) dir_ops" where
  "bi_mode_ops = \<lparr>d_lookup = bm_lookup, d_uncond = bm_uncondBranch, d_btbUpdate = bm_btbUpdate,
     d_update = bm_update, d_squash = bm_squash, d_retireSquashed = bm_retireSquashed, d_getGHR = bm_getGHR\<rparr>"

end
