(* ===== verification/BPred_Laws.thy ===== *)
theory BPred_Laws
  imports BPred_Dir
begin

text \<open>
  The contract of a direction predictor as a locale: on a well-formed predictor no operation
  fails, and squashing a speculated branch restores what the predictor shows to the outside.
  The local, the tournament and the bi-mode predictor are shown to satisfy it.
\<close>

subsection \<open>Contract\<close>

text \<open>What the fetch stage does with the predictor for one branch: a lookup or the note of an
  unconditional branch, possibly followed by a correction when the target is not known.\<close>

inductive speculates :: "('s, 'h) dir_ops \<Rightarrow> nat \<Rightarrow> 's \<Rightarrow> 'h option \<Rightarrow> 's \<Rightarrow> bool" for ops tid where
  sp_lookup: "d_lookup ops tid a s = Inr (taken, h, s1) \<Longrightarrow> speculates ops tid s h s1"
| sp_uncond: "d_uncond ops tid a s = Inr (h, s1) \<Longrightarrow> speculates ops tid s h s1"
| sp_btb: "speculates ops tid s h s1 \<Longrightarrow> d_btbUpdate ops tid a s1 = Inr s2 \<Longrightarrow> speculates ops tid s h s2"

locale direction_predictor =
  fixes ops :: "('s, 'h) dir_ops" and wf :: "nat \<Rightarrow> 's \<Rightarrow> bool" and hist_ok :: "'h option \<Rightarrow> bool"
    and obs :: "'s \<Rightarrow> 's"
  assumes lookup_total: "wf n s \<Longrightarrow> tid < n \<Longrightarrow> \<exists>taken h s1. d_lookup ops tid a s = Inr (taken, h, s1)"
    and uncond_total: "wf n s \<Longrightarrow> tid < n \<Longrightarrow> \<exists>h s1. d_uncond ops tid a s = Inr (h, s1)"
    and btb_total: "wf n s \<Longrightarrow> tid < n \<Longrightarrow> \<exists>s1. d_btbUpdate ops tid a s = Inr s1"
    and lookup_wf: "wf n s \<Longrightarrow> tid < n \<Longrightarrow> d_lookup ops tid a s = Inr (taken, h, s1) \<Longrightarrow> wf n s1 \<and> hist_ok h"
    and uncond_wf: "wf n s \<Longrightarrow> tid < n \<Longrightarrow> d_uncond ops tid a s = Inr (h, s1) \<Longrightarrow> wf n s1 \<and> hist_ok h"
    and btb_wf: "wf n s \<Longrightarrow> tid < n \<Longrightarrow> d_btbUpdate ops tid a s = Inr s1 \<Longrightarrow> wf n s1"
    and update_total: "wf n s \<Longrightarrow> tid < n \<Longrightarrow> hist_ok h \<Longrightarrow> \<exists>s1. d_update ops tid a taken h squashed s = Inr s1 \<and> wf n s1"
    and retire_total: "wf n s \<Longrightarrow> tid < n \<Longrightarrow> hist_ok h \<Longrightarrow> \<exists>s1. d_retireSquashed ops tid h s = Inr s1 \<and> wf n s1"
    and ghr_total: "hist_ok h \<Longrightarrow> \<exists>g. d_getGHR ops tid h = Inr g"
    and squash_restores: "wf n s \<Longrightarrow> tid < n \<Longrightarrow> speculates ops tid s h s1 \<Longrightarrow> wf n s2 \<Longrightarrow> obs s2 = obs s1 \<Longrightarrow>
      \<exists>s3. d_squash ops tid h s2 = Inr s3 \<and> wf n s3 \<and> obs s3 = obs s"
begin

lemma speculates_wf: "speculates ops tid s h s1 \<Longrightarrow> wf n s \<Longrightarrow> tid < n \<Longrightarrow> wf n s1 \<and> hist_ok h"
  by (induction rule: speculates.induct) (auto dest: lookup_wf uncond_wf btb_wf)

end

subsection \<open>Table sizes\<close>

definition pow2sz :: "nat \<Rightarrow> bool" where
  "pow2sz n \<longleftrightarrow> (\<exists>k < 32. n = 2 ^ k)"

lemma pow2sz_less: "pow2sz n \<Longrightarrow> n < 2 ^ 32"
  unfolding pow2sz_def by (elim exE conjE) (simp only:, rule power_strict_increasing, simp_all)

lemma size_mask: "n = 2 ^ k \<Longrightarrow> (of_nat n - 1 :: 32 word) = mask k"
  by (simp add: mask_eq_exp_minus_1)

lemma and_size_less32:
  assumes "pow2sz n"
  shows "unat (x AND (of_nat n - 1) :: 32 word) < n"
proof -
  obtain k where k: "n = 2 ^ k" using assms by (auto simp: pow2sz_def)
  have "unat (take_bit k x) < 2 ^ k" unfolding unsigned_take_bit_eq by simp
  then show ?thesis unfolding size_mask [OF k] by (simp add: k take_bit_eq_mask)
qed

lemma and_size_less64:
  assumes "pow2sz n"
  shows "unat (x AND ucast (of_nat n - 1 :: 32 word) :: 64 word) < n"
proof -
  obtain k where k: "n = 2 ^ k" "k < 32" using assms by (auto simp: pow2sz_def)
  have "(ucast (mask k :: 32 word) :: 64 word) = mask k"
    by (rule bit_word_eqI) (use k(2) in \<open>auto simp: bit_ucast_iff bit_mask_iff\<close>)
  moreover have "unat (take_bit k x) < 2 ^ k" unfolding unsigned_take_bit_eq by simp
  ultimately show ?thesis unfolding size_mask [OF k(1)] by (simp add: k take_bit_eq_mask)
qed

lemma pow2sz_size:
  assumes "isPowerOf2 (of_nat m)" "m < 2 ^ 32"
  shows "pow2sz m"
proof -
  have m: "unat (of_nat m :: 64 word) = m"
    using assms(2) unfolding unsigned_of_nat by (simp add: take_bit_nat_eq_self)
  obtain k where k: "k < 64" "(of_nat m :: 64 word) = 2 ^ k" using assms(1) isPowerOf2_iff by blast
  then have "m = 2 ^ k" using m by simp
  then show ?thesis using assms(2) unfolding pow2sz_def
    by (metis power_strict_increasing_iff one_less_numeral_iff semiring_norm(76))
qed

lemma ceilLog2_pow2:
  assumes "n = 2 ^ k" "k < 32"
  shows "ceilLog2 (of_nat n) = Inr k"
proof -
  have lt: "(2 :: nat) ^ k < 2 ^ 32" by (rule power_strict_increasing) (use assms(2) in simp_all)
  have u: "unat (of_nat n :: 64 word) = n"
    using lt assms unfolding unsigned_of_nat by (simp add: take_bit_nat_eq_self)
  have nz: "(of_nat n :: 64 word) \<noteq> 0" using u assms(1) by (metis unat_0 power_not_zero zero_neq_numeral)
  from ceilLog2_spec [OF nz] obtain y where
    y: "ceilLog2 (of_nat n) = Inr y" "n \<le> 2 ^ y" "\<forall>z < y. 2 ^ z < n" unfolding u by blast
  have "k \<le> y" using y(2) assms(1) power_increasing_iff [of "2 :: nat" k y] by simp
  moreover have "\<not> k < y" using y(3) assms(1) by blast
  ultimately show ?thesis using y(1) by simp
qed

subsection \<open>Local predictor\<close>

definition lb_wf :: "nat \<Rightarrow> local_bp \<Rightarrow> bool" where
  "lb_wf n p \<longleftrightarrow> pow2sz (lb_localPredictorSets p) \<and> length (lb_localCtrs p) = lb_localPredictorSets p \<and>
     lb_indexMask p = of_nat (lb_localPredictorSets p) - 1"

lemma lb_index_less: "lb_wf n p \<Longrightarrow> lb_getLocalIndex p a < length (lb_localCtrs p)"
  using and_size_less64 [of "lb_localPredictorSets p"] by (simp add: lb_wf_def lb_getLocalIndex_def)

lemma local_ops_sel [simp]:
  "d_lookup local_ops = lb_lookup" "d_uncond local_ops = lb_uncondBranch" "d_btbUpdate local_ops = lb_btbUpdate"
  "d_update local_ops = lb_update" "d_squash local_ops = lb_squash" "d_retireSquashed local_ops = lb_retireSquashed"
  "d_getGHR local_ops = (\<lambda>_ _. Inr 0)"
  by (simp_all add: local_ops_def)

lemmas lb_defs = lb_lookup_def lb_btbUpdate_def lb_update_def lb_uncondBranch_def
  lb_squash_def lb_retireSquashed_def

lemma lb_speculates:
  assumes "speculates local_ops tid s h s1"
  shows "h = None \<and> s1 = s"
  using assms by (induction rule: speculates.induct) (auto simp: lb_defs result_iffs)

interpretation lbp: direction_predictor local_ops lb_wf "\<lambda>h. h = None" "\<lambda>s. s"
proof
  show "\<exists>s1. d_update local_ops tid a taken h squashed s = Inr s1 \<and> lb_wf n s1"
    if "lb_wf n s" "h = None" for n s tid h a taken squashed
    using lb_index_less [OF that(1)] that by (auto simp: lb_defs lb_wf_def)
qed (auto simp: lb_defs lb_index_less result_iffs dest!: lb_speculates)

subsection \<open>Tournament predictor\<close>

definition tb_wf :: "nat \<Rightarrow> tournament \<Rightarrow> bool" where
  "tb_wf n t \<longleftrightarrow> pow2sz (tb_localPredictorSize t) \<and> pow2sz (tb_localHistoryTableSize t) \<and>
     pow2sz (tb_globalPredictorSize t) \<and> pow2sz (tb_choicePredictorSize t) \<and>
     length (tb_localCtrs t) = tb_localPredictorSize t \<and>
     length (tb_localHistoryTable t) = tb_localHistoryTableSize t \<and>
     length (tb_globalCtrs t) = tb_globalPredictorSize t \<and> length (tb_choiceCtrs t) = tb_choicePredictorSize t \<and>
     length (tb_globalHistory t) = n \<and>
     tb_localPredictorMask t = of_nat (tb_localPredictorSize t) - 1 \<and>
     tb_globalHistoryMask t = of_nat (tb_globalPredictorSize t) - 1 \<and>
     tb_choiceHistoryMask t = of_nat (tb_choicePredictorSize t) - 1"

lemma tb_indices:
  assumes "tb_wf n t"
  shows "calcLocHistIdx t a < tb_localHistoryTableSize t" "unat (x AND tb_localPredictorMask t) < tb_localPredictorSize t"
    "unat (x AND tb_globalHistoryMask t) < tb_globalPredictorSize t"
    "unat (x AND tb_choiceHistoryMask t) < tb_choicePredictorSize t"
  using assms and_size_less64 and_size_less32 by (auto simp: tb_wf_def calcLocHistIdx_def)

lemma tb_update_hist_total:
  "tb_wf n t \<Longrightarrow> tid < n \<Longrightarrow> \<exists>t'. tb_updateGlobalHist taken tid t = Inr t' \<and> tb_wf n t' \<and>
     t' = t\<lparr>tb_globalHistory := (tb_globalHistory t)[tid := shift_hist taken (tb_globalHistory t ! tid) AND tb_historyRegisterMask t]\<rparr>"
  "tb_wf n t \<Longrightarrow> idx < tb_localHistoryTableSize t \<Longrightarrow> \<exists>t'. tb_updateLocalHist taken idx t = Inr t' \<and> tb_wf n t' \<and>
     t' = t\<lparr>tb_localHistoryTable := (tb_localHistoryTable t)[idx := shift_hist taken (tb_localHistoryTable t ! idx)]\<rparr>"
  by (auto simp: tb_updateGlobalHist_def tb_updateLocalHist_def tb_wf_def)

lemma tb_lookup_cases:
  assumes "tb_wf n t" "tid < n"
  shows "\<exists>taken h t'. tb_lookup tid a t = Inr (taken, Some h, t') \<and> tb_wf n t' \<and>
    th_globalHistory h = tb_globalHistory t ! tid \<and> th_localHistoryIdx h = of_nat (calcLocHistIdx t a) \<and>
    th_localHistory h = tb_localHistoryTable t ! calcLocHistIdx t a AND tb_localPredictorMask t \<and>
    t' = t\<lparr>tb_globalHistory := (tb_globalHistory t)[tid := shift_hist taken (tb_globalHistory t ! tid) AND tb_historyRegisterMask t],
           tb_localHistoryTable := (tb_localHistoryTable t)[calcLocHistIdx t a :=
             shift_hist taken (tb_localHistoryTable t ! calcLocHistIdx t a)]\<rparr>"
  using assms tb_indices [OF assms(1)]
  by (simp add: tb_lookup_def Let_def tb_wf_def tb_updateGlobalHist_def tb_updateLocalHist_def)

lemma tb_uncond_cases:
  assumes "tb_wf n t" "tid < n"
  shows "\<exists>h t'. tb_uncondBranch tid a t = Inr (Some h, t') \<and> tb_wf n t' \<and>
    th_globalHistory h = tb_globalHistory t ! tid \<and> th_localHistoryIdx h = invalidPredictorIndex \<and>
    t' = t\<lparr>tb_globalHistory := (tb_globalHistory t)[tid := shift_hist True (tb_globalHistory t ! tid) AND tb_historyRegisterMask t]\<rparr>"
  using assms by (simp add: tb_uncondBranch_def tb_wf_def tb_updateGlobalHist_def)

lemma tb_btb_cases:
  assumes "tb_wf n t" "tid < n"
  shows "\<exists>t'. tb_btbUpdate tid a t = Inr t' \<and> tb_wf n t' \<and>
    t' = t\<lparr>tb_globalHistory := (tb_globalHistory t)[tid := tb_globalHistory t ! tid AND (tb_historyRegisterMask t AND NOT 1)],
           tb_localHistoryTable := (tb_localHistoryTable t)[calcLocHistIdx t a :=
             tb_localHistoryTable t ! calcLocHistIdx t a AND (tb_localPredictorMask t AND NOT 1)]\<rparr>"
  using assms tb_indices [OF assms(1)] by (simp add: tb_btbUpdate_def tb_wf_def)

lemma tb_train_total:
  assumes "tb_wf n t"
  shows "\<exists>t'. tb_train h taken t = Inr t' \<and> tb_wf n t' \<and> tb_globalHistory t' = tb_globalHistory t \<and>
    tb_localHistoryTable t' = tb_localHistoryTable t \<and> tb_localHistoryTableSize t' = tb_localHistoryTableSize t"
  using assms tb_indices [OF assms] by (simp add: tb_train_def Let_def tb_wf_def)

lemma tb_update_total:
  assumes "tb_wf n t" "tid < n"
  shows "\<exists>t'. tb_update tid a taken ho squashed t = Inr t' \<and> tb_wf n t'"
proof (cases ho)
  case (Some h)
  obtain t1 where "tb_train h taken t = Inr t1" "tb_wf n t1" "tb_globalHistory t1 = tb_globalHistory t"
    "tb_localHistoryTable t1 = tb_localHistoryTable t" "tb_localHistoryTableSize t1 = tb_localHistoryTableSize t"
    using tb_train_total [OF assms(1)] by blast
  then show ?thesis using assms tb_indices [OF assms(1)] Some
    by (auto simp: tb_update_def Let_def tb_wf_def)
qed (use assms tb_indices [OF assms(1)] in \<open>auto simp: tb_update_def Let_def tb_wf_def\<close>)

definition tb_obs :: "tournament \<Rightarrow> tournament" where
  "tb_obs t = t\<lparr>tb_localHistoryTable := []\<rparr>"

lemma tb_obs_upd [simp]:
  "tb_obs (t\<lparr>tb_globalHistory := gs\<rparr>) = (tb_obs t)\<lparr>tb_globalHistory := gs\<rparr>"
  "tb_obs (t\<lparr>tb_globalHistory := gs, tb_localHistoryTable := ls\<rparr>) = (tb_obs t)\<lparr>tb_globalHistory := gs\<rparr>"
  "tb_globalHistory (tb_obs t) = tb_globalHistory t" "tb_localHistoryTableSize (tb_obs t) = tb_localHistoryTableSize t"
  by (cases t, simp add: tb_obs_def)+

lemma tournament_ops_sel [simp]:
  "d_lookup tournament_ops = tb_lookup" "d_uncond tournament_ops = tb_uncondBranch"
  "d_btbUpdate tournament_ops = tb_btbUpdate" "d_update tournament_ops = tb_update" "d_squash tournament_ops = tb_squash"
  "d_retireSquashed tournament_ops = tb_retireSquashed" "d_getGHR tournament_ops = tb_getGHR"
  by (simp_all add: tournament_ops_def)

lemma tb_speculates:
  assumes "speculates tournament_ops tid t h t1" "tb_wf n t" "tid < n"
  shows "tb_wf n t1 \<and> (\<exists>hh g. h = Some hh \<and> th_globalHistory hh = tb_globalHistory t ! tid \<and>
    (th_localHistoryIdx hh = invalidPredictorIndex \<or> unat (th_localHistoryIdx hh) < tb_localHistoryTableSize t) \<and>
    tb_obs t1 = (tb_obs t)\<lparr>tb_globalHistory := (tb_globalHistory t)[tid := g]\<rparr>)"
  using assms
proof (induction rule: speculates.induct)
  case (sp_lookup a s taken h s1)
  have "tb_localHistoryTableSize s < 2 ^ 32"
    using sp_lookup(2) by (intro pow2sz_less) (simp add: tb_wf_def)
  then have "unat (of_nat (calcLocHistIdx s a) :: 32 word) = calcLocHistIdx s a"
    using tb_indices(1) [OF sp_lookup(2), of a] unfolding unsigned_of_nat by (simp add: take_bit_nat_eq_self)
  then show ?case using tb_lookup_cases [OF sp_lookup(2,3), of a] sp_lookup(1) tb_indices(1) [OF sp_lookup(2), of a]
    by auto
next
  case (sp_uncond a s h s1)
  then show ?case using tb_uncond_cases [OF sp_uncond(2,3), of a] by auto
next
  case (sp_btb s h s1 a s2)
  then obtain hh g where I: "tb_wf n s1" "h = Some hh" "th_globalHistory hh = tb_globalHistory s ! tid"
    "th_localHistoryIdx hh = invalidPredictorIndex \<or> unat (th_localHistoryIdx hh) < tb_localHistoryTableSize s"
    "tb_obs s1 = (tb_obs s)\<lparr>tb_globalHistory := (tb_globalHistory s)[tid := g]\<rparr>" by blast
  obtain s2' g' where "tb_btbUpdate tid a s1 = Inr s2'" "tb_wf n s2'"
    "tb_obs s2' = (tb_obs s1)\<lparr>tb_globalHistory := (tb_globalHistory s1)[tid := g']\<rparr>"
    using tb_btb_cases [OF I(1) sp_btb(5), of a] tb_obs_upd(2) by metis
  moreover have "tb_globalHistory s1 = (tb_globalHistory s)[tid := g]"
    using arg_cong [OF I(5), of tb_globalHistory] by simp
  ultimately show ?case using I sp_btb(2) by auto
qed

lemma tb_squash_restores:
  assumes "tb_wf n t" "tid < n" "speculates tournament_ops tid t h t1" "tb_wf n t2" "tb_obs t2 = tb_obs t1"
  shows "\<exists>t3. tb_squash tid h t2 = Inr t3 \<and> tb_wf n t3 \<and> tb_obs t3 = tb_obs t"
proof -
  obtain hh g where I: "h = Some hh" "th_globalHistory hh = tb_globalHistory t ! tid"
    "th_localHistoryIdx hh = invalidPredictorIndex \<or> unat (th_localHistoryIdx hh) < tb_localHistoryTableSize t"
    "tb_obs t2 = (tb_obs t)\<lparr>tb_globalHistory := (tb_globalHistory t)[tid := g]\<rparr>"
    using tb_speculates [OF assms(3,1,2)] assms(5) by auto
  have s: "tb_globalHistory t2 = (tb_globalHistory t)[tid := g]" "tb_localHistoryTableSize t2 = tb_localHistoryTableSize t"
    using arg_cong [OF I(4), of tb_globalHistory] arg_cong [OF I(4), of tb_localHistoryTableSize] by simp_all
  define ls where "ls = (if th_localHistoryIdx hh \<noteq> invalidPredictorIndex
    then (tb_localHistoryTable t2)[unat (th_localHistoryIdx hh) := th_localHistory hh] else tb_localHistoryTable t2)"
  have len: "length (tb_localHistoryTable t2) = tb_localHistoryTableSize t" "length (tb_globalHistory t) = n"
    using assms(1,4) s(2) by (auto simp: tb_wf_def)
  have "tb_squash tid h t2 = Inr (t2\<lparr>tb_globalHistory := tb_globalHistory t, tb_localHistoryTable := ls\<rparr>)"
    using I(1-3) s(1) len assms(2) by (auto simp: tb_squash_def ls_def)
  moreover have "tb_wf n (t2\<lparr>tb_globalHistory := tb_globalHistory t, tb_localHistoryTable := ls\<rparr>)"
    using assms(4) len by (simp add: tb_wf_def ls_def)
  moreover have "tb_obs (t2\<lparr>tb_globalHistory := tb_globalHistory t, tb_localHistoryTable := ls\<rparr>) = tb_obs t"
    using I(4) by (cases t, cases t2) (simp add: tb_obs_def)
  ultimately show ?thesis by blast
qed

interpretation tbp: direction_predictor tournament_ops tb_wf "\<lambda>h. h \<noteq> None" tb_obs
proof
  show "tb_wf n s1 \<and> h \<noteq> None" if "tb_wf n s" "tid < n" "d_lookup tournament_ops tid a s = Inr (taken, h, s1)"
    for n s tid a taken h s1 using tb_lookup_cases [OF that(1,2), of a] that(3) by auto
  show "tb_wf n s1 \<and> h \<noteq> None" if "tb_wf n s" "tid < n" "d_uncond tournament_ops tid a s = Inr (h, s1)"
    for n s tid a h s1 using tb_uncond_cases [OF that(1,2), of a] that(3) by auto
  show "tb_wf n s1" if "tb_wf n s" "tid < n" "d_btbUpdate tournament_ops tid a s = Inr s1"
    for n s tid a s1 using tb_btb_cases [OF that(1,2), of a] that(3) by auto
  show "\<exists>s3. d_squash tournament_ops tid h s2 = Inr s3 \<and> tb_wf n s3 \<and> tb_obs s3 = tb_obs s"
    if "tb_wf n s" "tid < n" "speculates tournament_ops tid s h s1" "tb_wf n s2" "tb_obs s2 = tb_obs s1" for n s tid h s1 s2
    using tb_squash_restores that by simp
qed (use tb_lookup_cases tb_uncond_cases tb_btb_cases tb_update_total in
    \<open>fastforce simp: tb_retireSquashed_def tb_getGHR_def\<close>)+

subsection \<open>Bi-mode predictor\<close>

definition bm_wf :: "nat \<Rightarrow> bi_mode \<Rightarrow> bool" where
  "bm_wf n p \<longleftrightarrow> pow2sz (bm_choicePredictorSize p) \<and> pow2sz (bm_globalPredictorSize p) \<and>
     length (bm_choiceCounters p) = bm_choicePredictorSize p \<and> length (bm_takenCounters p) = bm_globalPredictorSize p \<and>
     length (bm_notTakenCounters p) = bm_globalPredictorSize p \<and> length (bm_globalHistoryReg p) = n \<and>
     bm_choiceHistoryMask p = of_nat (bm_choicePredictorSize p) - 1 \<and>
     bm_globalHistoryMask p = of_nat (bm_globalPredictorSize p) - 1"

lemma bm_indices:
  assumes "bm_wf n p"
  shows "bm_choiceIdx p a < bm_choicePredictorSize p" "bm_globalIdx p a g < bm_globalPredictorSize p"
  using assms and_size_less64 by (auto simp: bm_wf_def bm_choiceIdx_def bm_globalIdx_def)

lemma bi_mode_ops_sel [simp]:
  "d_lookup bi_mode_ops = bm_lookup" "d_uncond bi_mode_ops = bm_uncondBranch"
  "d_btbUpdate bi_mode_ops = bm_btbUpdate" "d_update bi_mode_ops = bm_update" "d_squash bi_mode_ops = bm_squash"
  "d_retireSquashed bi_mode_ops = bm_retireSquashed" "d_getGHR bi_mode_ops = bm_getGHR"
  by (simp_all add: bi_mode_ops_def)

lemma bm_lookup_cases:
  assumes "bm_wf n p" "tid < n"
  shows "\<exists>taken h g. bm_lookup tid a p = Inr (taken, Some h, p\<lparr>bm_globalHistoryReg := (bm_globalHistoryReg p)[tid := g]\<rparr>) \<and>
    mh_globalHistoryReg h = bm_globalHistoryReg p ! tid"
  using assms bm_indices [OF assms(1)]
  by (auto simp: bm_lookup_def Let_def bm_wf_def bm_updateGlobalHistReg_def)

lemma bm_uncond_cases:
  assumes "bm_wf n p" "tid < n"
  shows "\<exists>h g. bm_uncondBranch tid a p = Inr (Some h, p\<lparr>bm_globalHistoryReg := (bm_globalHistoryReg p)[tid := g]\<rparr>) \<and>
    mh_globalHistoryReg h = bm_globalHistoryReg p ! tid"
  using assms by (auto simp: bm_uncondBranch_def bm_wf_def bm_updateGlobalHistReg_def)

lemma bm_btb_cases:
  assumes "bm_wf n p" "tid < n"
  shows "\<exists>g. bm_btbUpdate tid a p = Inr (p\<lparr>bm_globalHistoryReg := (bm_globalHistoryReg p)[tid := g]\<rparr>)"
  using assms by (auto simp: bm_btbUpdate_def bm_wf_def)

lemma bm_wf_hist [simp]: "bm_wf n (p\<lparr>bm_globalHistoryReg := (bm_globalHistoryReg p)[tid := g]\<rparr>) = bm_wf n p"
  by (simp add: bm_wf_def)

lemma bm_update_total:
  assumes "bm_wf n p" "tid < n"
  shows "\<exists>p'. bm_update tid a taken ho squashed p = Inr p' \<and> bm_wf n p'"
proof (cases ho)
  case (Some h)
  then show ?thesis using assms bm_indices [OF assms(1), of a] by (simp add: bm_update_def bm_trainDirection_def bm_trainChoice_def Let_def bm_wf_def)
qed (use assms in \<open>simp add: bm_update_def\<close>)

lemma bm_speculates:
  assumes "speculates bi_mode_ops tid p h p1" "bm_wf n p" "tid < n"
  shows "\<exists>hh g. h = Some hh \<and> mh_globalHistoryReg hh = bm_globalHistoryReg p ! tid \<and>
    p1 = p\<lparr>bm_globalHistoryReg := (bm_globalHistoryReg p)[tid := g]\<rparr>"
  using assms
proof (induction rule: speculates.induct)
  case (sp_lookup a s taken h s1)
  then show ?case using bm_lookup_cases [OF sp_lookup(2,3), of a] by auto
next
  case (sp_uncond a s h s1)
  then show ?case using bm_uncond_cases [OF sp_uncond(2,3), of a] by auto
next
  case (sp_btb s h s1 a s2)
  then obtain hh g where I: "h = Some hh" "mh_globalHistoryReg hh = bm_globalHistoryReg s ! tid"
    "s1 = s\<lparr>bm_globalHistoryReg := (bm_globalHistoryReg s)[tid := g]\<rparr>" by blast
  then have "bm_wf n s1" using sp_btb(4) by simp
  from bm_btb_cases [OF this sp_btb(5), of a] show ?case using I sp_btb(2) by auto
qed

lemma bm_squash_restores:
  assumes "bm_wf n p" "tid < n" "speculates bi_mode_ops tid p h p1"
  shows "bm_squash tid h p1 = Inr p"
  using bm_speculates [OF assms(3,1,2)] assms(1,2) by (auto simp: bm_squash_def bm_wf_def)

interpretation bmp: direction_predictor bi_mode_ops bm_wf "\<lambda>h. h \<noteq> None" "\<lambda>p. p"
proof
  show "bm_wf n s1 \<and> h \<noteq> None" if "bm_wf n s" "tid < n" "d_lookup bi_mode_ops tid a s = Inr (taken, h, s1)"
    for n s tid a taken h s1 using bm_lookup_cases [OF that(1,2), of a] that by auto
  show "bm_wf n s1 \<and> h \<noteq> None" if "bm_wf n s" "tid < n" "d_uncond bi_mode_ops tid a s = Inr (h, s1)"
    for n s tid a h s1 using bm_uncond_cases [OF that(1,2), of a] that by auto
  show "bm_wf n s1" if "bm_wf n s" "tid < n" "d_btbUpdate bi_mode_ops tid a s = Inr s1"
    for n s tid a s1 using bm_btb_cases [OF that(1,2), of a] that by auto
  show "\<exists>s3. d_squash bi_mode_ops tid h s2 = Inr s3 \<and> bm_wf n s3 \<and> s3 = s"
    if "bm_wf n s" "tid < n" "speculates bi_mode_ops tid s h s1" "bm_wf n s2" "s2 = s1" for n s tid h s1 s2
    using bm_squash_restores that by simp
qed (use bm_lookup_cases bm_uncond_cases bm_btb_cases bm_update_total in
    \<open>fastforce simp: bm_retireSquashed_def bm_getGHR_def\<close>)+

end
