(* ===== verification/BPred_Target.thy ===== *)
theory BPred_Target
  imports BPred_Laws
begin

text \<open>
  Target predictors: \<^verbatim>\<open>cpu/pred/{ras,btb,indirect}\<close>. The program counter state \<^verbatim>\<open>TheISA::PCState\<close> is
  a type variable, since the instruction set is chosen when the simulator is built; \<open>z\<close> is the
  value \<^verbatim>\<open>PCState(0)\<close>.
\<close>

subsection \<open>Return address stack\<close>

record 'pc ras =
  addrStack :: "'pc list"
  ras_numEntries :: nat
  usedEntries :: nat
  tos :: nat

definition ras_reset :: "'pc \<Rightarrow> 'pc ras \<Rightarrow> 'pc ras" where
  "ras_reset z r = r\<lparr>usedEntries := 0, tos := 0, addrStack := map (\<lambda>_. z) (addrStack r)\<rparr>"

definition ras_init :: "'pc \<Rightarrow> nat \<Rightarrow> 'pc ras" where
  "ras_init z n = ras_reset z \<lparr>addrStack = replicate n z, ras_numEntries = n, usedEntries = 0, tos = 0\<rparr>"

definition ras_top :: "'pc ras \<Rightarrow> 'pc result" where
  "ras_top r = nthE (addrStack r) (tos r)"

definition incrTos :: "'pc ras \<Rightarrow> 'pc ras" where
  "incrTos r = r\<lparr>tos := (if tos r + 1 = ras_numEntries r then 0 else tos r + 1)\<rparr>"

definition decrTos :: "'pc ras \<Rightarrow> 'pc ras" where
  "decrTos r = r\<lparr>tos := (if tos r = 0 then ras_numEntries r - 1 else tos r - 1)\<rparr>"

definition ras_push :: "'pc \<Rightarrow> 'pc ras \<Rightarrow> 'pc ras result" where
  "ras_push a r =
     (let r1 = incrTos r in
      ebind (updE (tos r1) (\<lambda>_. a) (addrStack r1)) (\<lambda>st.
        Inr (r1\<lparr>addrStack := st,
                usedEntries := (if usedEntries r1 \<noteq> ras_numEntries r1 then usedEntries r1 + 1 else usedEntries r1)\<rparr>)))"

definition ras_pop :: "'pc ras \<Rightarrow> 'pc ras" where
  "ras_pop r = decrTos (r\<lparr>usedEntries := (if usedEntries r > 0 then usedEntries r - 1 else usedEntries r)\<rparr>)"

definition ras_restore :: "nat \<Rightarrow> 'pc \<Rightarrow> 'pc ras \<Rightarrow> 'pc ras result" where
  "ras_restore idx a r =
     ebind (updE idx (\<lambda>_. a) (addrStack r)) (\<lambda>st. Inr (r\<lparr>tos := idx, addrStack := st\<rparr>))"

definition ras_empty :: "'pc ras \<Rightarrow> bool" where
  "ras_empty r \<longleftrightarrow> usedEntries r = 0"

definition ras_full :: "'pc ras \<Rightarrow> bool" where
  "ras_full r \<longleftrightarrow> usedEntries r = ras_numEntries r"

subsection \<open>Branch target buffer\<close>

record 'pc btb_entry =
  be_tag :: addr
  be_target :: 'pc
  be_tid :: nat
  be_valid :: bool

record 'pc btb =
  btb_table :: "'pc btb_entry list"
  btb_numEntries :: nat
  btb_idxMask :: "32 word"
  btb_tagBits :: nat
  btb_tagMask :: "32 word"
  btb_instShiftAmt :: nat
  btb_tagShiftAmt :: nat
  btb_log2NumThreads :: nat

definition new_btb :: "'pc \<Rightarrow> nat \<Rightarrow> nat \<Rightarrow> nat \<Rightarrow> nat \<Rightarrow> 'pc btb result" where
  "new_btb z n tagBits shift nthreads =
     ebind (floorLog2 (of_nat nthreads)) (\<lambda>lt.
     if \<not> isPowerOf2 (of_nat n) then Inl (Fatal ''BTB entries is not a power of 2!'')
     else ebind (floorLog2 (of_nat n)) (\<lambda>ln.
       Inr \<lparr>btb_table = replicate n \<lparr>be_tag = 0, be_target = z, be_tid = 0, be_valid = False\<rparr>, btb_numEntries = n,
            btb_idxMask = of_nat n - 1, btb_tagBits = tagBits, btb_tagMask = push_bit tagBits 1 - 1,
            btb_instShiftAmt = shift, btb_tagShiftAmt = shift + ln, btb_log2NumThreads = lt\<rparr>))"

definition btb_reset :: "'pc btb \<Rightarrow> 'pc btb" where
  "btb_reset b = b\<lparr>btb_table := map (\<lambda>e. e\<lparr>be_valid := False\<rparr>) (btb_table b)\<rparr>"

text \<open>The shift of the thread number is undefined when there are more threads than entries.\<close>

definition btb_getIndex :: "'pc btb \<Rightarrow> addr \<Rightarrow> nat \<Rightarrow> nat result" where
  "btb_getIndex b a tid =
     (if btb_tagShiftAmt b - btb_instShiftAmt b < btb_log2NumThreads b then Inl (Panic ''negative shift'')
      else Inr (unat ((drop_bit (btb_instShiftAmt b) a XOR
             scast (push_bit (btb_tagShiftAmt b - btb_instShiftAmt b - btb_log2NumThreads b) (of_nat tid :: 32 word)))
             AND ucast (btb_idxMask b))))"

definition btb_getTag :: "'pc btb \<Rightarrow> addr \<Rightarrow> addr" where
  "btb_getTag b a = drop_bit (btb_tagShiftAmt b) a AND ucast (btb_tagMask b)"

definition btb_hit :: "'pc btb_entry \<Rightarrow> addr \<Rightarrow> nat \<Rightarrow> bool" where
  "btb_hit e tag tid \<longleftrightarrow> be_valid e \<and> tag = be_tag e \<and> be_tid e = tid"

definition btb_valid :: "addr \<Rightarrow> nat \<Rightarrow> 'pc btb \<Rightarrow> bool result" where
  "btb_valid a tid b =
     ebind (btb_getIndex b a tid) (\<lambda>i.
     assert_that ''btb_idx < numEntries'' (i < btb_numEntries b)
     (ebind (nthE (btb_table b) i) (\<lambda>e. Inr (btb_hit e (btb_getTag b a) tid))))"

definition btb_lookup :: "'pc \<Rightarrow> addr \<Rightarrow> nat \<Rightarrow> 'pc btb \<Rightarrow> 'pc result" where
  "btb_lookup z a tid b =
     ebind (btb_getIndex b a tid) (\<lambda>i.
     assert_that ''btb_idx < numEntries'' (i < btb_numEntries b)
     (ebind (nthE (btb_table b) i) (\<lambda>e. Inr (if btb_hit e (btb_getTag b a) tid then be_target e else z))))"

definition btb_update :: "addr \<Rightarrow> 'pc \<Rightarrow> nat \<Rightarrow> 'pc btb \<Rightarrow> 'pc btb result" where
  "btb_update a target tid b =
     ebind (btb_getIndex b a tid) (\<lambda>i.
     assert_that ''btb_idx < numEntries'' (i < btb_numEntries b)
     (ebind (updE i (\<lambda>e. e\<lparr>be_tid := tid, be_valid := True, be_target := target, be_tag := btb_getTag b a\<rparr>) (btb_table b))
       (\<lambda>es. Inr (b\<lparr>btb_table := es\<rparr>))))"

subsection \<open>Indirect predictor\<close>

record 'pc ipred_entry =
  ip_tag :: addr
  ip_target :: 'pc

record hist_entry =
  he_pcAddr :: addr
  he_targetAddr :: addr
  he_seqNum :: "64 word"

record thread_info =
  pathHist :: "hist_entry list"
  headHistEntry :: nat

record 'pc ipred =
  ip_hashGHR :: bool
  ip_hashTargets :: bool
  ip_numSets :: nat
  ip_numWays :: nat
  ip_tagBits :: nat
  ip_pathLength :: nat
  ip_instShift :: nat
  ip_targetCache :: "'pc ipred_entry list list"
  ip_threadInfo :: "thread_info list"

definition new_ipred :: "'pc \<Rightarrow> bool \<Rightarrow> bool \<Rightarrow> nat \<Rightarrow> nat \<Rightarrow> nat \<Rightarrow> nat \<Rightarrow> nat \<Rightarrow> nat \<Rightarrow> 'pc ipred result" where
  "new_ipred z hghr htgt nsets nways tagBits plen shift nthreads =
     (if \<not> isPowerOf2 (of_nat nsets) then Inl (Panic ''Indirect predictor requires power of 2 number of sets'')
      else Inr \<lparr>ip_hashGHR = hghr, ip_hashTargets = htgt, ip_numSets = nsets, ip_numWays = nways,
                ip_tagBits = tagBits, ip_pathLength = plen, ip_instShift = shift,
                ip_targetCache = replicate nsets (replicate nways \<lparr>ip_tag = 0, ip_target = z\<rparr>),
                ip_threadInfo = replicate nthreads \<lparr>pathHist = [], headHistEntry = 0\<rparr>\<rparr>)"

text \<open>The loop over the path history, youngest entry first.\<close>

fun hash_path :: "nat \<Rightarrow> nat \<Rightarrow> nat \<Rightarrow> nat \<Rightarrow> hist_entry list \<Rightarrow> addr \<Rightarrow> addr" where
  "hash_path shift hshift plen p [] h = h"
| "hash_path shift hshift plen p (e # es) h =
     (if p < plen then hash_path shift hshift plen (Suc p) es (h XOR drop_bit (shift + p * hshift) (he_targetAddr e))
      else h)"

definition ip_getSetIndex :: "'pc ipred \<Rightarrow> addr \<Rightarrow> 32 word \<Rightarrow> nat \<Rightarrow> nat result" where
  "ip_getSetIndex q a ghr tid =
     ebind (nthE (ip_threadInfo q) tid) (\<lambda>ti.
     let h = drop_bit (ip_instShift q) a; h1 = (if ip_hashGHR q then h XOR ucast ghr else h) in
     if ip_hashTargets q then
       ebind (floorLog2 (of_nat (ip_numSets q))) (\<lambda>l.
       if ip_pathLength q = 0 then Inl (Panic ''division by zero'')
       else Inr (unat (hash_path (ip_instShift q) (l div ip_pathLength q) (ip_pathLength q) 0 (rev (pathHist ti)) h1
                  AND ucast (of_nat (ip_numSets q) - 1 :: 32 word))))
     else Inr (unat (h1 AND ucast (of_nat (ip_numSets q) - 1 :: 32 word))))"

definition ip_getTag :: "'pc ipred \<Rightarrow> addr \<Rightarrow> addr" where
  "ip_getTag q a = drop_bit (ip_instShift q) a AND scast (push_bit (ip_tagBits q) (1 :: 32 word) - 1)"

definition ip_lookup :: "addr \<Rightarrow> 32 word \<Rightarrow> nat \<Rightarrow> 'pc ipred \<Rightarrow> 'pc option result" where
  "ip_lookup a ghr tid q =
     ebind (ip_getSetIndex q a ghr tid) (\<lambda>s.
     assert_that ''set_index < numSets'' (s < ip_numSets q)
     (ebind (nthE (ip_targetCache q) s) (\<lambda>iset.
       Inr (map_option ip_target (find (\<lambda>w. ip_tag w = ip_getTag q a) iset)))))"

definition upd_thread :: "nat \<Rightarrow> (thread_info \<Rightarrow> thread_info) \<Rightarrow> 'pc ipred \<Rightarrow> 'pc ipred result" where
  "upd_thread tid f q = ebind (updE tid f (ip_threadInfo q)) (\<lambda>ts. Inr (q\<lparr>ip_threadInfo := ts\<rparr>))"

definition recordIndirect :: "addr \<Rightarrow> addr \<Rightarrow> 64 word \<Rightarrow> nat \<Rightarrow> 'pc ipred \<Rightarrow> 'pc ipred result" where
  "recordIndirect a tgt sn tid =
     upd_thread tid (\<lambda>ti. ti\<lparr>pathHist := pathHist ti @ [\<lparr>he_pcAddr = a, he_targetAddr = tgt, he_seqNum = sn\<rparr>]\<rparr>)"

definition ip_commit :: "64 word \<Rightarrow> nat \<Rightarrow> 'pc ipred \<Rightarrow> 'pc ipred result" where
  "ip_commit sn tid q =
     upd_thread tid (\<lambda>ti.
       if pathHist ti = [] then ti
       else if headHistEntry ti < length (pathHist ti) \<and> he_seqNum (pathHist ti ! headHistEntry ti) \<le> sn
       then (if headHistEntry ti \<ge> ip_pathLength q then ti\<lparr>pathHist := tl (pathHist ti)\<rparr>
             else ti\<lparr>headHistEntry := headHistEntry ti + 1\<rparr>)
       else ti) q"

definition ip_squash :: "64 word \<Rightarrow> nat \<Rightarrow> 'pc ipred \<Rightarrow> 'pc ipred result" where
  "ip_squash sn tid =
     upd_thread tid (\<lambda>ti. ti\<lparr>pathHist := takeWhile (\<lambda>e. \<not> he_seqNum e > sn) (pathHist ti)\<rparr>)"

text \<open>The update of the first way with the tag, or of a random way.\<close>

fun set_way :: "addr \<Rightarrow> 'pc \<Rightarrow> 'pc ipred_entry list \<Rightarrow> 'pc ipred_entry list option" where
  "set_way tag tgt [] = None"
| "set_way tag tgt (w # ws) =
     (if ip_tag w = tag then Some (w\<lparr>ip_target := tgt\<rparr> # ws) else map_option ((#) w) (set_way tag tgt ws))"

definition recordTarget ::
  "('pc \<Rightarrow> addr) \<Rightarrow> nat \<Rightarrow> 64 word \<Rightarrow> 32 word \<Rightarrow> 'pc \<Rightarrow> nat \<Rightarrow> 'pc ipred \<Rightarrow> 'pc ipred result" where
  "recordTarget instAddr rnd sn ghr target tid q =
     ebind (nthE (ip_threadInfo q) tid) (\<lambda>ti.
     if pathHist ti = [] then Inl OutOfRange
     else let e = last (pathHist ti) in
       ebind (upd_thread tid (\<lambda>ti. ti\<lparr>pathHist := butlast (pathHist ti)\<rparr>) q) (\<lambda>q1.
       ebind (ip_getSetIndex q1 (he_pcAddr e) ghr tid) (\<lambda>s.
       let tag = ip_getTag q1 (he_pcAddr e) in
       ebind (upd_thread tid (\<lambda>ti. ti\<lparr>pathHist := pathHist ti @ [e\<lparr>he_targetAddr := instAddr target\<rparr>]\<rparr>) q1) (\<lambda>q2.
       assert_that ''set_index < numSets'' (s < ip_numSets q2)
       (ebind (nthE (ip_targetCache q2) s) (\<lambda>iset.
        case set_way tag target iset of
          Some iset' \<Rightarrow> Inr (q2\<lparr>ip_targetCache := (ip_targetCache q2)[s := iset']\<rparr>)
        | None \<Rightarrow>
            if ip_numWays q2 = 0 then Inl (Panic ''division by zero'')
            else ebind (updE (rnd mod ip_numWays q2) (\<lambda>_. \<lparr>ip_tag = tag, ip_target = target\<rparr>) iset) (\<lambda>iset'.
              Inr (q2\<lparr>ip_targetCache := (ip_targetCache q2)[s := iset']\<rparr>))))))))"

end
