(* ===== verification/BPred_Unit.thy ===== *)
theory BPred_Unit
  imports BPred_Target
begin

text \<open>
  The branch prediction unit of the fetch stage, \<^verbatim>\<open>cpu/pred/bpred_unit.{hh,cc}\<close>: prediction of
  direction and target, the history of unresolved branches (youngest first), commit and squash.
  The direction predictor is a parameter, as the virtual methods of the class; the properties of
  the instruction and the operations of the instruction set on program counters are parameters
  of the build.
\<close>

subsection \<open>Parameters\<close>

record static_inst =
  isUncondCtrl :: bool
  isReturn :: bool
  isCall :: bool
  isDirectCtrl :: bool

record 'pc isa =
  instAddr :: "'pc \<Rightarrow> addr"
  buildRetPC :: "'pc \<Rightarrow> 'pc \<Rightarrow> 'pc"
  advancePC :: "static_inst \<Rightarrow> 'pc \<Rightarrow> 'pc"
  branchTarget :: "static_inst \<Rightarrow> 'pc \<Rightarrow> 'pc"
  pc_zero :: 'pc

subsection \<open>State\<close>

record ('pc, 'h) pred_history =
  ph_seqNum :: "64 word"
  ph_pc :: addr
  ph_bpHistory :: "'h option"
  ph_RASTarget :: 'pc
  ph_RASIndex :: nat
  ph_tid :: nat
  ph_predTaken :: bool
  ph_usedRAS :: bool
  ph_pushedRAS :: bool
  ph_wasCall :: bool
  ph_wasReturn :: bool
  ph_wasSquashed :: bool
  ph_wasIndirect :: bool

definition new_pred_history :: "'pc \<Rightarrow> 64 word \<Rightarrow> addr \<Rightarrow> bool \<Rightarrow> 'h option \<Rightarrow> nat \<Rightarrow> ('pc, 'h) pred_history" where
  "new_pred_history z sn a taken h tid =
     \<lparr>ph_seqNum = sn, ph_pc = a, ph_bpHistory = h, ph_RASTarget = z, ph_RASIndex = 0, ph_tid = tid,
      ph_predTaken = taken, ph_usedRAS = False, ph_pushedRAS = False, ph_wasCall = False,
      ph_wasReturn = False, ph_wasSquashed = False, ph_wasIndirect = False\<rparr>"

record ('pc, 's, 'h) bpu =
  bu_dir :: 's
  bu_predHist :: "('pc, 'h) pred_history list list"
  bu_BTB :: "'pc btb"
  bu_RAS :: "'pc ras list"
  bu_useIndirect :: bool
  bu_iPred :: "'pc ipred"
  bu_lookups :: nat
  bu_condPredicted :: nat
  bu_condIncorrect :: nat
  bu_BTBLookups :: nat
  bu_BTBHits :: nat
  bu_usedRAS :: nat
  bu_RASIncorrect :: nat
  bu_indirectLookups :: nat
  bu_indirectHits :: nat
  bu_indirectMisses :: nat
  bu_indirectMispredicted :: nat

text \<open>The parameters in the order of the constructor: the tables of the target predictors, then the
  direction predictor of the derived class.\<close>

definition new_bpu ::
  "'pc isa \<Rightarrow> 's \<Rightarrow> nat \<Rightarrow> nat \<Rightarrow> nat \<Rightarrow> nat \<Rightarrow> nat \<Rightarrow> bool \<Rightarrow> 'pc ipred \<Rightarrow> ('pc, 's, 'h) bpu result" where
  "new_bpu isa dir nthreads btbEntries tagSize shift rasSize useIndirect ip =
     ebind (new_btb (pc_zero isa) btbEntries tagSize shift nthreads) (\<lambda>b.
       Inr \<lparr>bu_dir = dir, bu_predHist = replicate nthreads [], bu_BTB = b,
            bu_RAS = replicate nthreads (ras_init (pc_zero isa) rasSize), bu_useIndirect = useIndirect, bu_iPred = ip,
            bu_lookups = 0, bu_condPredicted = 0, bu_condIncorrect = 0, bu_BTBLookups = 0, bu_BTBHits = 0,
            bu_usedRAS = 0, bu_RASIncorrect = 0, bu_indirectLookups = 0, bu_indirectHits = 0,
            bu_indirectMisses = 0, bu_indirectMispredicted = 0\<rparr>)"

definition drainSanityCheck :: "('pc, 's, 'h) bpu \<Rightarrow> unit result" where
  "drainSanityCheck u = assert_that ''ph.empty()'' (list_all (\<lambda>ph. ph = []) (bu_predHist u)) (Inr ())"

definition upd_ras :: "nat \<Rightarrow> ('pc ras \<Rightarrow> 'pc ras result) \<Rightarrow> ('pc, 's, 'h) bpu \<Rightarrow> ('pc, 's, 'h) bpu result" where
  "upd_ras tid f u =
     ebind (nthE (bu_RAS u) tid) (\<lambda>r. ebind (f r) (\<lambda>r'. Inr (u\<lparr>bu_RAS := (bu_RAS u)[tid := r']\<rparr>)))"

subsection \<open>Prediction\<close>

definition predict_direction ::
  "('s, 'h) dir_ops \<Rightarrow> static_inst \<Rightarrow> addr \<Rightarrow> nat \<Rightarrow> ('pc, 's, 'h) bpu \<Rightarrow> (bool \<times> 'h option \<times> ('pc, 's, 'h) bpu) result" where
  "predict_direction ops inst a tid u0 =
     (let u = u0\<lparr>bu_lookups := bu_lookups u0 + 1\<rparr> in
      if isUncondCtrl inst
      then ebind (d_uncond ops tid a (bu_dir u)) (\<lambda>(h, s). Inr (True, h, u\<lparr>bu_dir := s\<rparr>))
      else ebind (d_lookup ops tid a (bu_dir u)) (\<lambda>(taken, h, s).
        Inr (taken, h, u\<lparr>bu_condPredicted := bu_condPredicted u + 1, bu_dir := s\<rparr>)))"

text \<open>A return takes its target from the return address stack and records what it pops.\<close>

definition predict_return ::
  "'pc isa \<Rightarrow> 'pc \<Rightarrow> nat \<Rightarrow> ('pc, 'h) pred_history \<Rightarrow> ('pc, 's, 'h) bpu \<Rightarrow>
   ('pc \<times> ('pc, 'h) pred_history \<times> ('pc, 's, 'h) bpu) result" where
  "predict_return isa pc tid e u =
     ebind (nthE (bu_RAS u) tid) (\<lambda>r. ebind (ras_top r) (\<lambda>rasTop.
     ebind (upd_ras tid (\<lambda>r. Inr (ras_pop r)) (u\<lparr>bu_usedRAS := bu_usedRAS u + 1\<rparr>)) (\<lambda>u1.
       Inr (buildRetPC isa pc rasTop,
            e\<lparr>ph_wasReturn := True, ph_usedRAS := True, ph_RASIndex := tos r, ph_RASTarget := rasTop\<rparr>, u1))))"

text \<open>A call pushes its address before the target is looked up.\<close>

definition predict_call ::
  "static_inst \<Rightarrow> 'pc \<Rightarrow> nat \<Rightarrow> ('pc, 'h) pred_history \<Rightarrow> ('pc, 's, 'h) bpu \<Rightarrow>
   (('pc, 'h) pred_history \<times> ('pc, 's, 'h) bpu) result" where
  "predict_call inst pc tid e u =
     (if isCall inst
      then ebind (upd_ras tid (ras_push pc) u) (\<lambda>u1. Inr (e\<lparr>ph_pushedRAS := True, ph_wasCall := True\<rparr>, u1))
      else Inr (e, u))"

text \<open>Without a target a conditional call takes its entry off the stack again.\<close>

definition undo_call ::
  "static_inst \<Rightarrow> nat \<Rightarrow> ('pc, 'h) pred_history \<Rightarrow> ('pc, 's, 'h) bpu \<Rightarrow>
   (('pc, 'h) pred_history \<times> ('pc, 's, 'h) bpu) result" where
  "undo_call inst tid e u =
     (if isCall inst \<and> \<not> isUncondCtrl inst
      then ebind (upd_ras tid (\<lambda>r. Inr (ras_pop r)) u) (\<lambda>u1. Inr (e\<lparr>ph_pushedRAS := False\<rparr>, u1))
      else Inr (e, u))"

definition predict_btb ::
  "'pc isa \<Rightarrow> ('s, 'h) dir_ops \<Rightarrow> static_inst \<Rightarrow> 'pc \<Rightarrow> nat \<Rightarrow> ('pc, 'h) pred_history \<Rightarrow> ('pc, 's, 'h) bpu \<Rightarrow>
   (bool \<times> 'pc \<times> ('pc, 'h) pred_history \<times> ('pc, 's, 'h) bpu) result" where
  "predict_btb isa ops inst pc tid e u =
     ebind (btb_valid (instAddr isa pc) tid (bu_BTB u)) (\<lambda>valid.
     if valid then
       ebind (btb_lookup (pc_zero isa) (instAddr isa pc) tid (bu_BTB u)) (\<lambda>target.
         Inr (True, target, e, u\<lparr>bu_BTBHits := bu_BTBHits u + 1\<rparr>))
     else
       ebind (if \<not> isCall inst \<and> \<not> isReturn inst
              then ebind (d_btbUpdate ops tid (instAddr isa pc) (bu_dir u)) (\<lambda>s. Inr (e, u\<lparr>bu_dir := s\<rparr>))
              else undo_call inst tid e u) (\<lambda>(e1, u1).
         Inr (False, advancePC isa inst pc, e1, u1)))"

definition predict_indirect ::
  "'pc isa \<Rightarrow> ('s, 'h) dir_ops \<Rightarrow> static_inst \<Rightarrow> 64 word \<Rightarrow> 'pc \<Rightarrow> nat \<Rightarrow> ('pc, 'h) pred_history \<Rightarrow> ('pc, 's, 'h) bpu \<Rightarrow>
   (bool \<times> 'pc \<times> ('pc, 'h) pred_history \<times> ('pc, 's, 'h) bpu) result" where
  "predict_indirect isa ops inst sn pc tid e0 u0 =
     (let e = e0\<lparr>ph_wasIndirect := True\<rparr>; u = u0\<lparr>bu_indirectLookups := bu_indirectLookups u0 + 1\<rparr> in
      ebind (d_getGHR ops tid (ph_bpHistory e)) (\<lambda>ghr.
      ebind (ip_lookup (instAddr isa pc) ghr tid (bu_iPred u)) (\<lambda>hit.
      ebind (case hit of
               Some target \<Rightarrow> Inr (True, target, e, u\<lparr>bu_indirectHits := bu_indirectHits u + 1\<rparr>)
             | None \<Rightarrow>
                 ebind (if \<not> isCall inst \<and> \<not> isReturn inst then Inr (e, u\<lparr>bu_indirectMisses := bu_indirectMisses u + 1\<rparr>)
                        else undo_call inst tid e (u\<lparr>bu_indirectMisses := bu_indirectMisses u + 1\<rparr>)) (\<lambda>(e1, u1).
                   Inr (False, advancePC isa inst pc, e1, u1))) (\<lambda>(taken, target, e1, u1).
      ebind (recordIndirect (instAddr isa pc) (instAddr isa target) sn tid (bu_iPred u1)) (\<lambda>ip.
        Inr (taken, target, e1, u1\<lparr>bu_iPred := ip\<rparr>))))))"

definition predict_target ::
  "'pc isa \<Rightarrow> ('s, 'h) dir_ops \<Rightarrow> static_inst \<Rightarrow> 64 word \<Rightarrow> 'pc \<Rightarrow> nat \<Rightarrow> bool \<Rightarrow> ('pc, 'h) pred_history \<Rightarrow>
   ('pc, 's, 'h) bpu \<Rightarrow> (bool \<times> 'pc \<times> ('pc, 'h) pred_history \<times> ('pc, 's, 'h) bpu) result" where
  "predict_target isa ops inst sn pc tid taken e u =
     (if taken then
        if isReturn inst then ebind (predict_return isa pc tid e u) (\<lambda>(target, e1, u1). Inr (True, target, e1, u1))
        else ebind (predict_call inst pc tid e (u\<lparr>bu_BTBLookups := bu_BTBLookups u + 1\<rparr>)) (\<lambda>(e1, u1).
          if isDirectCtrl inst \<or> \<not> bu_useIndirect u1 then predict_btb isa ops inst pc tid e1 u1
          else predict_indirect isa ops inst sn pc tid e1 u1)
      else Inr (False, advancePC isa inst pc, (if isReturn inst then e\<lparr>ph_wasReturn := True\<rparr> else e), u))"

definition predict ::
  "'pc isa \<Rightarrow> ('s, 'h) dir_ops \<Rightarrow> static_inst \<Rightarrow> 64 word \<Rightarrow> 'pc \<Rightarrow> nat \<Rightarrow> ('pc, 's, 'h) bpu \<Rightarrow>
   (bool \<times> 'pc \<times> ('pc, 's, 'h) bpu) result" where
  "predict isa ops inst sn pc tid u =
     ebind (predict_direction ops inst (instAddr isa pc) tid u) (\<lambda>(taken, h, u1).
     ebind (predict_target isa ops inst sn pc tid taken
              (new_pred_history (pc_zero isa) sn (instAddr isa pc) taken h tid) u1) (\<lambda>(pred_taken, target, e, u2).
     ebind (updE tid ((#) e) (bu_predHist u2)) (\<lambda>ph.
       Inr (pred_taken, target, u2\<lparr>bu_predHist := ph\<rparr>))))"

subsection \<open>In-order prediction\<close>

definition predictInOrder ::
  "'pc isa \<Rightarrow> ('s, 'h) dir_ops \<Rightarrow> static_inst \<Rightarrow> 64 word \<Rightarrow> nat \<Rightarrow> 'pc \<Rightarrow> 'pc \<Rightarrow> nat \<Rightarrow> ('pc, 's, 'h) bpu \<Rightarrow>
   (bool \<times> 'pc \<times> ('pc, 's, 'h) bpu) result" where
  "predictInOrder isa ops inst sn asid instPC predPC tid u =
     ebind (nthE (bu_RAS u) tid) (\<lambda>r0.
     ebind (predict_direction ops inst (instAddr isa (if isUncondCtrl inst then instPC else predPC)) tid u) (\<lambda>(taken0, h, u1).
     let taken = (if isUncondCtrl inst \<and> isReturn inst \<and> ras_empty r0 then False else taken0);
         e = new_pred_history (pc_zero isa) sn (instAddr isa predPC) taken h tid
     in ebind (if taken then
                 if isReturn inst then
                   assert_that ''RASIndex < 16'' (tos r0 < 16)
                   (ebind (predict_return isa instPC tid e u1) (\<lambda>(target, e1, u2).
                      Inr (True, target, e1\<lparr>ph_wasReturn := False\<rparr>, u2)))
                 else
                   ebind (predict_call inst instPC tid e (u1\<lparr>bu_BTBLookups := bu_BTBLookups u1 + 1\<rparr>)) (\<lambda>(e1, u2).
                   if isCall inst \<and> isUncondCtrl inst \<and> isDirectCtrl inst
                   then Inr (True, branchTarget isa inst instPC, e1, u2)
                   else ebind (btb_valid (instAddr isa predPC) asid (bu_BTB u2)) (\<lambda>valid.
                     if valid then ebind (btb_lookup (pc_zero isa) (instAddr isa predPC) asid (bu_BTB u2)) (\<lambda>target.
                       Inr (True, target, e1, u2\<lparr>bu_BTBHits := bu_BTBHits u2 + 1\<rparr>))
                     else Inr (False, predPC, e1, u2)))
               else Inr (False, predPC, e, u1)) (\<lambda>(pred_taken, target, e1, u2).
        ebind (updE tid ((#) e1) (bu_predHist u2)) (\<lambda>ph.
          Inr (pred_taken, (if pred_taken then target else predPC), u2\<lparr>bu_predHist := ph\<rparr>)))))"

subsection \<open>Commit\<close>

text \<open>The loop over the oldest entries, given oldest first.\<close>

fun retire_hist ::
  "('s, 'h) dir_ops \<Rightarrow> 64 word \<Rightarrow> nat \<Rightarrow> ('pc, 'h) pred_history list \<Rightarrow> 's \<Rightarrow> (('pc, 'h) pred_history list \<times> 's) result" where
  "retire_hist ops done_sn tid [] s = Inr ([], s)"
| "retire_hist ops done_sn tid (e # es) s =
     (if ph_seqNum e \<le> done_sn
      then ebind (if \<not> ph_wasSquashed e then d_update ops tid (ph_pc e) (ph_predTaken e) (ph_bpHistory e) False s
                  else d_retireSquashed ops tid (ph_bpHistory e) s) (\<lambda>s1. retire_hist ops done_sn tid es s1)
      else Inr (e # es, s))"

definition bu_update :: "('s, 'h) dir_ops \<Rightarrow> 64 word \<Rightarrow> nat \<Rightarrow> ('pc, 's, 'h) bpu \<Rightarrow> ('pc, 's, 'h) bpu result" where
  "bu_update ops done_sn tid u =
     ebind (ip_commit done_sn tid (bu_iPred u)) (\<lambda>ip.
     ebind (nthE (bu_predHist u) tid) (\<lambda>ph.
     ebind (retire_hist ops done_sn tid (rev ph) (bu_dir u)) (\<lambda>(es, s).
       Inr (u\<lparr>bu_iPred := ip, bu_predHist := (bu_predHist u)[tid := rev es], bu_dir := s\<rparr>))))"

subsection \<open>Squash\<close>

fun squash_hist ::
  "('s, 'h) dir_ops \<Rightarrow> 64 word \<Rightarrow> nat \<Rightarrow> ('pc, 'h) pred_history list \<Rightarrow> 'pc ras \<Rightarrow> 's \<Rightarrow>
   (('pc, 'h) pred_history list \<times> 'pc ras \<times> 's) result" where
  "squash_hist ops sn tid [] r s = Inr ([], r, s)"
| "squash_hist ops sn tid (e # es) r s =
     (if ph_seqNum e > sn
      then ebind (if ph_usedRAS e then ras_restore (ph_RASIndex e) (ph_RASTarget e) r
                  else if ph_wasCall e \<and> ph_pushedRAS e then Inr (ras_pop r) else Inr r) (\<lambda>r1.
           ebind (d_squash ops tid (ph_bpHistory e) s) (\<lambda>s1. squash_hist ops sn tid es r1 s1))
      else Inr (e # es, r, s))"

definition bu_squash :: "('s, 'h) dir_ops \<Rightarrow> 64 word \<Rightarrow> nat \<Rightarrow> ('pc, 's, 'h) bpu \<Rightarrow> ('pc, 's, 'h) bpu result" where
  "bu_squash ops sn tid u =
     ebind (ip_squash sn tid (bu_iPred u)) (\<lambda>ip.
     ebind (nthE (bu_predHist u) tid) (\<lambda>ph. ebind (nthE (bu_RAS u) tid) (\<lambda>r.
     ebind (squash_hist ops sn tid ph r (bu_dir u)) (\<lambda>(es, r1, s).
       Inr (u\<lparr>bu_iPred := ip, bu_predHist := (bu_predHist u)[tid := es], bu_RAS := (bu_RAS u)[tid := r1], bu_dir := s\<rparr>)))))"

text \<open>The squash of a mispredicted branch: younger branches are undone, then the history, the stack
  and the target tables are corrected for the branch itself.\<close>

definition bu_squash_mispredict ::
  "'pc isa \<Rightarrow> ('s, 'h) dir_ops \<Rightarrow> nat \<Rightarrow> 64 word \<Rightarrow> 'pc \<Rightarrow> bool \<Rightarrow> nat \<Rightarrow> ('pc, 's, 'h) bpu \<Rightarrow> ('pc, 's, 'h) bpu result" where
  "bu_squash_mispredict isa ops rnd sn corrTarget actually_taken tid u0 =
     ebind (bu_squash ops sn tid (u0\<lparr>bu_condIncorrect := bu_condIncorrect u0 + 1\<rparr>)) (\<lambda>u.
     ebind (nthE (bu_predHist u) tid) (\<lambda>ph.
     case ph of
       [] \<Rightarrow> Inr u
     | e # es \<Rightarrow>
         assert_that ''pred_hist.front().seqNum == squashed_sn'' (ph_seqNum e = sn)
         (let u1 = (if ph_usedRAS e then u\<lparr>bu_RASIncorrect := bu_RASIncorrect u + 1\<rparr> else u) in
          ebind (d_getGHR ops tid (ph_bpHistory e)) (\<lambda>ghr.
          ebind (d_update ops tid (ph_pc e) actually_taken (ph_bpHistory e) True (bu_dir u1)) (\<lambda>s.
          let u2 = u1\<lparr>bu_dir := s\<rparr>; e1 = e\<lparr>ph_wasSquashed := True\<rparr> in
          ebind (if actually_taken then
                   ebind (if ph_wasReturn e1 \<and> \<not> ph_usedRAS e1
                          then ebind (upd_ras tid (\<lambda>r. Inr (ras_pop r)) u2) (\<lambda>u3. Inr (e1\<lparr>ph_usedRAS := True\<rparr>, u3))
                          else Inr (e1, u2)) (\<lambda>(e2, u3).
                   if ph_wasIndirect e2 then
                     ebind (recordTarget (instAddr isa) rnd (ph_seqNum e2) ghr corrTarget tid (bu_iPred u3)) (\<lambda>ip.
                       Inr (e2, u3\<lparr>bu_indirectMispredicted := bu_indirectMispredicted u3 + 1, bu_iPred := ip\<rparr>))
                   else ebind (btb_update (ph_pc e2) corrTarget tid (bu_BTB u3)) (\<lambda>b. Inr (e2, u3\<lparr>bu_BTB := b\<rparr>)))
                 else if ph_usedRAS e1 then
                   ebind (upd_ras tid (ras_restore (ph_RASIndex e1) (ph_RASTarget e1)) u2) (\<lambda>u3.
                     Inr (e1\<lparr>ph_usedRAS := False\<rparr>, u3))
                 else if ph_wasCall e1 \<and> ph_pushedRAS e1 then
                   ebind (upd_ras tid (\<lambda>r. Inr (ras_pop r)) u2) (\<lambda>u3. Inr (e1\<lparr>ph_pushedRAS := False\<rparr>, u3))
                 else Inr (e1, u2)) (\<lambda>(e3, u4).
            Inr (u4\<lparr>bu_predHist := (bu_predHist u4)[tid := e3 # es]\<rparr>)))))))"

end
