(* ===== verification/BPred_Props.thy ===== *)
theory BPred_Props
  imports BPred_Unit
begin

text \<open>
  Properties of the branch prediction unit: prediction never fails on a consistent unit, and a
  squash undoes any number of speculated branches. The lemmas are proved once for every direction
  predictor that satisfies the contract.
\<close>

subsection \<open>Return address stack\<close>

definition ras_ok :: "nat \<Rightarrow> 'pc ras \<Rightarrow> bool" where
  "ras_ok n r \<longleftrightarrow> 0 < n \<and> ras_numEntries r = n \<and> length (addrStack r) = n \<and> tos r < n"

text \<open>The entry at a depth below the top.\<close>

definition entry :: "'pc ras \<Rightarrow> nat \<Rightarrow> 'pc" where
  "entry r k = addrStack r ! ((tos r + ras_numEntries r - k) mod ras_numEntries r)"

definition agree :: "nat \<Rightarrow> nat \<Rightarrow> 'pc ras \<Rightarrow> 'pc ras \<Rightarrow> bool" where
  "agree n m r r' \<longleftrightarrow> ras_ok n r \<and> ras_ok n r' \<and> tos r' = tos r \<and> (\<forall>k < m. entry r' k = entry r k)"

lemma wrap_up: "(t :: nat) < n \<Longrightarrow> (if t + 1 = n then 0 else t + 1) = (t + 1) mod n"
  by auto

lemma wrap_down: "(t :: nat) < n \<Longrightarrow> (if t = 0 then n - 1 else t - 1) = (t + n - 1) mod n"
  by (auto simp: mod_if)

lemma ras_push_ok:
  assumes "ras_ok n r"
  shows "\<exists>r'. ras_push a r = Inr r' \<and> ras_ok n r' \<and> tos r' = (tos r + 1) mod n \<and>
    addrStack r' = (addrStack r)[(tos r + 1) mod n := a] \<and> ras_numEntries r' = n"
  using assms wrap_up [of "tos r" n]
  by (auto simp: ras_push_def incrTos_def ras_ok_def Let_def)

lemma ras_push_wf:
  assumes "ras_push a r = Inr r'" "ras_ok n r"
  shows "ras_ok n r'"
  using ras_push_ok [OF assms(2), of a] assms(1) by force

lemma ras_pop_ok:
  assumes "ras_ok n r"
  shows "ras_ok n (ras_pop r)" "tos (ras_pop r) = (tos r + n - 1) mod n" "addrStack (ras_pop r) = addrStack r"
    "ras_numEntries (ras_pop r) = n"
  using assms wrap_down [of "tos r" n] by (auto simp: ras_pop_def decrTos_def ras_ok_def)

lemma ras_restore_ok:
  "ras_ok n r \<Longrightarrow> i < n \<Longrightarrow> \<exists>r'. ras_restore i a r = Inr r' \<and> ras_ok n r' \<and> tos r' = i \<and>
     addrStack r' = (addrStack r)[i := a] \<and> ras_numEntries r' = n"
  by (auto simp: ras_restore_def ras_ok_def)

lemma mod_step: "t < n \<Longrightarrow> k < n \<Longrightarrow> ((t + 1) mod n + n - (k + 1)) mod n = (t + n - k) mod (n :: nat)"
  by (cases "t + 1 = n") (auto simp: mod_if)

lemma mod_back: "t < n \<Longrightarrow> k + 1 < n \<Longrightarrow> ((t + n - 1) mod n + n - k) mod n = (t + n - (k + 1)) mod (n :: nat)"
  by (cases "t = 0") (auto simp: mod_if)

lemma mod_up_down: "t < n \<Longrightarrow> ((t + 1) mod n + n - 1) mod n = (t :: nat)"
  by (cases "t + 1 = n") (auto simp: mod_if)

lemma mod_ne: "t < n \<Longrightarrow> k + 1 < n \<Longrightarrow> (t + 1) mod n \<noteq> (t + n - k) mod (n :: nat)"
  by (cases "t + 1 = n"; cases "k \<le> t") (auto simp: mod_if)

lemma mod_ne0: "t < n \<Longrightarrow> 0 < k \<Longrightarrow> k < n \<Longrightarrow> t \<noteq> (t + n - k) mod (n :: nat)"
  by (cases "k \<le> t") (auto simp: mod_if)

lemma agree_push_pop:
  assumes "ras_ok n r" "ras_push a r = Inr r1" "agree n m r1 r2" "m \<le> n"
  shows "agree n (m - 1) r (ras_pop r2)"
proof -
  have p: "ras_ok n r1" "tos r1 = (tos r + 1) mod n" "addrStack r1 = (addrStack r)[(tos r + 1) mod n := a]"
    using ras_push_ok [OF assms(1), of a] assms(2) by auto
  have r2: "ras_ok n r2" "tos r2 = tos r1" "\<And>k. k < m \<Longrightarrow> entry r2 k = entry r1 k" using assms(3) by (auto simp: agree_def)
  note q = ras_pop_ok [OF r2(1)]
  have t: "tos r < n" "length (addrStack r) = n" "ras_numEntries r = n" using assms(1) by (auto simp: ras_ok_def)
  have tq: "tos (ras_pop r2) = tos r" using q(2) r2(2) p(2) mod_up_down [OF t(1)] by simp
  have "entry (ras_pop r2) k = entry r k" if k: "k < m - 1" for k
  proof -
    have e: "entry (ras_pop r2) k = entry r2 (k + 1)"
      using k assms(4) mod_step [OF t(1), of k] tq q r2(1,2) p(2) by (simp add: entry_def ras_ok_def)
    have "entry r1 (k + 1) = addrStack r1 ! ((tos r + n - k) mod n)"
      using mod_step [OF t(1), of k] k assms(4) p(1,2) by (simp add: entry_def ras_ok_def)
    also have "\<dots> = entry r k" using mod_ne [OF t(1), of k] k assms(4) p(3) t by (simp add: entry_def)
    finally show ?thesis using e r2(3) [of "k + 1"] k by simp
  qed
  then show ?thesis using assms(1) q(1) tq by (simp add: agree_def)
qed

lemma agree_pop_restore:
  assumes "ras_ok n r" "agree n m (ras_pop r) r2" "ras_restore (tos r) (addrStack r ! tos r) r2 = Inr r3"
  shows "agree n (min n (m + 1)) r r3"
proof -
  have r2: "ras_ok n r2" "tos r2 = tos (ras_pop r)" "\<And>k. k < m \<Longrightarrow> entry r2 k = entry (ras_pop r) k"
    using assms(2) by (auto simp: agree_def)
  have t: "tos r < n" "length (addrStack r) = n" "ras_numEntries r = n" using assms(1) by (auto simp: ras_ok_def)
  note q = ras_pop_ok [OF assms(1)]
  have r3: "ras_ok n r3" "tos r3 = tos r" "addrStack r3 = (addrStack r2)[tos r := addrStack r ! tos r]" "ras_numEntries r3 = n"
    using ras_restore_ok [OF r2(1) t(1), of "addrStack r ! tos r"] assms(3) by auto
  have "entry r3 k = entry r k" if k: "k < min n (m + 1)" for k
  proof (cases k)
    case 0
    then show ?thesis using r3 t r2(1) by (simp add: entry_def ras_ok_def)
  next
    case (Suc j)
    then have "entry r3 k = addrStack r2 ! ((tos r + n - k) mod n)"
      using r3 t mod_ne0 [OF t(1), of k] k by (simp add: entry_def)
    also have "\<dots> = entry r2 j"
      using mod_back [OF t(1), of j] k Suc r2(1,2) q(2) by (simp add: entry_def ras_ok_def)
    also have "\<dots> = entry (ras_pop r) j" using r2(3) k Suc by simp
    also have "\<dots> = entry r k" using mod_back [OF t(1), of j] k Suc q t by (simp add: entry_def)
    finally show ?thesis .
  qed
  then show ?thesis using assms(1) r3 by (simp add: agree_def)
qed

lemma agree_refl: "ras_ok n r \<Longrightarrow> agree n m r r"
  by (simp add: agree_def)

lemma agree_trans: "agree n m r r1 \<Longrightarrow> agree n m' r1 r2 \<Longrightarrow> agree n (min m m') r r2"
  by (simp add: agree_def)

lemma agree_mono: "agree n m r r' \<Longrightarrow> m' \<le> m \<Longrightarrow> agree n m' r r'"
  by (simp add: agree_def)

subsection \<open>Consistent units\<close>

definition btb_ok :: "'pc btb \<Rightarrow> bool" where
  "btb_ok b \<longleftrightarrow> pow2sz (btb_numEntries b) \<and> length (btb_table b) = btb_numEntries b \<and>
     btb_idxMask b = of_nat (btb_numEntries b) - 1 \<and>
     btb_log2NumThreads b \<le> btb_tagShiftAmt b - btb_instShiftAmt b"

definition ip_ok :: "nat \<Rightarrow> 'pc ipred \<Rightarrow> bool" where
  "ip_ok n q \<longleftrightarrow> pow2sz (ip_numSets q) \<and> length (ip_targetCache q) = ip_numSets q \<and>
     length (ip_threadInfo q) = n \<and> (ip_hashTargets q \<longrightarrow> 0 < ip_pathLength q)"

lemma btb_index: "btb_ok b \<Longrightarrow> \<exists>i. btb_getIndex b a tid = Inr i \<and> i < btb_numEntries b"
  using and_size_less64 [of "btb_numEntries b"] by (auto simp: btb_getIndex_def btb_ok_def)

lemma btb_queries:
  assumes "btb_ok b"
  shows "\<exists>v. btb_valid a tid b = Inr v" "\<exists>v. btb_lookup z a tid b = Inr v"
  using btb_index [OF assms, of a tid] assms by (auto simp: btb_valid_def btb_lookup_def btb_ok_def)

lemma ip_index:
  assumes "ip_ok n q" "tid < n"
  shows "\<exists>i. ip_getSetIndex q a g tid = Inr i \<and> i < ip_numSets q"
proof -
  have p: "pow2sz (ip_numSets q)" "tid < length (ip_threadInfo q)" "ip_hashTargets q \<longrightarrow> 0 < ip_pathLength q"
    using assms by (auto simp: ip_ok_def)
  have "unat (of_nat (ip_numSets q) :: 64 word) = ip_numSets q" "0 < ip_numSets q"
    using pow2sz_less [OF p(1)] p(1) unfolding unsigned_of_nat by (auto simp: take_bit_nat_eq_self pow2sz_def)
  then have "(of_nat (ip_numSets q) :: 64 word) \<noteq> 0" by (metis unat_0 less_irrefl)
  from floorLog2_spec [OF this] obtain l where "floorLog2 (of_nat (ip_numSets q)) = Inr l" by blast
  then show ?thesis using p and_size_less64 [OF p(1)] by (auto simp: ip_getSetIndex_def Let_def)
qed

lemma ip_lookup_total: "ip_ok n q \<Longrightarrow> tid < n \<Longrightarrow> \<exists>v. ip_lookup a g tid q = Inr v"
  using ip_index [of n q tid a g] by (auto simp: ip_lookup_def ip_ok_def)

text \<open>The path history of a thread; the other parts of the indirect predictor are not touched by a
  prediction.\<close>

definition path_of :: "nat \<Rightarrow> 'pc ipred \<Rightarrow> hist_entry list" where
  "path_of tid q = pathHist (ip_threadInfo q ! tid)"

definition set_path :: "nat \<Rightarrow> hist_entry list \<Rightarrow> 'pc ipred \<Rightarrow> 'pc ipred" where
  "set_path tid h q = q\<lparr>ip_threadInfo := (ip_threadInfo q)[tid := (ip_threadInfo q ! tid)\<lparr>pathHist := h\<rparr>]\<rparr>"

lemma set_path_simps [simp]:
  "ip_ok n (set_path tid h q) = ip_ok n q" "set_path tid h' (set_path tid h q) = set_path tid h' q"
  "tid < length (ip_threadInfo q) \<Longrightarrow> path_of tid (set_path tid h q) = h"
proof -
  show "ip_ok n (set_path tid h q) = ip_ok n q" by (simp add: set_path_def ip_ok_def)
  show "set_path tid h' (set_path tid h q) = set_path tid h' q"
    by (cases "tid < length (ip_threadInfo q)") (simp_all add: set_path_def list_update_beyond)
  show "tid < length (ip_threadInfo q) \<Longrightarrow> path_of tid (set_path tid h q) = h" by (simp add: set_path_def path_of_def)
qed

lemma set_path_self: "tid < length (ip_threadInfo q) \<Longrightarrow> set_path tid (path_of tid q) q = q"
  by (simp add: set_path_def path_of_def)

lemma path_ops:
  assumes "ip_ok n q" "tid < n"
  shows "recordIndirect a tgt sn tid q = Inr (set_path tid (path_of tid q @ [\<lparr>he_pcAddr = a, he_targetAddr = tgt, he_seqNum = sn\<rparr>]) q)"
    "ip_squash sn tid q = Inr (set_path tid (takeWhile (\<lambda>e. \<not> he_seqNum e > sn) (path_of tid q)) q)"
  using assms by (simp_all add: recordIndirect_def ip_squash_def upd_thread_def ip_ok_def set_path_def path_of_def)

definition bpu_ok :: "(nat \<Rightarrow> 's \<Rightarrow> bool) \<Rightarrow> nat \<Rightarrow> nat \<Rightarrow> ('pc, 's, 'h) bpu \<Rightarrow> bool" where
  "bpu_ok dir_ok n m u \<longleftrightarrow> dir_ok n (bu_dir u) \<and> length (bu_predHist u) = n \<and> length (bu_RAS u) = n \<and>
     (\<forall>r \<in> set (bu_RAS u). ras_ok m r) \<and> btb_ok (bu_BTB u) \<and> ip_ok n (bu_iPred u)"

subsection \<open>What one prediction does to the stack\<close>

definition ras_effect :: "static_inst \<Rightarrow> ('pc, 'h) pred_history \<Rightarrow> 'pc ras \<Rightarrow> 'pc ras \<Rightarrow> bool" where
  "ras_effect inst e r r' \<longleftrightarrow>
     (if ph_usedRAS e then r' = ras_pop r \<and> ph_RASIndex e = tos r \<and> ph_RASTarget e = addrStack r ! tos r
      else if ph_wasCall e \<and> ph_pushedRAS e then isCall inst \<and> (\<exists>a. ras_push a r = Inr r')
      else r' = r \<or> isCall inst \<and> (\<exists>a r1. ras_push a r = Inr r1 \<and> r' = ras_pop r1))"

lemma ras_effect_ok: "ras_effect inst e r r' \<Longrightarrow> ras_ok n r \<Longrightarrow> ras_ok n r'"
  by (auto simp: ras_effect_def ras_pop_ok(1) split: if_splits dest: ras_push_wf intro: ras_pop_ok(1))

lemma undo_effect:
  assumes "ras_effect inst e r r1" "ras_ok n r" "agree n m r1 r2" "m \<le> n"
  shows "\<exists>r3. (if ph_usedRAS e then ras_restore (ph_RASIndex e) (ph_RASTarget e) r2
      else if ph_wasCall e \<and> ph_pushedRAS e then Inr (ras_pop r2) else Inr r2) = Inr r3 \<and>
    agree n (m - (if isCall inst then 1 else 0)) r r3"
proof (cases "ph_usedRAS e")
  case True
  then have e: "r1 = ras_pop r" "ph_RASIndex e = tos r" "ph_RASTarget e = addrStack r ! tos r"
    using assms(1) by (auto simp: ras_effect_def)
  obtain r3 where r3: "ras_restore (tos r) (addrStack r ! tos r) r2 = Inr r3"
    using ras_restore_ok [of n r2 "tos r"] assms(2,3) by (auto simp: agree_def ras_ok_def)
  have "agree n (min n (m + 1)) r r3" using agree_pop_restore [OF assms(2) _ r3] assms(3) e(1) by simp
  then have "agree n (m - (if isCall inst then 1 else 0)) r r3" by (rule agree_mono) (use assms(4) in auto)
  then show ?thesis using True e r3 by simp
next
  case F: False
  show ?thesis
  proof (cases "ph_wasCall e \<and> ph_pushedRAS e")
    case True
    then obtain a where "ras_push a r = Inr r1" "isCall inst" using assms(1) F by (auto simp: ras_effect_def)
    then show ?thesis using agree_push_pop [OF assms(2) _ assms(3,4)] True F by auto
  next
    case False
    then consider "r1 = r" | a r0 where "ras_push a r = Inr r0" "r1 = ras_pop r0" "isCall inst"
      using assms(1) F by (auto simp: ras_effect_def)
    then show ?thesis
    proof cases
      case 1
      then show ?thesis using False F assms(3) agree_mono [of n m r r2 "m - 1"] by auto
    next
      case 2
      have "ras_ok n r0" using ras_push_ok [OF assms(2), of a] 2(1) by auto
      then have "agree n (n - 1) r r1" using agree_push_pop [OF assms(2) 2(1) agree_refl order_refl] 2(2) by simp
      from agree_trans [OF this assms(3)] have "agree n (m - 1) r r2" by (rule agree_mono) (use assms(4) in auto)
      then show ?thesis using False F 2(3) by auto
    qed
  qed
qed

subsection \<open>One prediction\<close>

text \<open>The parts of a unit that a prediction leaves alone.\<close>

definition same_rest :: "('pc, 's, 'h) bpu \<Rightarrow> ('pc, 's, 'h) bpu \<Rightarrow> bool" where
  "same_rest u u' \<longleftrightarrow> bu_predHist u' = bu_predHist u \<and> bu_BTB u' = bu_BTB u \<and> bu_useIndirect u' = bu_useIndirect u"

lemma upd_ras_ok:
  assumes "tid < length (bu_RAS u)" "f (bu_RAS u ! tid) = Inr r"
  shows "upd_ras tid f u = Inr (u\<lparr>bu_RAS := (bu_RAS u)[tid := r]\<rparr>)"
  using assms by (simp add: upd_ras_def)

definition pred_effect ::
  "('s, 'h) dir_ops \<Rightarrow> static_inst \<Rightarrow> nat \<Rightarrow> 64 word \<Rightarrow> 's \<Rightarrow> ('pc, 'h) pred_history \<Rightarrow> ('pc, 's, 'h) bpu \<Rightarrow> ('pc, 's, 'h) bpu \<Rightarrow> bool" where
  "pred_effect ops inst tid sn s e u u' \<longleftrightarrow> same_rest u u' \<and> speculates ops tid s (ph_bpHistory e) (bu_dir u') \<and>
     ph_seqNum e = sn \<and>
     (\<exists>r. bu_RAS u' = (bu_RAS u)[tid := r] \<and> ras_effect inst e (bu_RAS u ! tid) r) \<and>
     (\<exists>new. (\<forall>x \<in> set new. he_seqNum x = sn) \<and> bu_iPred u' = set_path tid (path_of tid (bu_iPred u) @ new) (bu_iPred u))"

text \<open>The situation after a possible push for a call, and after it was possibly undone.\<close>

definition called :: "bool \<Rightarrow> static_inst \<Rightarrow> nat \<Rightarrow> ('pc, 'h) pred_history \<Rightarrow> ('pc, 's, 'h) bpu \<Rightarrow> ('pc, 'h) pred_history \<Rightarrow>
    ('pc, 's, 'h) bpu \<Rightarrow> bool" where
  "called strict inst tid e u e' u' \<longleftrightarrow> same_rest u u' \<and> bu_dir u' = bu_dir u \<and> bu_iPred u' = bu_iPred u \<and>
     ph_bpHistory e' = ph_bpHistory e \<and> ph_seqNum e' = ph_seqNum e \<and> \<not> ph_usedRAS e' \<and>
     (\<exists>r. bu_RAS u' = (bu_RAS u)[tid := r] \<and> ras_effect inst e' (bu_RAS u ! tid) r \<and>
        (strict \<and> isCall inst \<longrightarrow> ph_wasCall e' \<and> ph_pushedRAS e'))"

definition fresh_entry :: "('pc, 'h) pred_history \<Rightarrow> bool" where
  "fresh_entry e \<longleftrightarrow> \<not> ph_usedRAS e \<and> \<not> ph_pushedRAS e \<and> \<not> ph_wasCall e"

lemma predict_call_ok:
  assumes "bpu_ok ok n m u" "tid < n" "fresh_entry e"
  shows "\<exists>e1 u1. predict_call inst pc tid e u = Inr (e1, u1) \<and> called True inst tid e u e1 u1"
proof -
  have t: "tid < length (bu_RAS u)" "ras_ok m (bu_RAS u ! tid)" using assms by (auto simp: bpu_ok_def)
  obtain r where r: "ras_push pc (bu_RAS u ! tid) = Inr r" using ras_push_ok [OF t(2)] by blast
  show ?thesis
  proof (cases "isCall inst")
    case True
    then show ?thesis using upd_ras_ok [OF t(1), of "ras_push pc" r] r assms(3)
      by (auto simp: predict_call_def called_def same_rest_def ras_effect_def fresh_entry_def)
  next
    case False
    then show ?thesis using assms(3)
      by (auto simp: predict_call_def called_def same_rest_def ras_effect_def fresh_entry_def intro!: exI [of _ "bu_RAS u ! tid"])
  qed
qed

lemma undo_call_ok:
  assumes "called True inst tid e u e1 u1" "bpu_ok ok n m u" "tid < n"
  shows "\<exists>e2 u2. undo_call inst tid e1 u1 = Inr (e2, u2) \<and> called False inst tid e u e2 u2 \<and> ph_wasIndirect e2 = ph_wasIndirect e1"
proof (cases "isCall inst \<and> \<not> isUncondCtrl inst")
  case True
  have t: "tid < length (bu_RAS u)" using assms by (auto simp: bpu_ok_def)
  obtain r where r: "bu_RAS u1 = (bu_RAS u)[tid := r]" "ras_effect inst e1 (bu_RAS u ! tid) r" "ph_wasCall e1" "ph_pushedRAS e1" "\<not> ph_usedRAS e1"
    using assms(1) True by (auto simp: called_def)
  have "upd_ras tid (\<lambda>r. Inr (ras_pop r)) u1 = Inr (u1\<lparr>bu_RAS := (bu_RAS u)[tid := ras_pop r]\<rparr>)"
    using r(1) t by (simp add: upd_ras_def)
  moreover have "ras_effect inst (e1\<lparr>ph_pushedRAS := False\<rparr>) (bu_RAS u ! tid) (ras_pop r)"
    using r(2-5) by (auto simp: ras_effect_def)
  ultimately show ?thesis using True assms(1)
    by (simp add: undo_call_def) (auto simp: called_def same_rest_def)
next
  case False
  then show ?thesis using assms(1) by (auto simp: undo_call_def called_def)
qed

lemma path_self: "ip_ok n q \<Longrightarrow> tid < n \<Longrightarrow> set_path tid (path_of tid q @ []) q = q"
  by (simp add: set_path_self ip_ok_def)

lemma called_effect:
  assumes "called b inst tid e u e1 u1" "bu_dir u2 = s'" "speculates ops tid s (ph_bpHistory e) s'" "ph_seqNum e = sn"
    "same_rest u1 u2" "bu_RAS u2 = bu_RAS u1" "\<forall>x \<in> set new. he_seqNum x = sn"
    "bu_iPred u2 = set_path tid (path_of tid (bu_iPred u) @ new) (bu_iPred u)"
  shows "pred_effect ops inst tid sn s e1 u u2"
  using assms by (auto simp: called_def pred_effect_def same_rest_def)

text \<open>A series of branches fetched by one thread, and the number of calls among them.\<close>

fun predict_all :: "'pc isa \<Rightarrow> ('s, 'h) dir_ops \<Rightarrow> nat \<Rightarrow> (static_inst \<times> 64 word \<times> 'pc) list \<Rightarrow> ('pc, 's, 'h) bpu \<Rightarrow> ('pc, 's, 'h) bpu result" where
  "predict_all isa ops tid [] u = Inr u"
| "predict_all isa ops tid ((inst, sn, pc) # bs) u =
     ebind (predict isa ops inst sn pc tid u) (\<lambda>(taken, target, u1). predict_all isa ops tid bs u1)"

fun calls :: "(static_inst \<times> 64 word \<times> 'pc) list \<Rightarrow> nat" where
  "calls [] = 0"
| "calls ((inst, sn, pc) # bs) = calls bs + (if isCall inst then 1 else 0)"

context direction_predictor
begin

lemma predict_direction_ok:
  assumes "bpu_ok wf n m u" "tid < n"
  shows "\<exists>taken h u1. predict_direction ops inst a tid u = Inr (taken, h, u1) \<and>
    speculates ops tid (bu_dir u) h (bu_dir u1) \<and> hist_ok h \<and> same_rest u u1 \<and> bu_RAS u1 = bu_RAS u \<and> bu_iPred u1 = bu_iPred u"
proof -
  have w: "wf n (bu_dir u)" using assms(1) by (simp add: bpu_ok_def)
  show ?thesis
  proof (cases "isUncondCtrl inst")
    case True
    obtain h s where s: "d_uncond ops tid a (bu_dir u) = Inr (h, s)" using uncond_total [OF w assms(2)] by blast
    then show ?thesis using True sp_uncond [OF s] uncond_wf [OF w assms(2) s]
      by (intro exI [of _ True] exI [of _ h] exI [of _ "u\<lparr>bu_lookups := bu_lookups u + 1, bu_dir := s\<rparr>"])
        (simp add: predict_direction_def same_rest_def)
  next
    case False
    obtain tk h s where s: "d_lookup ops tid a (bu_dir u) = Inr (tk, h, s)" using lookup_total [OF w assms(2)] by blast
    then show ?thesis using False sp_lookup [OF s] lookup_wf [OF w assms(2) s]
      by (intro exI [of _ tk] exI [of _ h]
            exI [of _ "u\<lparr>bu_lookups := bu_lookups u + 1, bu_condPredicted := bu_condPredicted u + 1, bu_dir := s\<rparr>"])
        (simp add: predict_direction_def same_rest_def)
  qed
qed

lemma bpu_ok_keep:
  assumes "bpu_ok wf n m u" "pred_effect ops inst tid sn s e u u'" "tid < n" "wf n s"
  shows "bpu_ok wf n m u' \<and> hist_ok (ph_bpHistory e)"
proof -
  obtain r new where u': "same_rest u u'" "speculates ops tid s (ph_bpHistory e) (bu_dir u')"
    "bu_RAS u' = (bu_RAS u)[tid := r]" "ras_effect inst e (bu_RAS u ! tid) r"
    "bu_iPred u' = set_path tid (path_of tid (bu_iPred u) @ new) (bu_iPred u)"
    using assms(2) by (auto simp: pred_effect_def)
  have r0: "ras_ok m (bu_RAS u ! tid)" using assms(1,3) by (auto simp: bpu_ok_def)
  have "ras_ok m r" using ras_effect_ok [OF u'(4) r0] .
  then have "\<forall>x \<in> set (bu_RAS u'). ras_ok m x"
    using assms(1) set_update_subset_insert [of "bu_RAS u" tid r] unfolding u'(3) bpu_ok_def by blast
  then show ?thesis using assms(1) speculates_wf [OF u'(2) assms(4,3)] u'(1,3,5)
    by (simp add: bpu_ok_def same_rest_def)
qed

lemma predict_btb_ok:
  assumes "called True inst tid e u e1 u1" "bpu_ok wf n m u" "tid < n" "wf n s" "speculates ops tid s (ph_bpHistory e) (bu_dir u)"
    "ph_seqNum e = sn"
  shows "\<exists>tk tg e2 u2. predict_btb isa ops inst pc tid e1 u1 = Inr (tk, tg, e2, u2) \<and> pred_effect ops inst tid sn s e2 u u2"
proof -
  have c: "bu_BTB u1 = bu_BTB u" "bu_dir u1 = bu_dir u" "bu_iPred u1 = bu_iPred u" using assms(1) by (auto simp: called_def same_rest_def)
  have ok: "btb_ok (bu_BTB u1)" "ip_ok n (bu_iPred u)" "wf n (bu_dir u)" using assms(2) c by (auto simp: bpu_ok_def)
  note S = path_self [OF ok(2) assms(3)]
  obtain v w where v: "btb_valid (instAddr isa pc) tid (bu_BTB u1) = Inr v"
    "btb_lookup (pc_zero isa) (instAddr isa pc) tid (bu_BTB u1) = Inr w"
    using btb_queries [OF ok(1)] by blast
  consider "v" | "\<not> v" "\<not> isCall inst \<and> \<not> isReturn inst" | "\<not> v" "\<not> (\<not> isCall inst \<and> \<not> isReturn inst)" by blast
  then show ?thesis
  proof cases
    case 1
    have "pred_effect ops inst tid sn s e1 u (u1\<lparr>bu_BTBHits := bu_BTBHits u1 + 1\<rparr>)"
      by (rule called_effect [OF assms(1) _ assms(5,6), of _ "[]"]) (use c S in \<open>auto simp: same_rest_def\<close>)
    then show ?thesis using 1 v by (simp add: predict_btb_def) blast
  next
    case 2
    obtain s1 where s1: "d_btbUpdate ops tid (instAddr isa pc) (bu_dir u) = Inr s1"
      using btb_total [OF ok(3) assms(3)] by blast
    have "pred_effect ops inst tid sn s e1 u (u1\<lparr>bu_dir := s1\<rparr>)"
      by (rule called_effect [OF assms(1) _ sp_btb [OF assms(5) s1] assms(6), of _ "[]"]) (use c S in \<open>auto simp: same_rest_def\<close>)
    then show ?thesis using 2 v s1 c by (simp add: predict_btb_def) blast
  next
    case 3
    obtain e2 u2 where e2: "undo_call inst tid e1 u1 = Inr (e2, u2)" "called False inst tid e u e2 u2"
      using undo_call_ok [OF assms(1-3)] by blast
    have "pred_effect ops inst tid sn s e2 u u2"
      by (rule called_effect [OF e2(2) _ assms(5,6), of _ "[]"]) (use e2(2) S in \<open>auto simp: same_rest_def called_def\<close>)
    then show ?thesis using 3 v e2 by (simp add: predict_btb_def) blast
  qed
qed

lemma predict_indirect_ok:
  assumes "called True inst tid e u e1 u1" "bpu_ok wf n m u" "tid < n" "wf n s" "speculates ops tid s (ph_bpHistory e) (bu_dir u)"
    "ph_seqNum e = sn" "hist_ok (ph_bpHistory e)"
  shows "\<exists>tk tg e2 u2. predict_indirect isa ops inst sn pc tid e1 u1 = Inr (tk, tg, e2, u2) \<and> pred_effect ops inst tid sn s e2 u u2"
proof -
  let ?e = "e1\<lparr>ph_wasIndirect := True\<rparr>" and ?u = "u1\<lparr>bu_indirectLookups := bu_indirectLookups u1 + 1\<rparr>"
  have c: "ph_bpHistory e1 = ph_bpHistory e" "bu_dir u1 = bu_dir u" "bu_iPred u1 = bu_iPred u"
    using assms(1) by (auto simp: called_def same_rest_def)
  have c': "called True inst tid e u ?e ?u" "called True inst tid e u ?e (?u\<lparr>bu_indirectMisses := bu_indirectMisses u1 + 1\<rparr>)"
    "called False inst tid e u ?e (?u\<lparr>bu_indirectMisses := bu_indirectMisses u1 + 1\<rparr>)"
    using assms(1) by (auto simp: called_def same_rest_def ras_effect_def)
  have ok: "ip_ok n (bu_iPred u)" using assms(2) by (simp add: bpu_ok_def)
  obtain g where g: "d_getGHR ops tid (ph_bpHistory e) = Inr g" using ghr_total [OF assms(7)] by blast
  obtain hit where hit: "ip_lookup (instAddr isa pc) g tid (bu_iPred u) = Inr hit" using ip_lookup_total [OF ok assms(3)] by blast
  note R = path_ops(1) [OF ok assms(3)]
  show ?thesis
  proof (cases hit)
    case (Some tg)
    let ?q = "set_path tid (path_of tid (bu_iPred u) @ [\<lparr>he_pcAddr = instAddr isa pc, he_targetAddr = instAddr isa tg, he_seqNum = sn\<rparr>]) (bu_iPred u)"
    have "pred_effect ops inst tid sn s ?e u (?u\<lparr>bu_indirectHits := bu_indirectHits u1 + 1, bu_iPred := ?q\<rparr>)"
      by (rule called_effect [OF c'(1) _ assms(5,6)]) (use c in \<open>auto simp: same_rest_def\<close>)
    then show ?thesis using Some g hit c R by (simp add: predict_indirect_def) blast
  next
    case None
    let ?um = "?u\<lparr>bu_indirectMisses := bu_indirectMisses u1 + 1\<rparr>"
    obtain e2 u2 where e2: "(if \<not> isCall inst \<and> \<not> isReturn inst then Inr (?e, ?um) else undo_call inst tid ?e ?um) = Inr (e2, u2)"
      "called False inst tid e u e2 u2"
      using undo_call_ok [OF c'(2) assms(2,3)] c'(3) by (cases "\<not> isCall inst \<and> \<not> isReturn inst") auto
    let ?q = "set_path tid (path_of tid (bu_iPred u) @ [\<lparr>he_pcAddr = instAddr isa pc,
        he_targetAddr = instAddr isa (advancePC isa inst pc), he_seqNum = sn\<rparr>]) (bu_iPred u)"
    have q: "bu_iPred u2 = bu_iPred u" "bu_dir u2 = bu_dir u" using e2(2) by (auto simp: called_def)
    have "pred_effect ops inst tid sn s e2 u (u2\<lparr>bu_iPred := ?q\<rparr>)"
      by (rule called_effect [OF e2(2) _ assms(5,6)]) (use q in \<open>auto simp: same_rest_def\<close>)
    moreover have "predict_indirect isa ops inst sn pc tid e1 u1 = Inr (False, advancePC isa inst pc, e2, u2\<lparr>bu_iPred := ?q\<rparr>)"
      using None g hit c R e2(1) q
      by (cases "\<not> isCall inst \<and> \<not> isReturn inst") (auto simp: predict_indirect_def Let_def)
    ultimately show ?thesis by blast
  qed
qed

lemma predict_target_ok:
  assumes "bpu_ok wf n m u" "tid < n" "wf n s" "speculates ops tid s (ph_bpHistory e) (bu_dir u)"
    "ph_seqNum e = sn" "hist_ok (ph_bpHistory e)" "fresh_entry e"
  shows "\<exists>tk tg e2 u2. predict_target isa ops inst sn pc tid taken e u = Inr (tk, tg, e2, u2) \<and> pred_effect ops inst tid sn s e2 u u2"
proof -
  let ?u = "u\<lparr>bu_BTBLookups := bu_BTBLookups u + 1\<rparr>"
  have ok: "bpu_ok wf n m ?u" "ip_ok n (bu_iPred u)" "tid < length (bu_RAS u)" "ras_ok m (bu_RAS u ! tid)"
    using assms(1,2) by (auto simp: bpu_ok_def)
  note S = path_self [OF ok(2) assms(2)]
  have eff: "pred_effect ops inst tid sn s e' ?u u' \<Longrightarrow> pred_effect ops inst tid sn s e' u u'" for e' u'
    by (simp add: pred_effect_def same_rest_def)
  consider "\<not> taken" | "taken" "isReturn inst" | "taken" "\<not> isReturn inst" by blast
  then show ?thesis
  proof cases
    case 1
    have "pred_effect ops inst tid sn s (if isReturn inst then e\<lparr>ph_wasReturn := True\<rparr> else e) u u"
      using assms S by (auto simp: pred_effect_def same_rest_def ras_effect_def fresh_entry_def
          intro!: exI [of _ "bu_RAS u ! tid"] exI [of _ "[]"])
    then show ?thesis using 1 by (intro exI [of _ False]) (simp add: predict_target_def)
  next
    case 2
    let ?r = "bu_RAS u ! tid"
    let ?e = "e\<lparr>ph_wasReturn := True, ph_usedRAS := True, ph_RASIndex := tos ?r, ph_RASTarget := addrStack ?r ! tos ?r\<rparr>"
    let ?v = "u\<lparr>bu_usedRAS := bu_usedRAS u + 1, bu_RAS := (bu_RAS u)[tid := ras_pop ?r]\<rparr>"
    have top: "ras_top ?r = Inr (addrStack ?r ! tos ?r)" using ok(4) by (simp add: ras_top_def ras_ok_def)
    have "predict_target isa ops inst sn pc tid taken e u = Inr (True, buildRetPC isa pc (addrStack ?r ! tos ?r), ?e, ?v)"
      using 2 ok(3) top by (simp add: predict_target_def predict_return_def upd_ras_def)
    moreover have "pred_effect ops inst tid sn s ?e u ?v"
      using assms S by (auto simp: pred_effect_def same_rest_def ras_effect_def intro!: exI [of _ "ras_pop ?r"] exI [of _ "[]"])
    ultimately show ?thesis by blast
  next
    case 3
    obtain e1 u1 where c: "predict_call inst pc tid e ?u = Inr (e1, u1)" "called True inst tid e ?u e1 u1"
      using predict_call_ok [OF ok(1) assms(2,7)] by blast
    show ?thesis
      using predict_btb_ok [OF c(2) ok(1) assms(2,3) _ assms(5), of isa pc] assms(4)
        predict_indirect_ok [OF c(2) ok(1) assms(2,3) _ assms(5,6), of isa pc] c(1) 3 eff
      by (simp add: predict_target_def) blast
  qed
qed

lemma predict_ok:
  assumes "bpu_ok wf n m u" "tid < n"
  shows "\<exists>tk tg u2 e u'. predict isa ops inst sn pc tid u = Inr (tk, tg, u') \<and> bpu_ok wf n m u' \<and>
    u' = u2\<lparr>bu_predHist := (bu_predHist u)[tid := e # bu_predHist u ! tid]\<rparr> \<and> pred_effect ops inst tid sn (bu_dir u) e u u2"
proof -
  have w: "wf n (bu_dir u)" using assms(1) by (simp add: bpu_ok_def)
  obtain taken h u1 where u1: "predict_direction ops inst (instAddr isa pc) tid u = Inr (taken, h, u1)"
    "speculates ops tid (bu_dir u) h (bu_dir u1)" "hist_ok h" "same_rest u u1" "bu_RAS u1 = bu_RAS u" "bu_iPred u1 = bu_iPred u"
    using predict_direction_ok [OF assms] by blast
  let ?e = "new_pred_history (pc_zero isa) sn (instAddr isa pc) taken h tid"
  have ok1: "bpu_ok wf n m u1" using assms(1) u1(4-6) speculates_wf [OF u1(2) w assms(2)]
    by (simp add: bpu_ok_def same_rest_def)
  obtain tk tg e u2 where e: "predict_target isa ops inst sn pc tid taken ?e u1 = Inr (tk, tg, e, u2)"
    "pred_effect ops inst tid sn (bu_dir u) e u1 u2"
    using predict_target_ok [OF ok1 assms(2) w, of ?e sn isa inst pc taken] u1(2,3)
    by (auto simp: new_pred_history_def fresh_entry_def)
  have eff: "pred_effect ops inst tid sn (bu_dir u) e u u2"
    using e(2) u1(4-6) by (simp add: pred_effect_def same_rest_def)
  have ph: "bu_predHist u2 = bu_predHist u" "tid < length (bu_predHist u)"
    using eff assms by (auto simp: pred_effect_def same_rest_def bpu_ok_def)
  have "predict isa ops inst sn pc tid u = Inr (tk, tg, u2\<lparr>bu_predHist := (bu_predHist u)[tid := e # bu_predHist u ! tid]\<rparr>)"
    using u1(1) e(1) ph by (simp add: predict_def)
  moreover have "bpu_ok wf n m (u2\<lparr>bu_predHist := (bu_predHist u)[tid := e # bu_predHist u ! tid]\<rparr>)"
    using bpu_ok_keep [OF assms(1) eff assms(2) w] ph(1) by (simp add: bpu_ok_def)
  ultimately show ?thesis using eff by blast
qed

lemma predict_all_undo:
  assumes "bpu_ok wf n m u" "tid < n" "\<forall>(inst, sq, pc) \<in> set bs. sq > sn"
  shows "\<exists>u'. predict_all isa ops tid bs u = Inr u' \<and> bpu_ok wf n m u' \<and> bu_BTB u' = bu_BTB u \<and>
    bu_useIndirect u' = bu_useIndirect u \<and>
    (\<exists>es. bu_predHist u' = (bu_predHist u)[tid := es]) \<and> (\<exists>r. bu_RAS u' = (bu_RAS u)[tid := r]) \<and>
    (\<exists>new. (\<forall>x \<in> set new. he_seqNum x > sn) \<and> bu_iPred u' = set_path tid (path_of tid (bu_iPred u) @ new) (bu_iPred u)) \<and>
    (\<exists>r' s'. squash_hist ops sn tid (bu_predHist u' ! tid) (bu_RAS u' ! tid) (bu_dir u') =
         squash_hist ops sn tid (bu_predHist u ! tid) r' s' \<and>
       agree m (m - calls bs) (bu_RAS u ! tid) r' \<and> wf n s' \<and> obs s' = obs (bu_dir u))"
  using assms
proof (induction bs arbitrary: u)
  case Nil
  then have "ras_ok m (bu_RAS u ! tid)" "ip_ok n (bu_iPred u)" "wf n (bu_dir u)" by (auto simp: bpu_ok_def)
  moreover have "\<exists>es. bu_predHist u = (bu_predHist u)[tid := es]" "\<exists>r. bu_RAS u = (bu_RAS u)[tid := r]"
    by (metis list_update_id)+
  ultimately show ?case using Nil path_self [of n "bu_iPred u" tid]
    by (fastforce intro: agree_refl exI [of _ "[]"])
next
  case (Cons b bs)
  obtain inst sq pc where b: "b = (inst, sq, pc)" by (cases b)
  obtain tk tg u2 e u1 where p: "predict isa ops inst sq pc tid u = Inr (tk, tg, u1)" "bpu_ok wf n m u1"
    "u1 = u2\<lparr>bu_predHist := (bu_predHist u)[tid := e # bu_predHist u ! tid]\<rparr>" "pred_effect ops inst tid sq (bu_dir u) e u u2"
    using predict_ok [OF Cons(2,3)] by blast
  obtain u' r' s' es r new where I: "predict_all isa ops tid bs u1 = Inr u'" "bpu_ok wf n m u'" "bu_BTB u' = bu_BTB u1"
    "bu_useIndirect u' = bu_useIndirect u1" "bu_predHist u' = (bu_predHist u1)[tid := es]" "bu_RAS u' = (bu_RAS u1)[tid := r]"
    "\<forall>x \<in> set new. he_seqNum x > sn" "bu_iPred u' = set_path tid (path_of tid (bu_iPred u1) @ new) (bu_iPred u1)"
    "squash_hist ops sn tid (bu_predHist u' ! tid) (bu_RAS u' ! tid) (bu_dir u') = squash_hist ops sn tid (bu_predHist u1 ! tid) r' s'"
    "agree m (m - calls bs) (bu_RAS u1 ! tid) r'" "wf n s'" "obs s' = obs (bu_dir u1)"
    using Cons(1) [OF p(2) Cons(3)] Cons(4) by auto
  obtain r1 new1 where E: "same_rest u u2" "speculates ops tid (bu_dir u) (ph_bpHistory e) (bu_dir u2)" "ph_seqNum e = sq"
    "bu_RAS u2 = (bu_RAS u)[tid := r1]" "ras_effect inst e (bu_RAS u ! tid) r1" "\<forall>x \<in> set new1. he_seqNum x = sq"
    "bu_iPred u2 = set_path tid (path_of tid (bu_iPred u) @ new1) (bu_iPred u)"
    using p(4) by (auto simp: pred_effect_def)
  have t: "tid < length (bu_predHist u)" "tid < length (bu_RAS u)" "ras_ok m (bu_RAS u ! tid)" "wf n (bu_dir u)"
    "tid < length (ip_threadInfo (bu_iPred u))"
    using Cons(2,3) by (auto simp: bpu_ok_def ip_ok_def)
  have u1: "bu_predHist u1 ! tid = e # bu_predHist u ! tid" "bu_RAS u1 ! tid = r1" "bu_dir u1 = bu_dir u2" "sq > sn"
    using p(3) t E(4) Cons(4) b by auto
  have ag: "agree m (m - calls bs) r1 r'" using I(10) u1(2) by simp
  obtain r3 where r3: "(if ph_usedRAS e then ras_restore (ph_RASIndex e) (ph_RASTarget e) r'
      else if ph_wasCall e \<and> ph_pushedRAS e then Inr (ras_pop r') else Inr r') = Inr r3"
    "agree m (m - calls (b # bs)) (bu_RAS u ! tid) r3"
    using undo_effect [OF E(5) t(3) ag] b by auto
  obtain s3 where s3: "d_squash ops tid (ph_bpHistory e) s' = Inr s3" "wf n s3" "obs s3 = obs (bu_dir u)"
    using squash_restores [OF t(4) Cons(3) E(2) I(11)] I(12) u1(3) by auto
  have sq: "squash_hist ops sn tid (e # bu_predHist u ! tid) r' s' = squash_hist ops sn tid (bu_predHist u ! tid) r3 s3"
    using E(3) u1(4) r3(1) s3(1) by simp
  have path: "bu_iPred u' = set_path tid (path_of tid (bu_iPred u) @ new1 @ new) (bu_iPred u)"
    "\<forall>x \<in> set (new1 @ new). he_seqNum x > sn"
    using I(7,8) E(6,7) p(3) t(5) u1(4) by auto
  have chain: "\<exists>r' s'. squash_hist ops sn tid (bu_predHist u' ! tid) (bu_RAS u' ! tid) (bu_dir u') =
      squash_hist ops sn tid (bu_predHist u ! tid) r' s' \<and>
      agree m (m - calls (b # bs)) (bu_RAS u ! tid) r' \<and> wf n s' \<and> obs s' = obs (bu_dir u)"
    using I(9) sq u1(1) r3(2) s3 by (metis (no_types))
  have "predict_all isa ops tid (b # bs) u = Inr u'" using p(1) I(1) b by simp
  moreover have "bu_BTB u' = bu_BTB u" "bu_useIndirect u' = bu_useIndirect u"
    "bu_predHist u' = (bu_predHist u)[tid := es]" "bu_RAS u' = (bu_RAS u)[tid := r]"
    using I(3-6) p(3) E(1,4) by (auto simp: same_rest_def)
  ultimately show ?case using I(2) path chain by blast
qed

lemma squash_all:
  assumes "bpu_ok wf n m u" "tid < n" "\<forall>(inst, sq, pc) \<in> set bs. sq > sn"
    "\<forall>x \<in> set (path_of tid (bu_iPred u)). he_seqNum x \<le> sn" "\<forall>e \<in> set (bu_predHist u ! tid). ph_seqNum e \<le> sn"
  shows "\<exists>u1 u2. predict_all isa ops tid bs u = Inr u1 \<and> bu_squash ops sn tid u1 = Inr u2 \<and> bpu_ok wf n m u2 \<and>
    bu_predHist u2 = bu_predHist u \<and> bu_BTB u2 = bu_BTB u \<and> bu_iPred u2 = bu_iPred u \<and> obs (bu_dir u2) = obs (bu_dir u) \<and>
    (\<exists>r. bu_RAS u2 = (bu_RAS u)[tid := r] \<and> agree m (m - calls bs) (bu_RAS u ! tid) r)"
proof -
  obtain u1 r' s' es r new where I: "predict_all isa ops tid bs u = Inr u1" "bpu_ok wf n m u1" "bu_BTB u1 = bu_BTB u"
    "bu_predHist u1 = (bu_predHist u)[tid := es]" "bu_RAS u1 = (bu_RAS u)[tid := r]"
    "\<forall>x \<in> set new. he_seqNum x > sn" "bu_iPred u1 = set_path tid (path_of tid (bu_iPred u) @ new) (bu_iPred u)"
    "squash_hist ops sn tid (bu_predHist u1 ! tid) (bu_RAS u1 ! tid) (bu_dir u1) = squash_hist ops sn tid (bu_predHist u ! tid) r' s'"
    "agree m (m - calls bs) (bu_RAS u ! tid) r'" "wf n s'" "obs s' = obs (bu_dir u)"
    using predict_all_undo [OF assms(1-3)] by blast
  have t: "ip_ok n (bu_iPred u1)" "tid < length (bu_predHist u)" "tid < length (bu_RAS u)" "tid < length (ip_threadInfo (bu_iPred u))"
    using assms(1,2) I(2) by (auto simp: bpu_ok_def ip_ok_def)
  have "path_of tid (bu_iPred u1) = path_of tid (bu_iPred u) @ new" using I(7) t(4) by simp
  then have "takeWhile (\<lambda>e. \<not> he_seqNum e > sn) (path_of tid (bu_iPred u1)) = path_of tid (bu_iPred u)"
    using assms(4) I(6) by (cases new) (auto simp: takeWhile_append not_less)
  then have ip: "ip_squash sn tid (bu_iPred u1) = Inr (bu_iPred u)"
    using path_ops(2) [OF t(1) assms(2)] I(7) set_path_self [OF t(4)] by simp
  have stop: "squash_hist ops sn tid (bu_predHist u ! tid) r' s' = Inr (bu_predHist u ! tid, r', s')"
    using assms(5) by (cases "bu_predHist u ! tid") (auto simp: not_less)
  let ?u2 = "u1\<lparr>bu_iPred := bu_iPred u, bu_predHist := bu_predHist u, bu_RAS := (bu_RAS u)[tid := r'], bu_dir := s'\<rparr>"
  have "bu_squash ops sn tid u1 = Inr ?u2"
    using ip I(8) stop t(2,3) I(4,5) by (simp add: bu_squash_def)
  moreover have "bpu_ok wf n m ?u2"
    using assms(1) I(2,3,9,10) set_update_subset_insert [of "bu_RAS u" tid r'] by (auto simp: bpu_ok_def agree_def)
  ultimately show ?thesis using I(1,3,9,11) by auto
qed

end

subsection \<open>Construction\<close>

lemma mask_of_size:
  assumes "k < 32"
  shows "(ucast (bf_mask k) :: 32 word) = of_nat (2 ^ k) - 1"
proof -
  have "(ucast (mask k :: 64 word) :: 32 word) = mask k"
    by (rule bit_word_eqI) (use assms in \<open>auto simp: bit_ucast_iff bit_mask_iff\<close>)
  then show ?thesis using assms by (simp add: bf_mask_eq mask_eq_exp_minus_1)
qed

lemma new_tournament_wf:
  assumes "new_tournament shift n lsz lbits lhsz gsz gbits csz cbits = Inr t" "lsz < 2 ^ 32" "lhsz < 2 ^ 32" "gsz < 2 ^ 32" "csz < 2 ^ 32"
  shows "tb_wf n t"
proof -
  have P: "isPowerOf2 (of_nat lsz)" "isPowerOf2 (of_nat lhsz)" "isPowerOf2 (of_nat gsz)" "isPowerOf2 (of_nat csz)"
    using assms(1) by (auto simp: new_tournament_def Let_def result_iffs split: if_splits)
  note Z = pow2sz_size [OF P(1) assms(2)] pow2sz_size [OF P(2) assms(3)] pow2sz_size [OF P(3) assms(4)] pow2sz_size [OF P(4) assms(5)]
  obtain k where k: "k < 32" "lsz = 2 ^ k" using Z(1) by (auto simp: pow2sz_def)
  have "ceilLog2 (of_nat lsz) = Inr k" using ceilLog2_pow2 [OF k(2,1)] .
  then have "tb_localPredictorMask t = of_nat lsz - 1"
    using assms(1) mask_of_size [OF k(1)] k(2) by (auto simp: new_tournament_def Let_def result_iffs split: if_splits)
  then show ?thesis using assms(1) Z
    by (auto simp: new_tournament_def Let_def result_iffs tb_wf_def ctr_table_def split: if_splits)
qed

lemma floorLog2_size:
  assumes "pow2sz n"
  shows "\<exists>k. n = 2 ^ k \<and> floorLog2 (of_nat n) = Inr k"
proof -
  obtain k where k: "k < 32" "n = 2 ^ k" using assms by (auto simp: pow2sz_def)
  have u: "unat (of_nat n :: 64 word) = n"
    using pow2sz_less [OF assms] unfolding unsigned_of_nat by (simp add: take_bit_nat_eq_self)
  then have "(of_nat n :: 64 word) \<noteq> 0" using k(2) by (metis unat_0 power_not_zero zero_neq_numeral)
  from floorLog2_spec [OF this] obtain y where
    y: "floorLog2 (of_nat n) = Inr y" "2 ^ y \<le> n" "n < 2 ^ Suc y" unfolding u by blast
  have "y \<le> k" using y(2) k(2) power_increasing_iff [of "2 :: nat" y k] by simp
  moreover have "k < Suc y" using y(3) k(2) power_strict_increasing_iff [of "2 :: nat" k "Suc y"] by simp
  ultimately show ?thesis using y(1) k(2) by (intro exI [of _ k]) simp
qed

lemma new_btb_ok:
  assumes "new_btb z sz tagBits shift nthreads = Inr b" "sz < 2 ^ 32" "0 < nthreads" "nthreads \<le> sz"
  shows "btb_ok b"
proof -
  have "isPowerOf2 (of_nat sz)" using assms(1) by (auto simp: new_btb_def result_iffs split: if_splits)
  note Z = pow2sz_size [OF this assms(2)]
  obtain k where k: "sz = 2 ^ k" "floorLog2 (of_nat sz) = Inr k" using floorLog2_size [OF Z] by blast
  have u: "unat (of_nat nthreads :: 64 word) = nthreads"
    using assms(2,4) unfolding unsigned_of_nat by (simp add: take_bit_nat_eq_self)
  then have "(of_nat nthreads :: 64 word) \<noteq> 0" using assms(3) by (metis unat_0 less_irrefl)
  from floorLog2_spec [OF this] obtain y where
    y: "floorLog2 (of_nat nthreads) = Inr y" "2 ^ y \<le> nthreads" unfolding u by blast
  have "2 ^ y \<le> (2 :: nat) ^ k" using y(2) assms(4) k(1) by linarith
  then have "y \<le> k" using power_increasing_iff [of "2 :: nat" y k] by simp
  then show ?thesis using assms(1) Z y(1) k(2) by (auto simp: new_btb_def btb_ok_def split: if_splits)
qed

lemma new_ipred_ok:
  assumes "new_ipred z hghr htgt nsets nways tagBits plen shift n = Inr q" "nsets < 2 ^ 32" "0 < plen"
  shows "ip_ok n q \<and> (\<forall>tid < n. path_of tid q = [])"
proof -
  have "isPowerOf2 (of_nat nsets)" using assms(1) by (auto simp: new_ipred_def split: if_splits)
  from pow2sz_size [OF this assms(2)] show ?thesis
    using assms(1,3) by (auto simp: new_ipred_def ip_ok_def path_of_def split: if_splits)
qed

lemma new_bpu_ok:
  assumes "new_bpu isa dir n bsz tagBits shift rsz ui ip = Inr u" "ok n dir" "ip_ok n ip" "bsz < 2 ^ 32"
    "0 < n" "n \<le> bsz" "0 < rsz"
  shows "bpu_ok ok n rsz u"
proof -
  obtain b where b: "new_btb (pc_zero isa) bsz tagBits shift n = Inr b" using assms(1) by (auto simp: new_bpu_def result_iffs)
  have "ras_ok rsz (ras_init z rsz)" for z :: 'a using assms(7) by (simp add: ras_ok_def ras_init_def ras_reset_def)
  then show ?thesis using assms b new_btb_ok [OF b assms(4-6)]
    by (auto simp: new_bpu_def bpu_ok_def)
qed

subsection \<open>Properties\<close>

lemma agree_top: "agree n m r r' \<Longrightarrow> 0 < m \<Longrightarrow> ras_top r' = ras_top r"
  using entry_def [of r 0] entry_def [of r' 0] by (auto simp: agree_def ras_top_def ras_ok_def)

text \<open>C8. Squashing undoes speculation: on a consistent unit with the tournament predictor, any series
  of branches of a thread is predicted without failure, and squashing back to before the first of
  them restores the branch history, the branch target buffer, the indirect predictor with its path
  history, the global history and all counters of the direction predictor, and the position of the
  return address stack. If fewer calls were speculated than the stack has entries, the top of the
  stack is restored as well.\<close>

theorem squash_undoes_speculation:
  assumes "bpu_ok tb_wf n m u" "tid < n" "\<forall>(inst, sq, pc) \<in> set bs. sq > sn"
    "\<forall>x \<in> set (path_of tid (bu_iPred u)). he_seqNum x \<le> sn" "\<forall>e \<in> set (bu_predHist u ! tid). ph_seqNum e \<le> sn"
  shows "\<exists>u1 u2. predict_all isa tournament_ops tid bs u = Inr u1 \<and> bu_squash tournament_ops sn tid u1 = Inr u2 \<and>
    bpu_ok tb_wf n m u2 \<and> bu_predHist u2 = bu_predHist u \<and> bu_BTB u2 = bu_BTB u \<and> bu_iPred u2 = bu_iPred u \<and>
    tb_obs (bu_dir u2) = tb_obs (bu_dir u) \<and> tos (bu_RAS u2 ! tid) = tos (bu_RAS u ! tid) \<and>
    (calls bs < m \<longrightarrow> ras_top (bu_RAS u2 ! tid) = ras_top (bu_RAS u ! tid))"
proof -
  obtain u1 u2 r where u: "predict_all isa tournament_ops tid bs u = Inr u1" "bu_squash tournament_ops sn tid u1 = Inr u2"
    "bpu_ok tb_wf n m u2" "bu_predHist u2 = bu_predHist u" "bu_BTB u2 = bu_BTB u" "bu_iPred u2 = bu_iPred u"
    "tb_obs (bu_dir u2) = tb_obs (bu_dir u)" "bu_RAS u2 = (bu_RAS u)[tid := r]" "agree m (m - calls bs) (bu_RAS u ! tid) r"
    using tbp.squash_all [OF assms] by blast
  have "bu_RAS u2 ! tid = r" using u(8) assms(1,2) by (simp add: bpu_ok_def)
  then show ?thesis using u agree_top [OF u(9)] by (auto simp: agree_def)
qed

text \<open>The same for the other two predictors, whose state is restored completely.\<close>

lemma squash_undoes_local:
  assumes "bpu_ok lb_wf n m u" "tid < n" "\<forall>(inst, sq, pc) \<in> set bs. sq > sn"
    "\<forall>x \<in> set (path_of tid (bu_iPred u)). he_seqNum x \<le> sn" "\<forall>e \<in> set (bu_predHist u ! tid). ph_seqNum e \<le> sn"
  shows "\<exists>u1 u2. predict_all isa local_ops tid bs u = Inr u1 \<and> bu_squash local_ops sn tid u1 = Inr u2 \<and>
    bpu_ok lb_wf n m u2 \<and> bu_dir u2 = bu_dir u"
  using lbp.squash_all [OF assms] by blast

lemma squash_undoes_bi_mode:
  assumes "bpu_ok bm_wf n m u" "tid < n" "\<forall>(inst, sq, pc) \<in> set bs. sq > sn"
    "\<forall>x \<in> set (path_of tid (bu_iPred u)). he_seqNum x \<le> sn" "\<forall>e \<in> set (bu_predHist u ! tid). ph_seqNum e \<le> sn"
  shows "\<exists>u1 u2. predict_all isa bi_mode_ops tid bs u = Inr u1 \<and> bu_squash bi_mode_ops sn tid u1 = Inr u2 \<and>
    bpu_ok bm_wf n m u2 \<and> bu_dir u2 = bu_dir u"
  using bmp.squash_all [OF assms] by blast

definition demo_isa :: "addr isa" where
  "demo_isa = \<lparr>instAddr = (\<lambda>a. a), buildRetPC = (\<lambda>_ r. r + 4), advancePC = (\<lambda>_ a. a + 4),
     branchTarget = (\<lambda>_ a. a + 16), pc_zero = 0\<rparr>"

lemma demo_pow2: "isPowerOf2 4"
  unfolding isPowerOf2_iff by (rule exI [of _ 2]) simp

lemma demo_log: "ceilLog2 4 = Inr 2" "\<exists>y. floorLog2 4 = Inr y" "\<exists>y. floorLog2 1 = Inr y"
  using ceilLog2_pow2 [of 4 2] floorLog2_spec [of 4] floorLog2_spec [of 1] by auto

lemma demo_tournament: "\<exists>t. new_tournament 2 1 4 2 4 4 2 4 2 = Inr t"
  using demo_pow2 demo_log(1) mask_of_size [of 2] by (simp add: new_tournament_def Let_def)

lemma demo_bpu:
  "\<exists>u :: (addr, tournament, tb_history) bpu. bpu_ok tb_wf 1 16 u \<and> path_of 0 (bu_iPred u) = [] \<and> bu_predHist u ! 0 = []"
proof -
  obtain t where t: "new_tournament 2 1 4 2 4 4 2 4 2 = Inr t" using demo_tournament by blast
  obtain q :: "addr ipred" where q: "new_ipred 0 True True 4 2 16 3 2 1 = Inr q" using demo_pow2 by (simp add: new_ipred_def)
  obtain u :: "(addr, tournament, tb_history) bpu" where u: "new_bpu demo_isa t 1 4 16 2 16 True q = Inr u"
    using demo_pow2 demo_log(2,3) by (auto simp: new_bpu_def new_btb_def)
  have "bu_iPred u = q" "bu_predHist u ! 0 = []" using u by (auto simp: new_bpu_def result_iffs)
  then show ?thesis using new_bpu_ok [OF u, of tb_wf] new_tournament_wf [OF t] new_ipred_ok [OF q] by auto
qed

definition demo_call :: static_inst where
  "demo_call = \<lparr>isUncondCtrl = True, isReturn = False, isCall = True, isDirectCtrl = True\<rparr>"

definition demo_ret :: static_inst where
  "demo_ret = \<lparr>isUncondCtrl = True, isReturn = True, isCall = False, isDirectCtrl = False\<rparr>"

theorem squash_undoes_speculation_witness:
  "\<exists>(u :: (addr, tournament, tb_history) bpu) u1 u2.
     predict_all demo_isa tournament_ops 0 [(demo_call, 7, 0x1000), (demo_ret, 8, 0x2000)] u = Inr u1 \<and>
     bu_squash tournament_ops 5 0 u1 = Inr u2 \<and> ras_top (bu_RAS u2 ! 0) = ras_top (bu_RAS u ! 0)"
proof -
  obtain u :: "(addr, tournament, tb_history) bpu" where
    u: "bpu_ok tb_wf 1 16 u" "path_of 0 (bu_iPred u) = []" "bu_predHist u ! 0 = []" using demo_bpu by blast
  have "calls [(demo_call, 7, 0x1000 :: addr), (demo_ret, 8, 0x2000)] < 16" by (simp add: demo_call_def demo_ret_def)
  then show ?thesis
    using squash_undoes_speculation [OF u(1), of 0 "[(demo_call, 7, 0x1000), (demo_ret, 8, 0x2000)]" 5 demo_isa] u(2,3)
    by auto
qed

end
