(* ===== verification/O3Regs.thy ===== *)
theory O3Regs
  imports Prelude "HOL-Library.Multiset"
begin

text \<open>
  The register renaming structures of the out-of-order CPU: register classes
  (\<^verbatim>\<open>cpu/reg_class.hh\<close>), the physical register file (\<^verbatim>\<open>cpu/o3/regfile.{hh,cc}\<close>), free lists
  (\<^verbatim>\<open>cpu/o3/free_list.{hh,cc}\<close>), rename maps (\<^verbatim>\<open>cpu/o3/rename_map.{hh,cc}\<close>), the scoreboard
  (\<^verbatim>\<open>cpu/o3/scoreboard.{hh,cc}\<close>) and the parts of \<^verbatim>\<open>cpu/o3/cpu.cc\<close> that build them and bind the
  registers of a thread.

  The constants of the instruction set (\<^verbatim>\<open>TheISA\<close>) are a record. A physical register index is a
  natural number; where the source would convert a larger number to its 16-bit type the model
  reports an error.
\<close>

subsection \<open>Register classes\<close>

record isa_regs =
  NumIntRegs :: nat
  NumFloatRegs :: nat
  NumCCRegs :: nat
  NumMiscRegs :: nat
  ZeroReg :: nat
  FP_Reg_Base :: nat
  CC_Reg_Base :: nat
  Misc_Reg_Base :: nat
  Max_Reg_Index :: nat
  isAlpha :: bool

datatype reg_class = IntRegClass | FloatRegClass | CCRegClass | MiscRegClass

definition regIdxToClass :: "isa_regs \<Rightarrow> nat \<Rightarrow> (reg_class \<times> nat) result" where
  "regIdxToClass isa r =
     assert_that ''reg_idx < TheISA::Max_Reg_Index'' (r < Max_Reg_Index isa)
       (Inr (if r < FP_Reg_Base isa then (IntRegClass, r)
             else if r < CC_Reg_Base isa then (FloatRegClass, r - FP_Reg_Base isa)
             else if r < Misc_Reg_Base isa then (CCRegClass, r - CC_Reg_Base isa)
             else (MiscRegClass, r - Misc_Reg_Base isa)))"

subsection \<open>Physical register file\<close>

type_synonym phys_reg = nat

definition to_phys :: "nat \<Rightarrow> phys_reg result" where
  "to_phys n = (if n < 2 ^ 15 then Inr n else Inl OutOfRange)"

text \<open>A floating point register is kept as its bit pattern, the integer member of the union.\<close>

record phys_regfile =
  intRegFile :: "64 word list"
  floatRegFile :: "64 word list"
  ccRegFile :: "64 word list"
  baseFloatRegIndex :: nat
  baseCCRegIndex :: nat
  totalNumRegs :: nat

definition new_regfile :: "nat \<Rightarrow> nat \<Rightarrow> nat \<Rightarrow> phys_regfile" where
  "new_regfile nInt nFloat nCC =
     \<lparr>intRegFile = replicate nInt 0, floatRegFile = replicate nFloat 0, ccRegFile = replicate nCC 0,
      baseFloatRegIndex = nInt, baseCCRegIndex = nInt + nFloat, totalNumRegs = nInt + nFloat + nCC\<rparr>"

definition isIntPhysReg :: "phys_regfile \<Rightarrow> phys_reg \<Rightarrow> bool" where
  "isIntPhysReg rf r \<longleftrightarrow> r < baseFloatRegIndex rf"

definition isFloatPhysReg :: "phys_regfile \<Rightarrow> phys_reg \<Rightarrow> bool" where
  "isFloatPhysReg rf r \<longleftrightarrow> baseFloatRegIndex rf \<le> r \<and> r < baseCCRegIndex rf"

definition isCCPhysReg :: "phys_regfile \<Rightarrow> phys_reg \<Rightarrow> bool" where
  "isCCPhysReg rf r \<longleftrightarrow> baseCCRegIndex rf \<le> r \<and> r < totalNumRegs rf"

definition readIntReg :: "phys_reg \<Rightarrow> phys_regfile \<Rightarrow> 64 word result" where
  "readIntReg r rf = assert_that ''isIntPhysReg(reg_idx)'' (isIntPhysReg rf r) (nthE (intRegFile rf) r)"

definition readFloatRegBits :: "phys_reg \<Rightarrow> phys_regfile \<Rightarrow> 64 word result" where
  "readFloatRegBits r rf =
     assert_that ''isFloatPhysReg(reg_idx)'' (isFloatPhysReg rf r)
       (nthE (floatRegFile rf) (r - baseFloatRegIndex rf))"

definition readCCReg :: "phys_reg \<Rightarrow> phys_regfile \<Rightarrow> 64 word result" where
  "readCCReg r rf =
     assert_that ''isCCPhysReg(reg_idx)'' (isCCPhysReg rf r) (nthE (ccRegFile rf) (r - baseCCRegIndex rf))"

definition setIntReg :: "isa_regs \<Rightarrow> phys_reg \<Rightarrow> 64 word \<Rightarrow> phys_regfile \<Rightarrow> phys_regfile result" where
  "setIntReg isa r v rf =
     assert_that ''isIntPhysReg(reg_idx)'' (isIntPhysReg rf r)
       (if r \<noteq> ZeroReg isa
        then ebind (updE r (\<lambda>_. v) (intRegFile rf)) (\<lambda>xs. Inr (rf\<lparr>intRegFile := xs\<rparr>))
        else Inr rf)"

text \<open>Only the setter for doubles spares the zero register, and only on Alpha.\<close>

definition setFloatRegBits :: "phys_reg \<Rightarrow> 64 word \<Rightarrow> phys_regfile \<Rightarrow> phys_regfile result" where
  "setFloatRegBits r v rf =
     assert_that ''isFloatPhysReg(reg_idx)'' (isFloatPhysReg rf r)
       (ebind (updE (r - baseFloatRegIndex rf) (\<lambda>_. v) (floatRegFile rf)) (\<lambda>xs. Inr (rf\<lparr>floatRegFile := xs\<rparr>)))"

definition setFloatReg :: "isa_regs \<Rightarrow> phys_reg \<Rightarrow> 64 word \<Rightarrow> phys_regfile \<Rightarrow> phys_regfile result" where
  "setFloatReg isa r v rf =
     assert_that ''isFloatPhysReg(reg_idx)'' (isFloatPhysReg rf r)
       (if isAlpha isa \<and> r - baseFloatRegIndex rf = ZeroReg isa then Inr rf
        else ebind (updE (r - baseFloatRegIndex rf) (\<lambda>_. v) (floatRegFile rf)) (\<lambda>xs.
               Inr (rf\<lparr>floatRegFile := xs\<rparr>)))"

definition setCCReg :: "phys_reg \<Rightarrow> 64 word \<Rightarrow> phys_regfile \<Rightarrow> phys_regfile result" where
  "setCCReg r v rf =
     assert_that ''isCCPhysReg(reg_idx)'' (isCCPhysReg rf r)
       (ebind (updE (r - baseCCRegIndex rf) (\<lambda>_. v) (ccRegFile rf)) (\<lambda>xs. Inr (rf\<lparr>ccRegFile := xs\<rparr>)))"

subsection \<open>Free lists\<close>

type_synonym simple_free_list = "phys_reg list"

definition fl_addReg :: "phys_reg \<Rightarrow> simple_free_list \<Rightarrow> simple_free_list" where
  "fl_addReg r l = l @ [r]"

definition fl_getReg :: "simple_free_list \<Rightarrow> (phys_reg \<times> simple_free_list) result" where
  "fl_getReg l = (case l of [] \<Rightarrow> Inl (AssertFail ''!freeRegs.empty()'') | r # l' \<Rightarrow> Inr (r, l'))"

record unified_free_list =
  intList :: simple_free_list
  floatList :: simple_free_list
  ccList :: simple_free_list

definition initFreeList :: "phys_regfile \<Rightarrow> unified_free_list \<Rightarrow> unified_free_list result" where
  "initFreeList rf fl =
     (if totalNumRegs rf < 2 ^ 15
      then Inr (fl\<lparr>intList := fold fl_addReg [0..<baseFloatRegIndex rf] (intList fl),
                   floatList := fold fl_addReg [baseFloatRegIndex rf..<baseCCRegIndex rf] (floatList fl),
                   ccList := fold fl_addReg [baseCCRegIndex rf..<totalNumRegs rf] (ccList fl)\<rparr>)
      else Inl OutOfRange)"

definition new_free_list :: "phys_regfile \<Rightarrow> unified_free_list result" where
  "new_free_list rf = initFreeList rf \<lparr>intList = [], floatList = [], ccList = []\<rparr>"

definition ufl_addReg :: "phys_regfile \<Rightarrow> phys_reg \<Rightarrow> unified_free_list \<Rightarrow> unified_free_list result" where
  "ufl_addReg rf r fl =
     (if isIntPhysReg rf r then Inr (fl\<lparr>intList := fl_addReg r (intList fl)\<rparr>)
      else if isFloatPhysReg rf r then Inr (fl\<lparr>floatList := fl_addReg r (floatList fl)\<rparr>)
      else assert_that ''regFile->isCCPhysReg(freed_reg)'' (isCCPhysReg rf r)
             (Inr (fl\<lparr>ccList := fl_addReg r (ccList fl)\<rparr>)))"

text \<open>A rename map refers to one of the three lists; the reference is the class of the list.\<close>

definition the_list :: "reg_class option \<Rightarrow> unified_free_list \<Rightarrow> simple_free_list result" where
  "the_list c fl =
     (case c of Some IntRegClass \<Rightarrow> Inr (intList fl) | Some FloatRegClass \<Rightarrow> Inr (floatList fl)
      | Some CCRegClass \<Rightarrow> Inr (ccList fl) | _ \<Rightarrow> Inl NullDeref)"

definition set_list :: "reg_class option \<Rightarrow> simple_free_list \<Rightarrow> unified_free_list \<Rightarrow> unified_free_list" where
  "set_list c l fl =
     (case c of Some IntRegClass \<Rightarrow> fl\<lparr>intList := l\<rparr> | Some FloatRegClass \<Rightarrow> fl\<lparr>floatList := l\<rparr>
      | Some CCRegClass \<Rightarrow> fl\<lparr>ccList := l\<rparr> | _ \<Rightarrow> fl)"

definition ufl_getReg :: "reg_class option \<Rightarrow> unified_free_list \<Rightarrow> (phys_reg \<times> unified_free_list) result" where
  "ufl_getReg c fl =
     ebind (the_list c fl) (\<lambda>l. ebind (fl_getReg l) (\<lambda>(r, l'). Inr (r, set_list c l' fl)))"

subsection \<open>Rename map of one class\<close>

record simple_rename_map =
  srm_map :: "phys_reg list"
  srm_freeList :: "reg_class option"
  srm_zeroReg :: nat

definition new_srm :: simple_rename_map where
  "new_srm = \<lparr>srm_map = [], srm_freeList = None, srm_zeroReg = 0\<rparr>"

definition srm_init :: "nat \<Rightarrow> reg_class \<Rightarrow> nat \<Rightarrow> simple_rename_map \<Rightarrow> simple_rename_map result" where
  "srm_init sz c z m =
     assert_that ''freeList == NULL'' (srm_freeList m = None)
       (assert_that ''map.empty()'' (srm_map m = [])
         (Inr \<lparr>srm_map = replicate sz 0, srm_freeList = Some c, srm_zeroReg = z\<rparr>))"

type_synonym rename_info = "phys_reg \<times> phys_reg"

definition srm_rename ::
  "nat \<Rightarrow> simple_rename_map \<Rightarrow> unified_free_list \<Rightarrow> (rename_info \<times> simple_rename_map \<times> unified_free_list) result" where
  "srm_rename a m fl =
     ebind (nthE (srm_map m) a) (\<lambda>prev.
       if a \<noteq> srm_zeroReg m
       then ebind (ufl_getReg (srm_freeList m) fl) (\<lambda>(r, fl').
              Inr ((r, prev), m\<lparr>srm_map := (srm_map m)[a := r]\<rparr>, fl'))
       else assert_that ''prev_reg == zeroReg'' (prev = srm_zeroReg m)
              (Inr ((srm_zeroReg m, prev), m, fl)))"

definition srm_lookup :: "nat \<Rightarrow> simple_rename_map \<Rightarrow> phys_reg result" where
  "srm_lookup a m = assert_that ''arch_reg < map.size()'' (a < length (srm_map m)) (Inr (srm_map m ! a))"

definition srm_setEntry :: "nat \<Rightarrow> phys_reg \<Rightarrow> simple_rename_map \<Rightarrow> simple_rename_map result" where
  "srm_setEntry a p m = ebind (updE a (\<lambda>_. p) (srm_map m)) (\<lambda>xs. Inr (m\<lparr>srm_map := xs\<rparr>))"

definition srm_numFreeEntries :: "simple_rename_map \<Rightarrow> unified_free_list \<Rightarrow> nat result" where
  "srm_numFreeEntries m fl = ebind (the_list (srm_freeList m) fl) (\<lambda>l. Inr (length l))"

subsection \<open>Rename map of a thread\<close>

record rename_map =
  intMap :: simple_rename_map
  floatMap :: simple_rename_map
  ccMap :: simple_rename_map

definition new_rename_map :: rename_map where
  "new_rename_map = \<lparr>intMap = new_srm, floatMap = new_srm, ccMap = new_srm\<rparr>"

text \<open>The invalid register \<^verbatim>\<open>(RegIndex)-1\<close> of the condition code map is an index beyond the map.\<close>

definition um_init :: "isa_regs \<Rightarrow> nat \<Rightarrow> nat \<Rightarrow> rename_map \<Rightarrow> rename_map result" where
  "um_init isa intZero floatZero m =
     ebind (srm_init (NumIntRegs isa) IntRegClass intZero (intMap m)) (\<lambda>im.
     ebind (srm_init (NumFloatRegs isa) FloatRegClass floatZero (floatMap m)) (\<lambda>fm.
     ebind (srm_init (NumCCRegs isa) CCRegClass (2 ^ 16 - 1) (ccMap m)) (\<lambda>cm.
       Inr \<lparr>intMap = im, floatMap = fm, ccMap = cm\<rparr>)))"

definition renameInt ::
  "phys_regfile \<Rightarrow> nat \<Rightarrow> rename_map \<Rightarrow> unified_free_list \<Rightarrow> (rename_info \<times> rename_map \<times> unified_free_list) result" where
  "renameInt rf a m fl =
     ebind (srm_rename a (intMap m) fl) (\<lambda>(info, im, fl').
       assert_that ''regFile->isIntPhysReg(info.first)'' (isIntPhysReg rf (fst info))
         (Inr (info, m\<lparr>intMap := im\<rparr>, fl')))"

definition renameFloat ::
  "phys_regfile \<Rightarrow> nat \<Rightarrow> rename_map \<Rightarrow> unified_free_list \<Rightarrow> (rename_info \<times> rename_map \<times> unified_free_list) result" where
  "renameFloat rf a m fl =
     ebind (srm_rename a (floatMap m) fl) (\<lambda>(info, fm, fl').
       assert_that ''regFile->isFloatPhysReg(info.first)'' (isFloatPhysReg rf (fst info))
         (Inr (info, m\<lparr>floatMap := fm\<rparr>, fl')))"

definition renameCC ::
  "phys_regfile \<Rightarrow> nat \<Rightarrow> rename_map \<Rightarrow> unified_free_list \<Rightarrow> (rename_info \<times> rename_map \<times> unified_free_list) result" where
  "renameCC rf a m fl =
     ebind (srm_rename a (ccMap m) fl) (\<lambda>(info, cm, fl').
       assert_that ''regFile->isCCPhysReg(info.first)'' (isCCPhysReg rf (fst info))
         (Inr (info, m\<lparr>ccMap := cm\<rparr>, fl')))"

definition lookupMisc :: "phys_regfile \<Rightarrow> nat \<Rightarrow> phys_reg result" where
  "lookupMisc rf a = to_phys (a + totalNumRegs rf)"

definition renameMisc ::
  "phys_regfile \<Rightarrow> nat \<Rightarrow> rename_map \<Rightarrow> unified_free_list \<Rightarrow> (rename_info \<times> rename_map \<times> unified_free_list) result" where
  "renameMisc rf a m fl = ebind (lookupMisc rf a) (\<lambda>p. Inr ((p, p), m, fl))"

definition um_rename ::
  "isa_regs \<Rightarrow> phys_regfile \<Rightarrow> nat \<Rightarrow> rename_map \<Rightarrow> unified_free_list \<Rightarrow>
   (rename_info \<times> rename_map \<times> unified_free_list) result" where
  "um_rename isa rf r m fl =
     ebind (regIdxToClass isa r) (\<lambda>(c, a).
       case c of IntRegClass \<Rightarrow> renameInt rf a m fl | FloatRegClass \<Rightarrow> renameFloat rf a m fl
       | CCRegClass \<Rightarrow> renameCC rf a m fl | MiscRegClass \<Rightarrow> renameMisc rf a m fl)"

definition lookupInt :: "phys_regfile \<Rightarrow> nat \<Rightarrow> rename_map \<Rightarrow> phys_reg result" where
  "lookupInt rf a m =
     ebind (srm_lookup a (intMap m)) (\<lambda>p. assert_that ''regFile->isIntPhysReg(phys_reg)'' (isIntPhysReg rf p) (Inr p))"

definition lookupFloat :: "phys_regfile \<Rightarrow> nat \<Rightarrow> rename_map \<Rightarrow> phys_reg result" where
  "lookupFloat rf a m =
     ebind (srm_lookup a (floatMap m)) (\<lambda>p. assert_that ''regFile->isFloatPhysReg(phys_reg)'' (isFloatPhysReg rf p) (Inr p))"

definition lookupCC :: "phys_regfile \<Rightarrow> nat \<Rightarrow> rename_map \<Rightarrow> phys_reg result" where
  "lookupCC rf a m =
     ebind (srm_lookup a (ccMap m)) (\<lambda>p. assert_that ''regFile->isCCPhysReg(phys_reg)'' (isCCPhysReg rf p) (Inr p))"

definition um_lookup :: "isa_regs \<Rightarrow> phys_regfile \<Rightarrow> nat \<Rightarrow> rename_map \<Rightarrow> phys_reg result" where
  "um_lookup isa rf r m =
     ebind (regIdxToClass isa r) (\<lambda>(c, a).
       case c of IntRegClass \<Rightarrow> lookupInt rf a m | FloatRegClass \<Rightarrow> lookupFloat rf a m
       | CCRegClass \<Rightarrow> lookupCC rf a m | MiscRegClass \<Rightarrow> lookupMisc rf a)"

definition setIntEntry :: "phys_regfile \<Rightarrow> nat \<Rightarrow> phys_reg \<Rightarrow> rename_map \<Rightarrow> rename_map result" where
  "setIntEntry rf a p m =
     assert_that ''regFile->isIntPhysReg(phys_reg)'' (isIntPhysReg rf p)
       (ebind (srm_setEntry a p (intMap m)) (\<lambda>im. Inr (m\<lparr>intMap := im\<rparr>)))"

definition setFloatEntry :: "phys_regfile \<Rightarrow> nat \<Rightarrow> phys_reg \<Rightarrow> rename_map \<Rightarrow> rename_map result" where
  "setFloatEntry rf a p m =
     assert_that ''regFile->isFloatPhysReg(phys_reg)'' (isFloatPhysReg rf p)
       (ebind (srm_setEntry a p (floatMap m)) (\<lambda>fm. Inr (m\<lparr>floatMap := fm\<rparr>)))"

definition setCCEntry :: "phys_regfile \<Rightarrow> nat \<Rightarrow> phys_reg \<Rightarrow> rename_map \<Rightarrow> rename_map result" where
  "setCCEntry rf a p m =
     assert_that ''regFile->isCCPhysReg(phys_reg)'' (isCCPhysReg rf p)
       (ebind (srm_setEntry a p (ccMap m)) (\<lambda>cm. Inr (m\<lparr>ccMap := cm\<rparr>)))"

definition um_setEntry :: "isa_regs \<Rightarrow> phys_regfile \<Rightarrow> nat \<Rightarrow> phys_reg \<Rightarrow> rename_map \<Rightarrow> rename_map result" where
  "um_setEntry isa rf r p m =
     ebind (regIdxToClass isa r) (\<lambda>(c, a).
       case c of IntRegClass \<Rightarrow> setIntEntry rf a p m | FloatRegClass \<Rightarrow> setFloatEntry rf a p m
       | CCRegClass \<Rightarrow> setCCEntry rf a p m
       | MiscRegClass \<Rightarrow> ebind (lookupMisc rf a) (\<lambda>q.
           assert_that ''phys_reg == lookupMisc(rel_arch_reg)'' (p = q) (Inr m)))"

text \<open>The minimum over integer and floating point registers; condition codes are not counted.\<close>

definition um_numFreeEntries :: "rename_map \<Rightarrow> unified_free_list \<Rightarrow> nat result" where
  "um_numFreeEntries m fl =
     ebind (srm_numFreeEntries (intMap m) fl) (\<lambda>i. ebind (srm_numFreeEntries (floatMap m) fl) (\<lambda>f. Inr (min i f)))"

definition canRename :: "nat \<Rightarrow> nat \<Rightarrow> nat \<Rightarrow> rename_map \<Rightarrow> unified_free_list \<Rightarrow> bool result" where
  "canRename intRegs floatRegs ccRegs m fl =
     ebind (srm_numFreeEntries (intMap m) fl) (\<lambda>i. ebind (srm_numFreeEntries (floatMap m) fl) (\<lambda>f.
     ebind (srm_numFreeEntries (ccMap m) fl) (\<lambda>c. Inr (intRegs \<le> i \<and> floatRegs \<le> f \<and> ccRegs \<le> c))))"

subsection \<open>Scoreboard\<close>

record scoreboard =
  regScoreBoard :: "bool list"
  sb_numPhysRegs :: nat
  sb_numTotalRegs :: nat
  sb_zeroRegIdx :: nat
  sb_fpZeroRegIdx :: nat

definition new_scoreboard :: "nat \<Rightarrow> nat \<Rightarrow> nat \<Rightarrow> nat \<Rightarrow> scoreboard" where
  "new_scoreboard nPhys nMisc z fz =
     \<lparr>regScoreBoard = replicate nPhys True, sb_numPhysRegs = nPhys, sb_numTotalRegs = nPhys + nMisc,
      sb_zeroRegIdx = z, sb_fpZeroRegIdx = fz\<rparr>"

definition isZeroReg :: "isa_regs \<Rightarrow> scoreboard \<Rightarrow> phys_reg \<Rightarrow> bool" where
  "isZeroReg isa sb r \<longleftrightarrow> r = sb_zeroRegIdx sb \<or> (isAlpha isa \<and> r = sb_fpZeroRegIdx sb)"

definition sb_getReg :: "isa_regs \<Rightarrow> phys_reg \<Rightarrow> scoreboard \<Rightarrow> bool result" where
  "sb_getReg isa r sb =
     assert_that ''reg_idx < numTotalRegs'' (r < sb_numTotalRegs sb)
       (if sb_numPhysRegs sb \<le> r then Inr True
        else ebind (nthE (regScoreBoard sb) r) (\<lambda>ready.
               if isZeroReg isa sb r then assert_that ''ready'' ready (Inr ready) else Inr ready))"

definition sb_setReg :: "phys_reg \<Rightarrow> scoreboard \<Rightarrow> scoreboard result" where
  "sb_setReg r sb =
     assert_that ''reg_idx < numTotalRegs'' (r < sb_numTotalRegs sb)
       (if sb_numPhysRegs sb \<le> r then Inr sb
        else ebind (updE r (\<lambda>_. True) (regScoreBoard sb)) (\<lambda>xs. Inr (sb\<lparr>regScoreBoard := xs\<rparr>)))"

definition sb_unsetReg :: "isa_regs \<Rightarrow> phys_reg \<Rightarrow> scoreboard \<Rightarrow> scoreboard result" where
  "sb_unsetReg isa r sb =
     assert_that ''reg_idx < numTotalRegs'' (r < sb_numTotalRegs sb)
       (if sb_numPhysRegs sb \<le> r then Inr sb
        else if isZeroReg isa sb r then Inr sb
        else ebind (updE r (\<lambda>_. False) (regScoreBoard sb)) (\<lambda>xs. Inr (sb\<lparr>regScoreBoard := xs\<rparr>)))"

subsection \<open>Register state of the CPU\<close>

text \<open>The structures that the CPU object owns and its stages share.\<close>

record o3_regs =
  o3_regFile :: phys_regfile
  o3_freeList :: unified_free_list
  o3_renameMap :: "rename_map list"
  o3_commitRenameMap :: "rename_map list"
  o3_scoreboard :: scoreboard

definition with_map :: "nat \<Rightarrow> (rename_map \<Rightarrow> rename_map result) \<Rightarrow> rename_map list \<Rightarrow> rename_map list result" where
  "with_map tid f ms = ebind (nthE ms tid) (\<lambda>m. ebind (f m) (\<lambda>m'. Inr (ms[tid := m'])))"

text \<open>The constructor binds each architectural register of the active threads to a free physical
  register, in the speculative and in the committed map.\<close>

definition bind_reg ::
  "reg_class \<Rightarrow> (phys_reg \<Rightarrow> rename_map \<Rightarrow> rename_map result) \<Rightarrow> nat \<Rightarrow> o3_regs \<Rightarrow> o3_regs result" where
  "bind_reg c set_entry tid s =
     ebind (ufl_getReg (Some c) (o3_freeList s)) (\<lambda>(p, fl).
     ebind (with_map tid (set_entry p) (o3_renameMap s)) (\<lambda>ms.
     ebind (with_map tid (set_entry p) (o3_commitRenameMap s)) (\<lambda>cs.
       Inr (s\<lparr>o3_freeList := fl, o3_renameMap := ms, o3_commitRenameMap := cs\<rparr>))))"

definition bind_thread :: "isa_regs \<Rightarrow> nat \<Rightarrow> o3_regs \<Rightarrow> o3_regs result" where
  "bind_thread isa tid s =
     ebind (foldE (\<lambda>r s. bind_reg IntRegClass (setIntEntry (o3_regFile s) r) tid s) [0..<NumIntRegs isa] s) (\<lambda>s.
     ebind (foldE (\<lambda>r s. bind_reg FloatRegClass (setFloatEntry (o3_regFile s) r) tid s) [0..<NumFloatRegs isa] s) (\<lambda>s.
       foldE (\<lambda>r s. bind_reg CCRegClass (setCCEntry (o3_regFile s) r) tid s) [0..<NumCCRegs isa] s))"

definition new_o3_regs :: "isa_regs \<Rightarrow> nat \<Rightarrow> nat \<Rightarrow> nat \<Rightarrow> nat \<Rightarrow> nat \<Rightarrow> o3_regs result" where
  "new_o3_regs isa nInt nFloat nCC numThreads active_threads =
     (let rf = new_regfile nInt nFloat nCC;
          fpZeroReg = (if isAlpha isa then ZeroReg isa else NumFloatRegs isa + 1) in
      ebind (new_free_list rf) (\<lambda>fl.
      assert_that ''params->numPhysIntRegs >= numThreads * TheISA::NumIntRegs'' (numThreads * NumIntRegs isa \<le> nInt)
      (assert_that ''params->numPhysFloatRegs >= numThreads * TheISA::NumFloatRegs'' (numThreads * NumFloatRegs isa \<le> nFloat)
      (assert_that ''params->numPhysCCRegs >= numThreads * TheISA::NumCCRegs'' (numThreads * NumCCRegs isa \<le> nCC)
      (ebind (um_init isa (ZeroReg isa) fpZeroReg new_rename_map) (\<lambda>m.
        foldE (bind_thread isa) [0..<active_threads]
          \<lparr>o3_regFile = rf, o3_freeList = fl, o3_renameMap = replicate numThreads m,
           o3_commitRenameMap = replicate numThreads m,
           o3_scoreboard = new_scoreboard (totalNumRegs rf) (NumMiscRegs isa) (ZeroReg isa) (ZeroReg isa)\<rparr>))))))"

text \<open>Binding the registers of a thread that is inserted, releasing those of a thread that is removed.\<close>

definition insert_reg :: "isa_regs \<Rightarrow> reg_class \<Rightarrow> nat \<Rightarrow> nat \<Rightarrow> o3_regs \<Rightarrow> o3_regs result" where
  "insert_reg isa c tid r s =
     ebind (ufl_getReg (Some c) (o3_freeList s)) (\<lambda>(p, fl).
     ebind (with_map tid (um_setEntry isa (o3_regFile s) r p) (o3_renameMap s)) (\<lambda>ms.
     ebind (sb_setReg p (o3_scoreboard s)) (\<lambda>sb.
       Inr (s\<lparr>o3_freeList := fl, o3_renameMap := ms, o3_scoreboard := sb\<rparr>))))"

definition insertThread_regs :: "isa_regs \<Rightarrow> nat \<Rightarrow> o3_regs \<Rightarrow> o3_regs result" where
  "insertThread_regs isa tid s =
     ebind (foldE (insert_reg isa IntRegClass tid) [0..<NumIntRegs isa] s) (\<lambda>s.
     ebind (foldE (insert_reg isa FloatRegClass tid) [FP_Reg_Base isa..<FP_Reg_Base isa + NumFloatRegs isa] s)
       (foldE (insert_reg isa CCRegClass tid) [CC_Reg_Base isa..<CC_Reg_Base isa + NumCCRegs isa]))"

definition remove_reg :: "isa_regs \<Rightarrow> nat \<Rightarrow> nat \<Rightarrow> o3_regs \<Rightarrow> o3_regs result" where
  "remove_reg isa tid r s =
     ebind (nthE (o3_renameMap s) tid) (\<lambda>m.
     ebind (um_lookup isa (o3_regFile s) r m) (\<lambda>p.
     ebind (sb_unsetReg isa p (o3_scoreboard s)) (\<lambda>sb.
     ebind (ufl_addReg (o3_regFile s) p (o3_freeList s)) (\<lambda>fl.
       Inr (s\<lparr>o3_freeList := fl, o3_scoreboard := sb\<rparr>)))))"

definition removeThread_regs :: "isa_regs \<Rightarrow> nat \<Rightarrow> o3_regs \<Rightarrow> o3_regs result" where
  "removeThread_regs isa tid s =
     ebind (foldE (remove_reg isa tid) [0..<NumIntRegs isa] s) (\<lambda>s.
     ebind (foldE (remove_reg isa tid) [FP_Reg_Base isa..<FP_Reg_Base isa + NumFloatRegs isa] s)
       (foldE (remove_reg isa tid) [CC_Reg_Base isa..<CC_Reg_Base isa + NumCCRegs isa]))"

end
