(* ===== verification/Rename.thy ===== *)
theory Rename
  imports O3Regs
begin

text \<open>
  The rename stage of the out-of-order CPU, \<^verbatim>\<open>cpu/o3/rename.hh\<close> and \<^verbatim>\<open>cpu/o3/rename_impl.hh\<close>:
  renaming of source and destination registers, the history buffer with its undo on a squash and
  its release on commit, the queues of instructions, and the state machine of a thread (running,
  blocked, unblocking, squashing, serializing).

  Dynamic instructions are shared objects, so they live in a heap and the queues hold pointers.
  The arrays indexed by thread are gathered in one record per thread. The values read from the
  time buffer in a cycle (from decode, from issue and from commit) are arguments; the words
  written to it are fields. Statistics and probe notifications are left out.
\<close>

subsection \<open>Instructions\<close>

record static_op =
  op_srcRegIdx :: "nat list"
  op_destRegIdx :: "nat list"
  op_numIntDestRegs :: nat
  op_numFPDestRegs :: nat
  op_numCCDestRegs :: nat
  op_isLoad :: bool
  op_isStore :: bool
  op_isIprAccess :: bool
  op_isSerializeBefore :: bool
  op_isSerializeAfter :: bool
  op_isStoreConditional :: bool

record dyn_inst =
  di_static :: static_op
  di_seqNum :: "64 word"
  di_threadNumber :: nat
  di_squashed :: bool
  di_serializeBefore :: bool
  di_serializeAfter :: bool
  di_serializeHandled :: bool
  di_canIssue :: bool
  di_readyRegs :: nat
  di_readySrcRegIdx :: "bool list"
  di_srcRegIdx :: "phys_reg list"
  di_destRegIdx :: "phys_reg list"
  di_prevDestRegIdx :: "phys_reg list"
  di_flatDestRegIdx :: "nat list"

type_synonym inst_ptr = nat
type_synonym inst_heap = "inst_ptr \<Rightarrow> dyn_inst option"

definition isSerializeBefore :: "dyn_inst \<Rightarrow> bool" where
  "isSerializeBefore i \<longleftrightarrow> op_isSerializeBefore (di_static i) \<or> di_serializeBefore i"

definition isSerializeAfter :: "dyn_inst \<Rightarrow> bool" where
  "isSerializeAfter i \<longleftrightarrow> op_isSerializeAfter (di_static i) \<or> di_serializeAfter i"

definition renameSrcReg :: "nat \<Rightarrow> phys_reg \<Rightarrow> dyn_inst \<Rightarrow> dyn_inst result" where
  "renameSrcReg k p i = ebind (updE k (\<lambda>_. p) (di_srcRegIdx i)) (\<lambda>xs. Inr (i\<lparr>di_srcRegIdx := xs\<rparr>))"

definition flattenDestReg :: "nat \<Rightarrow> nat \<Rightarrow> dyn_inst \<Rightarrow> dyn_inst result" where
  "flattenDestReg k a i = ebind (updE k (\<lambda>_. a) (di_flatDestRegIdx i)) (\<lambda>xs. Inr (i\<lparr>di_flatDestRegIdx := xs\<rparr>))"

definition renameDestReg :: "nat \<Rightarrow> phys_reg \<Rightarrow> phys_reg \<Rightarrow> dyn_inst \<Rightarrow> dyn_inst result" where
  "renameDestReg k p q i =
     ebind (updE k (\<lambda>_. p) (di_destRegIdx i)) (\<lambda>xs. ebind (updE k (\<lambda>_. q) (di_prevDestRegIdx i)) (\<lambda>ys.
       Inr (i\<lparr>di_destRegIdx := xs, di_prevDestRegIdx := ys\<rparr>)))"

definition markSrcRegReady :: "nat \<Rightarrow> dyn_inst \<Rightarrow> dyn_inst result" where
  "markSrcRegReady k i =
     ebind (updE k (\<lambda>_. True) (di_readySrcRegIdx i)) (\<lambda>xs.
       Inr (i\<lparr>di_readySrcRegIdx := xs, di_readyRegs := di_readyRegs i + 1,
              di_canIssue := di_canIssue i \<or> di_readyRegs i + 1 = length (op_srcRegIdx (di_static i))\<rparr>))"

subsection \<open>State of the stage\<close>

record rename_history =
  hb_instSeqNum :: "64 word"
  hb_archReg :: nat
  hb_newPhysReg :: phys_reg
  hb_prevPhysReg :: phys_reg

datatype stage_status = Active | Inactive

datatype thread_status = Running | Idle | StartSquash | Squashing | Blocked | Unblocking | SerializeStall

record rename_thread =
  rt_status :: thread_status
  rt_history :: "rename_history list"
  rt_insts :: "inst_ptr list"
  rt_skid :: "inst_ptr list"
  rt_instsInProgress :: int
  rt_loadsInProgress :: int
  rt_storesInProgress :: int
  rt_iqEntries :: nat
  rt_robEntries :: nat
  rt_lqEntries :: nat
  rt_sqEntries :: nat
  rt_emptyROB :: bool
  rt_stallIEW :: bool
  rt_serializeInst :: "inst_ptr option"
  rt_serializeOnNextInst :: bool
  rt_renameBlock :: bool
  rt_renameUnblock :: bool

text \<open>Calls to the CPU object that wake the stage up or put it to sleep.\<close>

datatype cpu_call = ActivateStage | DeactivateStage | ActivityThisCycle

record rename_stage =
  rs_status :: stage_status
  rs_threads :: "rename_thread list"
  rs_wroteToTimeBuffer :: bool
  rs_blockThisCycle :: bool
  rs_resumeSerialize :: bool
  rs_resumeUnblocking :: bool
  rs_toIEW :: "inst_ptr list"
  rs_activeThreads :: "nat list"
  rs_renameWidth :: nat
  rs_skidBufferMax :: nat
  rs_regs :: o3_regs
  rs_heap :: inst_heap
  rs_cpu :: "cpu_call list"

record iew_comm =
  iew_freeIQEntries :: nat
  iew_freeLQEntries :: nat
  iew_freeSQEntries :: nat
  iew_dispatchedToLQ :: nat
  iew_dispatchedToSQ :: nat
  iew_dispatched :: nat
  iew_usedIQ :: bool
  iew_usedLSQ :: bool
  iew_block :: bool
  iew_unblock :: bool

record commit_comm =
  cm_doneSeqNum :: "64 word"
  cm_freeROBEntries :: nat
  cm_squash :: bool
  cm_usedROB :: bool
  cm_emptyROB :: bool

record rename_in =
  in_fromDecode :: "inst_ptr list"
  in_iew :: "iew_comm list"
  in_commit :: "commit_comm list"

text \<open>The mapping of relative registers to flat ones belongs to the instruction set and depends on
  the state of the thread.\<close>

record flatten_ops =
  flattenIntIndex :: "nat \<Rightarrow> nat \<Rightarrow> nat"
  flattenFloatIndex :: "nat \<Rightarrow> nat \<Rightarrow> nat"
  flattenCCIndex :: "nat \<Rightarrow> nat \<Rightarrow> nat"

definition set_t :: "nat \<Rightarrow> rename_thread \<Rightarrow> rename_stage \<Rightarrow> rename_stage" where
  "set_t tid t s = s\<lparr>rs_threads := (rs_threads s)[tid := t]\<rparr>"

definition upd_t :: "nat \<Rightarrow> (rename_thread \<Rightarrow> rename_thread) \<Rightarrow> rename_stage \<Rightarrow> rename_stage result" where
  "upd_t tid f s = ebind (nthE (rs_threads s) tid) (\<lambda>t. Inr (set_t tid (f t) s))"

definition put_inst :: "inst_ptr \<Rightarrow> dyn_inst \<Rightarrow> rename_stage \<Rightarrow> rename_stage" where
  "put_inst p i s = s\<lparr>rs_heap := (rs_heap s)(p \<mapsto> i)\<rparr>"

subsection \<open>Start, reset and drain\<close>

definition reset_thread :: "nat \<times> nat \<times> nat \<times> nat \<Rightarrow> rename_thread \<Rightarrow> rename_thread" where
  "reset_thread free t =
     (case free of (iq, lq, sq, rob) \<Rightarrow>
       t\<lparr>rt_status := Idle, rt_iqEntries := iq, rt_lqEntries := lq, rt_sqEntries := sq, rt_robEntries := rob,
         rt_emptyROB := True, rt_stallIEW := False, rt_serializeInst := None, rt_instsInProgress := 0,
         rt_loadsInProgress := 0, rt_storesInProgress := 0, rt_serializeOnNextInst := False\<rparr>)"

text \<open>The free entries that the other stages report are arguments, one tuple per thread.\<close>

definition resetStage :: "(nat \<times> nat \<times> nat \<times> nat) list \<Rightarrow> rename_stage \<Rightarrow> rename_stage" where
  "resetStage free s =
     s\<lparr>rs_status := Inactive, rs_resumeSerialize := False, rs_resumeUnblocking := False,
       rs_threads := map2 reset_thread free (rs_threads s)\<rparr>"

text \<open>The constructor followed by \<^verbatim>\<open>startupStage\<close>, which sets the fields that the constructor leaves
  open.\<close>

definition new_rename ::
  "nat \<Rightarrow> nat \<Rightarrow> nat \<Rightarrow> nat \<Rightarrow> (nat \<times> nat \<times> nat \<times> nat) list \<Rightarrow> nat list \<Rightarrow> o3_regs \<Rightarrow> inst_heap \<Rightarrow> rename_stage result" where
  "new_rename maxWidth renameWidth decodeToRenameDelay decodeWidth free active rg h =
     (if maxWidth < renameWidth
      then Inl (Fatal ''renameWidth is larger than compiled limit'')
      else Inr (resetStage free
        \<lparr>rs_status = Inactive,
         rs_threads = replicate (length free)
           \<lparr>rt_status = Idle, rt_history = [], rt_insts = [], rt_skid = [], rt_instsInProgress = 0,
            rt_loadsInProgress = 0, rt_storesInProgress = 0, rt_iqEntries = 0, rt_robEntries = 0, rt_lqEntries = 0,
            rt_sqEntries = 0, rt_emptyROB = True, rt_stallIEW = False, rt_serializeInst = None,
            rt_serializeOnNextInst = False, rt_renameBlock = False, rt_renameUnblock = False\<rparr>,
         rs_wroteToTimeBuffer = False, rs_blockThisCycle = False, rs_resumeSerialize = False,
         rs_resumeUnblocking = False, rs_toIEW = [], rs_activeThreads = active, rs_renameWidth = renameWidth,
         rs_skidBufferMax = (decodeToRenameDelay + 1) * decodeWidth, rs_regs = rg, rs_heap = h, rs_cpu = []\<rparr>))"

definition thread_drained :: "rename_thread \<Rightarrow> bool" where
  "thread_drained t \<longleftrightarrow>
     rt_instsInProgress t = 0 \<and> rt_history t = [] \<and> rt_skid t = [] \<and> rt_insts t = [] \<and>
     (rt_status t = Idle \<or> rt_status t = Running)"

definition isDrained :: "rename_stage \<Rightarrow> bool" where
  "isDrained s = list_all thread_drained (rs_threads s)"

definition rn_drainSanityCheck :: "rename_stage \<Rightarrow> unit result" where
  "rn_drainSanityCheck s =
     foldE (\<lambda>t _. assert_that ''historyBuffer[tid].empty()'' (rt_history t = [])
       (assert_that ''insts[tid].empty()'' (rt_insts t = [])
       (assert_that ''skidBuffer[tid].empty()'' (rt_skid t = [])
       (assert_that ''instsInProgress[tid] == 0'' (rt_instsInProgress t = 0) (Inr ()))))) (rs_threads s) ()"

subsection \<open>Queues and blocking\<close>

definition check_tid :: "inst_heap \<Rightarrow> nat \<Rightarrow> inst_ptr \<Rightarrow> unit \<Rightarrow> unit result" where
  "check_tid h tid p u =
     ebind (deref h p) (\<lambda>i. assert_that ''tid == inst->threadNumber'' (tid = di_threadNumber i) (Inr u))"

definition skidInsert :: "nat \<Rightarrow> rename_stage \<Rightarrow> rename_stage result" where
  "skidInsert tid s =
     ebind (nthE (rs_threads s) tid) (\<lambda>t.
     ebind (foldE (check_tid (rs_heap s) tid) (rt_insts t) ()) (\<lambda>_.
       if rs_skidBufferMax s < length (rt_skid t @ rt_insts t)
       then Inl (Panic ''Skidbuffer Exceeded Max Size'')
       else Inr (set_t tid (t\<lparr>rt_insts := [], rt_skid := rt_skid t @ rt_insts t\<rparr>) s)))"

definition sort_inst :: "inst_ptr \<Rightarrow> rename_stage \<Rightarrow> rename_stage result" where
  "sort_inst p s =
     ebind (deref (rs_heap s) p) (\<lambda>i. upd_t (di_threadNumber i) (\<lambda>t. t\<lparr>rt_insts := rt_insts t @ [p]\<rparr>) s)"

definition sortInsts :: "rename_in \<Rightarrow> rename_stage \<Rightarrow> rename_stage result" where
  "sortInsts inp s = foldE sort_inst (in_fromDecode inp) s"

definition skidsEmpty :: "rename_stage \<Rightarrow> bool result" where
  "skidsEmpty s = foldE (\<lambda>tid b. ebind (nthE (rs_threads s) tid) (\<lambda>t. Inr (b \<and> rt_skid t = []))) (rs_activeThreads s) True"

definition updateStatus :: "rename_stage \<Rightarrow> rename_stage result" where
  "updateStatus s =
     ebind (foldE (\<lambda>tid b. ebind (nthE (rs_threads s) tid) (\<lambda>t. Inr (b \<or> rt_status t = Unblocking)))
              (rs_activeThreads s) False) (\<lambda>any_unblocking.
       if any_unblocking
       then (if rs_status s = Inactive then Inr (s\<lparr>rs_status := Active, rs_cpu := rs_cpu s @ [ActivateStage]\<rparr>) else Inr s)
       else (if rs_status s = Active then Inr (s\<lparr>rs_status := Inactive, rs_cpu := rs_cpu s @ [DeactivateStage]\<rparr>) else Inr s))"

text \<open>The previous stage is told to block unless it knows already; \<open>block_quiet\<close> is the call followed by
  the reset of the unblock signal.\<close>

definition block :: "nat \<Rightarrow> rename_stage \<Rightarrow> (bool \<times> rename_stage) result" where
  "block tid s0 =
     ebind (skidInsert tid s0) (\<lambda>s. ebind (nthE (rs_threads s) tid) (\<lambda>t.
       if rt_status t = Blocked then Inr (False, s)
       else let tell = rs_resumeUnblocking s \<or> rt_status t \<noteq> Unblocking;
                t1 = (if tell then t\<lparr>rt_renameBlock := True, rt_renameUnblock := False\<rparr> else t);
                s1 = s\<lparr>rs_wroteToTimeBuffer := tell \<or> rs_wroteToTimeBuffer s\<rparr> in
         if rt_status t = SerializeStall then Inr (False, set_t tid t1 s1)
         else Inr (True, set_t tid (t1\<lparr>rt_status := Blocked\<rparr>) s1)))"

definition block_quiet :: "nat \<Rightarrow> rename_stage \<Rightarrow> rename_stage result" where
  "block_quiet tid s = ebind (block tid s) (\<lambda>(_, s1). upd_t tid (\<lambda>t. t\<lparr>rt_renameUnblock := False\<rparr>) s1)"

definition unblock :: "nat \<Rightarrow> rename_stage \<Rightarrow> (bool \<times> rename_stage) result" where
  "unblock tid s =
     ebind (nthE (rs_threads s) tid) (\<lambda>t.
       if rt_skid t = [] \<and> rt_status t \<noteq> SerializeStall
       then Inr (True, set_t tid (t\<lparr>rt_renameUnblock := True, rt_status := Running\<rparr>)
                         (s\<lparr>rs_wroteToTimeBuffer := True\<rparr>))
       else Inr (False, s))"

subsection \<open>History buffer\<close>

text \<open>The most recent entries come first. A squash undoes the entries of the squashed instructions
  from the front; entries that renamed nothing (the new register is the old one) are dropped.\<close>

fun undo_history ::
  "isa_regs \<Rightarrow> phys_regfile \<Rightarrow> 64 word \<Rightarrow> rename_history list \<Rightarrow> rename_map \<Rightarrow> unified_free_list \<Rightarrow>
   (rename_history list \<times> rename_map \<times> unified_free_list) result" where
  "undo_history isa rf sn [] m fl = Inr ([], m, fl)"
| "undo_history isa rf sn (h # hs) m fl =
     (if sn < hb_instSeqNum h
      then if hb_newPhysReg h \<noteq> hb_prevPhysReg h
           then ebind (um_setEntry isa rf (hb_archReg h) (hb_prevPhysReg h) m) (\<lambda>m'.
                ebind (ufl_addReg rf (hb_newPhysReg h) fl) (\<lambda>fl'. undo_history isa rf sn hs m' fl'))
           else undo_history isa rf sn hs m fl
      else Inr (h # hs, m, fl))"

definition doSquash :: "isa_regs \<Rightarrow> 64 word \<Rightarrow> nat \<Rightarrow> rename_stage \<Rightarrow> rename_stage result" where
  "doSquash isa sn tid s =
     ebind (nthE (rs_threads s) tid) (\<lambda>t.
     ebind (nthE (o3_renameMap (rs_regs s)) tid) (\<lambda>m.
     ebind (undo_history isa (o3_regFile (rs_regs s)) sn (rt_history t) m (o3_freeList (rs_regs s))) (\<lambda>(hs, m', fl).
       Inr (set_t tid (t\<lparr>rt_history := hs\<rparr>)
             (s\<lparr>rs_regs := (rs_regs s)\<lparr>o3_renameMap := (o3_renameMap (rs_regs s))[tid := m'], o3_freeList := fl\<rparr>\<rparr>)))))"

text \<open>Commit walks from the oldest entry and frees the registers that were replaced.\<close>

fun commit_history ::
  "phys_regfile \<Rightarrow> 64 word \<Rightarrow> rename_history list \<Rightarrow> unified_free_list \<Rightarrow>
   (rename_history list \<times> unified_free_list) result" where
  "commit_history rf sn [] fl = Inr ([], fl)"
| "commit_history rf sn (h # hs) fl =
     (if hb_instSeqNum h \<le> sn
      then if hb_newPhysReg h \<noteq> hb_prevPhysReg h
           then ebind (ufl_addReg rf (hb_prevPhysReg h) fl) (\<lambda>fl'. commit_history rf sn hs fl')
           else commit_history rf sn hs fl
      else Inr (h # hs, fl))"

definition removeFromHistory :: "64 word \<Rightarrow> nat \<Rightarrow> rename_stage \<Rightarrow> rename_stage result" where
  "removeFromHistory sn tid s =
     ebind (nthE (rs_threads s) tid) (\<lambda>t.
       if rt_history t = [] then Inr s
       else if sn < hb_instSeqNum (last (rt_history t)) then Inr s
       else ebind (commit_history (o3_regFile (rs_regs s)) sn (rev (rt_history t)) (o3_freeList (rs_regs s))) (\<lambda>(hs, fl).
         Inr (set_t tid (t\<lparr>rt_history := rev hs\<rparr>) (s\<lparr>rs_regs := (rs_regs s)\<lparr>o3_freeList := fl\<rparr>\<rparr>))))"

subsection \<open>Renaming the registers of an instruction\<close>

definition lookup_src :: "isa_regs \<Rightarrow> flatten_ops \<Rightarrow> o3_regs \<Rightarrow> nat \<Rightarrow> nat \<Rightarrow> phys_reg result" where
  "lookup_src isa fx rg tid src =
     ebind (nthE (o3_renameMap rg) tid) (\<lambda>m. ebind (regIdxToClass isa src) (\<lambda>(c, r).
       case c of IntRegClass \<Rightarrow> lookupInt (o3_regFile rg) (flattenIntIndex fx tid r) m
       | FloatRegClass \<Rightarrow> lookupFloat (o3_regFile rg) (flattenFloatIndex fx tid r) m
       | CCRegClass \<Rightarrow> lookupCC (o3_regFile rg) (flattenCCIndex fx tid r) m
       | MiscRegClass \<Rightarrow> lookupMisc (o3_regFile rg) r))"

definition rename_src :: "isa_regs \<Rightarrow> flatten_ops \<Rightarrow> o3_regs \<Rightarrow> nat \<Rightarrow> nat \<Rightarrow> dyn_inst \<Rightarrow> dyn_inst result" where
  "rename_src isa fx rg tid k i =
     ebind (nthE (op_srcRegIdx (di_static i)) k) (\<lambda>src.
     ebind (lookup_src isa fx rg tid src) (\<lambda>p.
     ebind (renameSrcReg k p i) (\<lambda>i1.
     ebind (sb_getReg isa p (o3_scoreboard rg)) (\<lambda>ready.
       if ready then markSrcRegReady k i1 else Inr i1))))"

definition renameSrcRegs :: "isa_regs \<Rightarrow> flatten_ops \<Rightarrow> o3_regs \<Rightarrow> nat \<Rightarrow> dyn_inst \<Rightarrow> dyn_inst result" where
  "renameSrcRegs isa fx rg tid i = foldE (rename_src isa fx rg tid) [0..<length (op_srcRegIdx (di_static i))] i"

text \<open>The new and the previous register, the updated map and free list, and the flat register in
  the unified index space.\<close>

definition rename_class ::
  "isa_regs \<Rightarrow> flatten_ops \<Rightarrow> phys_regfile \<Rightarrow> nat \<Rightarrow> nat \<Rightarrow> rename_map \<Rightarrow> unified_free_list \<Rightarrow>
   ((rename_info \<times> rename_map \<times> unified_free_list) \<times> nat) result" where
  "rename_class isa fx rf tid dest m fl =
     ebind (regIdxToClass isa dest) (\<lambda>(c, r).
       case c of
         IntRegClass \<Rightarrow> let a = flattenIntIndex fx tid r in ebind (renameInt rf a m fl) (\<lambda>x. Inr (x, a))
       | FloatRegClass \<Rightarrow> let a = flattenFloatIndex fx tid r in
           ebind (renameFloat rf a m fl) (\<lambda>x. Inr (x, a + FP_Reg_Base isa))
       | CCRegClass \<Rightarrow> let a = flattenCCIndex fx tid r in
           ebind (renameCC rf a m fl) (\<lambda>x. Inr (x, a + CC_Reg_Base isa))
       | MiscRegClass \<Rightarrow> ebind (renameMisc rf r m fl) (\<lambda>x. Inr (x, r + Misc_Reg_Base isa)))"

definition rename_dest ::
  "isa_regs \<Rightarrow> flatten_ops \<Rightarrow> nat \<Rightarrow> nat \<Rightarrow> o3_regs \<times> rename_history list \<times> dyn_inst \<Rightarrow>
   (o3_regs \<times> rename_history list \<times> dyn_inst) result" where
  "rename_dest isa fx tid k st =
     (case st of (rg, hs, i) \<Rightarrow>
       ebind (nthE (o3_renameMap rg) tid) (\<lambda>m.
       ebind (nthE (op_destRegIdx (di_static i)) k) (\<lambda>dest.
       ebind (rename_class isa fx (o3_regFile rg) tid dest m (o3_freeList rg)) (\<lambda>(((new, prev), m', fl), flat).
       ebind (flattenDestReg k flat i) (\<lambda>i1.
       ebind (sb_unsetReg isa new (o3_scoreboard rg)) (\<lambda>sb.
       ebind (renameDestReg k new prev i1) (\<lambda>i2.
         Inr (rg\<lparr>o3_renameMap := (o3_renameMap rg)[tid := m'], o3_freeList := fl, o3_scoreboard := sb\<rparr>,
              \<lparr>hb_instSeqNum = di_seqNum i, hb_archReg = flat, hb_newPhysReg = new, hb_prevPhysReg = prev\<rparr> # hs,
              i2))))))))"

definition renameDestRegs ::
  "isa_regs \<Rightarrow> flatten_ops \<Rightarrow> nat \<Rightarrow> o3_regs \<times> rename_history list \<times> dyn_inst \<Rightarrow>
   (o3_regs \<times> rename_history list \<times> dyn_inst) result" where
  "renameDestRegs isa fx tid st =
     (case st of (rg, hs, i) \<Rightarrow>
       foldE (rename_dest isa fx tid) [0..<length (op_destRegIdx (di_static i))] (rg, hs, i))"

subsection \<open>Free entries of the other stages\<close>

definition calcFreeROBEntries :: "iew_comm \<Rightarrow> rename_thread \<Rightarrow> int" where
  "calcFreeROBEntries iew t = int (rt_robEntries t) - (rt_instsInProgress t - int (iew_dispatched iew))"

definition calcFreeIQEntries :: "iew_comm \<Rightarrow> rename_thread \<Rightarrow> int" where
  "calcFreeIQEntries iew t = int (rt_iqEntries t) - (rt_instsInProgress t - int (iew_dispatched iew))"

definition calcFreeLQEntries :: "iew_comm \<Rightarrow> rename_thread \<Rightarrow> int" where
  "calcFreeLQEntries iew t = int (rt_lqEntries t) - (rt_loadsInProgress t - int (iew_dispatchedToLQ iew))"

definition calcFreeSQEntries :: "iew_comm \<Rightarrow> rename_thread \<Rightarrow> int" where
  "calcFreeSQEntries iew t = int (rt_sqEntries t) - (rt_storesInProgress t - int (iew_dispatchedToSQ iew))"

definition validInsts :: "rename_in \<Rightarrow> rename_stage \<Rightarrow> nat result" where
  "validInsts inp s =
     foldE (\<lambda>p n. ebind (deref (rs_heap s) p) (\<lambda>i. Inr (if di_squashed i then n else n + 1))) (in_fromDecode inp) 0"

definition readFreeEntries :: "iew_comm \<Rightarrow> commit_comm \<Rightarrow> rename_thread \<Rightarrow> rename_thread" where
  "readFreeEntries iew cm t =
     (let t1 = (if iew_usedIQ iew then t\<lparr>rt_iqEntries := iew_freeIQEntries iew\<rparr> else t);
          t2 = (if iew_usedLSQ iew
                then t1\<lparr>rt_lqEntries := iew_freeLQEntries iew, rt_sqEntries := iew_freeSQEntries iew\<rparr> else t1) in
      if cm_usedROB cm then t2\<lparr>rt_robEntries := cm_freeROBEntries cm, rt_emptyROB := cm_emptyROB cm\<rparr> else t2)"

definition readStallSignals :: "iew_comm \<Rightarrow> rename_thread \<Rightarrow> rename_thread result" where
  "readStallSignals iew t =
     (let t1 = (if iew_block iew then t\<lparr>rt_stallIEW := True\<rparr> else t) in
      if iew_unblock iew
      then assert_that ''stalls[tid].iew'' (rt_stallIEW t1) (Inr (t1\<lparr>rt_stallIEW := False\<rparr>))
      else Inr t1)"

definition checkStall :: "rename_in \<Rightarrow> nat \<Rightarrow> rename_stage \<Rightarrow> bool result" where
  "checkStall inp tid s =
     ebind (nthE (rs_threads s) tid) (\<lambda>t. ebind (nthE (in_iew inp) tid) (\<lambda>iew.
     ebind (nthE (o3_renameMap (rs_regs s)) tid) (\<lambda>m.
       if rt_stallIEW t then Inr True
       else if calcFreeROBEntries iew t \<le> 0 then Inr True
       else if calcFreeIQEntries iew t \<le> 0 then Inr True
       else if calcFreeLQEntries iew t \<le> 0 \<and> calcFreeSQEntries iew t \<le> 0 then Inr True
       else ebind (um_numFreeEntries m (o3_freeList (rs_regs s))) (\<lambda>n.
         if n = 0 then Inr True
         else Inr (rt_status t = SerializeStall \<and> (\<not> rt_emptyROB t \<or> rt_instsInProgress t \<noteq> 0))))))"

subsection \<open>Squash\<close>

text \<open>Instructions of the thread that arrive from decode in this cycle are marked.\<close>

definition squash_decoded :: "64 word \<Rightarrow> nat \<Rightarrow> inst_ptr \<Rightarrow> rename_stage \<Rightarrow> rename_stage result" where
  "squash_decoded sn tid p s =
     ebind (deref (rs_heap s) p) (\<lambda>i.
       if di_threadNumber i = tid \<and> sn < di_seqNum i
       then Inr ((put_inst p (i\<lparr>di_squashed := True\<rparr>) s)\<lparr>rs_wroteToTimeBuffer := True\<rparr>)
       else Inr s)"

definition squash_serialize :: "64 word \<Rightarrow> nat \<Rightarrow> rename_stage \<Rightarrow> rename_stage result" where
  "squash_serialize sn tid s =
     ebind (nthE (rs_threads s) tid) (\<lambda>t.
       if rt_status t = Blocked \<or> rt_status t = Unblocking
       then Inr (set_t tid (t\<lparr>rt_renameUnblock := True, rt_serializeInst := None\<rparr>) (s\<lparr>rs_resumeSerialize := False\<rparr>))
       else if rt_status t = SerializeStall
       then (case rt_serializeInst t of None \<Rightarrow> Inl NullDeref
             | Some p \<Rightarrow> ebind (deref (rs_heap s) p) (\<lambda>i.
                 if di_seqNum i \<le> sn then Inr (s\<lparr>rs_resumeSerialize := True\<rparr>)
                 else Inr (set_t tid (t\<lparr>rt_renameUnblock := True, rt_serializeInst := None\<rparr>)
                             (s\<lparr>rs_resumeSerialize := False\<rparr>))))
       else Inr s)"

definition rn_squash :: "isa_regs \<Rightarrow> rename_in \<Rightarrow> 64 word \<Rightarrow> nat \<Rightarrow> rename_stage \<Rightarrow> rename_stage result" where
  "rn_squash isa inp sn tid s =
     ebind (squash_serialize sn tid s) (\<lambda>s.
     ebind (upd_t tid (\<lambda>t. t\<lparr>rt_status := Squashing\<rparr>) s) (\<lambda>s.
     ebind (foldE (squash_decoded sn tid) (in_fromDecode inp) s) (\<lambda>s.
     ebind (upd_t tid (\<lambda>t. t\<lparr>rt_insts := [], rt_skid := []\<rparr>) s) (\<lambda>s.
       doSquash isa sn tid s))))"

subsection \<open>Signals\<close>

text \<open>The end of a serialization puts the instruction back at the front.\<close>

definition end_serialize :: "nat \<Rightarrow> rename_stage \<Rightarrow> rename_stage result" where
  "end_serialize tid s0 =
     ebind (nthE (rs_threads s0) tid) (\<lambda>t0.
     ebind (upd_t tid (\<lambda>t. t\<lparr>rt_status := Unblocking\<rparr>) s0) (\<lambda>s.
     ebind (unblock tid s) (\<lambda>(_, s).
       case rt_serializeInst t0 of None \<Rightarrow> Inl NullDeref
       | Some p \<Rightarrow> ebind (deref (rs_heap s) p) (\<lambda>i.
           upd_t tid (\<lambda>t. (if rt_skid t \<noteq> [] then t\<lparr>rt_skid := p # rt_skid t\<rparr> else t\<lparr>rt_insts := p # rt_insts t\<rparr>)
                            \<lparr>rt_serializeInst := None\<rparr>)
             (put_inst p (i\<lparr>di_serializeBefore := False\<rparr>) s)))))"

definition check_status :: "nat \<Rightarrow> rename_stage \<Rightarrow> (bool \<times> rename_stage) result" where
  "check_status tid s =
     ebind (nthE (rs_threads s) tid) (\<lambda>t.
       case rt_status t of
         Blocked \<Rightarrow> ebind (upd_t tid (\<lambda>t. t\<lparr>rt_status := Unblocking\<rparr>) s) (\<lambda>s.
                      ebind (unblock tid s) (\<lambda>(_, s). Inr (True, s)))
       | Squashing \<Rightarrow>
           if rs_resumeSerialize s then Inr (True, set_t tid (t\<lparr>rt_status := SerializeStall\<rparr>) s)
           else if rs_resumeUnblocking s then Inr (True, set_t tid (t\<lparr>rt_status := Unblocking\<rparr>) s)
           else Inr (False, set_t tid (t\<lparr>rt_status := Running\<rparr>) s)
       | SerializeStall \<Rightarrow> ebind (end_serialize tid s) (\<lambda>s. Inr (True, s))
       | _ \<Rightarrow> Inr (False, s))"

definition checkSignalsAndUpdate :: "isa_regs \<Rightarrow> rename_in \<Rightarrow> nat \<Rightarrow> rename_stage \<Rightarrow> (bool \<times> rename_stage) result" where
  "checkSignalsAndUpdate isa inp tid s =
     ebind (nthE (in_iew inp) tid) (\<lambda>iew. ebind (nthE (in_commit inp) tid) (\<lambda>cm.
     ebind (nthE (rs_threads s) tid) (\<lambda>t.
     ebind (readStallSignals iew (readFreeEntries iew cm t)) (\<lambda>t1.
       let s1 = set_t tid t1 s in
       if cm_squash cm then ebind (rn_squash isa inp (cm_doneSeqNum cm) tid s1) (\<lambda>s2. Inr (True, s2))
       else ebind (checkStall inp tid s1) (\<lambda>stall.
         if stall then block tid s1 else check_status tid s1)))))"

subsection \<open>Renaming the instructions of a thread\<close>

text \<open>Instructions come from the skid buffer while the thread unblocks, else from decode.\<close>

definition the_queue :: "bool \<Rightarrow> rename_thread \<Rightarrow> inst_ptr list" where
  "the_queue unb t = (if unb then rt_skid t else rt_insts t)"

definition set_queue :: "bool \<Rightarrow> inst_ptr list \<Rightarrow> rename_thread \<Rightarrow> rename_thread" where
  "set_queue unb q t = (if unb then t\<lparr>rt_skid := q\<rparr> else t\<lparr>rt_insts := q\<rparr>)"

definition mark_before :: "inst_ptr \<Rightarrow> rename_stage \<Rightarrow> rename_stage result" where
  "mark_before p s = ebind (deref (rs_heap s) p) (\<lambda>i. Inr (put_inst p (i\<lparr>di_serializeBefore := True\<rparr>) s))"

definition serializeAfter :: "bool \<Rightarrow> nat \<Rightarrow> rename_stage \<Rightarrow> rename_stage result" where
  "serializeAfter unb tid s =
     ebind (nthE (rs_threads s) tid) (\<lambda>t.
       case the_queue unb t of [] \<Rightarrow> Inr (set_t tid (t\<lparr>rt_serializeOnNextInst := True\<rparr>) s)
       | p # _ \<Rightarrow> mark_before p s)"

definition serialize_next :: "bool \<Rightarrow> nat \<Rightarrow> rename_stage \<Rightarrow> rename_stage result" where
  "serialize_next unb tid s =
     ebind (nthE (rs_threads s) tid) (\<lambda>t.
       if rt_serializeOnNextInst t
       then if rt_emptyROB t \<and> rt_instsInProgress t = 0 then Inr (set_t tid (t\<lparr>rt_serializeOnNextInst := False\<rparr>) s)
            else (case the_queue unb t of [] \<Rightarrow> Inr s | p # _ \<Rightarrow> mark_before p s)
       else Inr s)"

definition send_inst :: "isa_regs \<Rightarrow> flatten_ops \<Rightarrow> nat \<Rightarrow> inst_ptr \<Rightarrow> rename_stage \<Rightarrow> rename_stage result" where
  "send_inst isa fx tid p s =
     ebind (deref (rs_heap s) p) (\<lambda>i.
     ebind (renameSrcRegs isa fx (rs_regs s) (di_threadNumber i) i) (\<lambda>i1.
     ebind (nthE (rs_threads s) (di_threadNumber i)) (\<lambda>t.
     ebind (renameDestRegs isa fx (di_threadNumber i) (rs_regs s, rt_history t, i1)) (\<lambda>(rg, hs, i2).
     ebind (upd_t tid (\<lambda>t. t\<lparr>rt_loadsInProgress := rt_loadsInProgress t + (if op_isLoad (di_static i) then 1 else 0),
                              rt_storesInProgress := rt_storesInProgress t + (if op_isStore (di_static i) then 1 else 0)\<rparr>)
              (put_inst p i2 (set_t (di_threadNumber i) (t\<lparr>rt_history := hs\<rparr>) (s\<lparr>rs_regs := rg\<rparr>)))) (\<lambda>s1.
       Inr (s1\<lparr>rs_toIEW := rs_toIEW s1 @ [p]\<rparr>))))))"

datatype iteration = Break | Skipped | Sent

text \<open>What becomes of an instruction that was taken from the queue and is not squashed.\<close>

definition process_inst ::
  "isa_regs \<Rightarrow> flatten_ops \<Rightarrow> bool \<Rightarrow> nat \<Rightarrow> inst_ptr \<Rightarrow> dyn_inst \<Rightarrow> rename_stage \<Rightarrow> (iteration \<times> rename_stage) result" where
  "process_inst isa fx unb tid p i s =
     (if (op_isIprAccess (di_static i) \<or> isSerializeBefore i) \<and> \<not> di_serializeHandled i
      then ebind (upd_t tid (\<lambda>t. t\<lparr>rt_status := SerializeStall, rt_serializeInst := Some p\<rparr>)
                   (if di_serializeBefore i then s else put_inst p (i\<lparr>di_serializeHandled := True\<rparr>) s)) (\<lambda>s1.
             Inr (Break, s1\<lparr>rs_blockThisCycle := True\<rparr>))
      else ebind (if (op_isStoreConditional (di_static i) \<or> isSerializeAfter i) \<and> \<not> di_serializeHandled i
                  then serializeAfter unb tid (put_inst p (i\<lparr>di_serializeHandled := True\<rparr>) s)
                  else Inr s) (\<lambda>s1.
             ebind (send_inst isa fx tid p s1) (\<lambda>s2. Inr (Sent, s2))))"

definition rename_head ::
  "isa_regs \<Rightarrow> flatten_ops \<Rightarrow> rename_in \<Rightarrow> bool \<Rightarrow> nat \<Rightarrow> rename_stage \<Rightarrow> (iteration \<times> rename_stage) result" where
  "rename_head isa fx inp unb tid s =
     ebind (nthE (rs_threads s) tid) (\<lambda>t. ebind (nthE (in_iew inp) tid) (\<lambda>iew.
       case the_queue unb t of [] \<Rightarrow> Inl (AssertFail ''!insts_to_rename.empty()'')
       | p # q \<Rightarrow> ebind (deref (rs_heap s) p) (\<lambda>i.
           if op_isLoad (di_static i) \<and> calcFreeLQEntries iew t \<le> 0 then Inr (Break, s)
           else if op_isStore (di_static i) \<and> calcFreeSQEntries iew t \<le> 0 then Inr (Break, s)
           else let s1 = set_t tid (set_queue unb q t) s in
             if di_squashed i then Inr (Skipped, s1)
             else ebind (nthE (o3_renameMap (rs_regs s)) tid) (\<lambda>m.
               ebind (canRename (op_numIntDestRegs (di_static i)) (op_numFPDestRegs (di_static i))
                        (op_numCCDestRegs (di_static i)) m (o3_freeList (rs_regs s))) (\<lambda>ok.
                 if ok then process_inst isa fx unb tid p i s1
                 else Inr (Break, (set_t tid (set_queue unb (p # q) t) s)\<lparr>rs_blockThisCycle := True\<rparr>))))))"

text \<open>The loop ends because each round consumes one of the available instructions or stops. The
  result counts the instructions left and the instructions renamed.\<close>

fun rename_loop ::
  "isa_regs \<Rightarrow> flatten_ops \<Rightarrow> rename_in \<Rightarrow> bool \<Rightarrow> nat \<Rightarrow> nat \<Rightarrow> nat \<Rightarrow> rename_stage \<Rightarrow> (nat \<times> nat \<times> rename_stage) result" where
  "rename_loop isa fx inp unb tid 0 n s = Inr (0, n, s)"
| "rename_loop isa fx inp unb tid (Suc k) n s =
     (if length (rs_toIEW s) < rs_renameWidth s
      then ebind (rename_head isa fx inp unb tid s) (\<lambda>(it, s1).
             case it of Break \<Rightarrow> Inr (Suc k, n, s1)
             | Skipped \<Rightarrow> rename_loop isa fx inp unb tid k n s1
             | Sent \<Rightarrow> rename_loop isa fx inp unb tid k (n + 1) s1)
      else Inr (Suc k, n, s))"

definition finish_rename :: "nat \<Rightarrow> nat \<times> nat \<times> rename_stage \<Rightarrow> rename_stage result" where
  "finish_rename tid r =
     (case r of (left, n, s) \<Rightarrow>
       ebind (upd_t tid (\<lambda>t. t\<lparr>rt_instsInProgress := rt_instsInProgress t + int n\<rparr>) s) (\<lambda>s1.
         let s2 = s1\<lparr>rs_wroteToTimeBuffer := rs_wroteToTimeBuffer s1 \<or> rs_toIEW s1 \<noteq> [],
                     rs_blockThisCycle := rs_blockThisCycle s1 \<or> left \<noteq> 0\<rparr> in
         if rs_blockThisCycle s2
         then block_quiet tid s2 else Inr s2))"

definition renameInsts :: "isa_regs \<Rightarrow> flatten_ops \<Rightarrow> rename_in \<Rightarrow> nat \<Rightarrow> rename_stage \<Rightarrow> rename_stage result" where
  "renameInsts isa fx inp tid s =
     ebind (nthE (rs_threads s) tid) (\<lambda>t. ebind (nthE (in_iew inp) tid) (\<lambda>iew.
       let unb = (rt_status t = Unblocking);
           insts_available = length (the_queue unb t);
           min_free_entries = min (calcFreeROBEntries iew t) (calcFreeIQEntries iew t) in
       if insts_available = 0 then Inr s
       else if min_free_entries \<le> 0
       then ebind (block tid (s\<lparr>rs_blockThisCycle := True\<rparr>)) (\<lambda>(_, s1). Inr s1)
       else let limited = (min_free_entries < int insts_available) in
         ebind (serialize_next unb tid (s\<lparr>rs_blockThisCycle := rs_blockThisCycle s \<or> limited\<rparr>)) (\<lambda>s1.
         ebind (rename_loop isa fx inp unb tid (if limited then nat min_free_entries else insts_available) 0 s1)
           (finish_rename tid))))"

text \<open>Resuming a stall after a squash tells the previous stages to block again.\<close>

definition resume :: "nat \<Rightarrow> rename_stage \<Rightarrow> rename_stage result" where
  "resume tid s =
     ebind (nthE (rs_threads s) tid) (\<lambda>t.
       if rt_status t = SerializeStall \<and> rs_resumeSerialize s
       then block_quiet tid (s\<lparr>rs_resumeSerialize := False\<rparr>)
       else if rt_status t = Unblocking \<and> rs_resumeUnblocking s
       then ebind (block_quiet tid s) (\<lambda>s1. Inr (s1\<lparr>rs_resumeUnblocking := False\<rparr>))
       else Inr s)"

text \<open>While the thread unblocks, what arrives from decode goes to the skid buffer.\<close>

definition skid_valid :: "rename_in \<Rightarrow> nat \<Rightarrow> rename_stage \<Rightarrow> rename_stage result" where
  "skid_valid inp tid s = ebind (validInsts inp s) (\<lambda>n. if n \<noteq> 0 then skidInsert tid s else Inr s)"

definition rn_rename ::
  "isa_regs \<Rightarrow> flatten_ops \<Rightarrow> rename_in \<Rightarrow> bool \<Rightarrow> nat \<Rightarrow> rename_stage \<Rightarrow> (bool \<times> rename_stage) result" where
  "rn_rename isa fx inp status_change tid s0 =
     ebind (resume tid s0) (\<lambda>s. ebind (nthE (rs_threads s) tid) (\<lambda>t.
       if rt_status t = Running \<or> rt_status t = Idle
       then ebind (renameInsts isa fx inp tid s) (\<lambda>s1. Inr (status_change, s1))
       else if rt_status t = Unblocking
       then ebind (renameInsts isa fx inp tid s) (\<lambda>s1.
            ebind (skid_valid inp tid s1) (\<lambda>s2.
            ebind (unblock tid s2) (\<lambda>(u, s3). Inr (u \<or> status_change \<or> rs_blockThisCycle s3, s3))))
       else Inr (status_change, s)))"

subsection \<open>One cycle\<close>

definition tick_thread ::
  "isa_regs \<Rightarrow> flatten_ops \<Rightarrow> rename_in \<Rightarrow> nat \<Rightarrow> bool \<times> rename_stage \<Rightarrow> (bool \<times> rename_stage) result" where
  "tick_thread isa fx inp tid st =
     ebind (checkSignalsAndUpdate isa inp tid (snd st)) (\<lambda>(b, s). rn_rename isa fx inp (b \<or> fst st) tid s)"

definition tick_commit :: "rename_in \<Rightarrow> nat \<Rightarrow> rename_stage \<Rightarrow> rename_stage result" where
  "tick_commit inp tid s =
     ebind (nthE (in_commit inp) tid) (\<lambda>cm. ebind (nthE (rs_threads s) tid) (\<lambda>t.
       if cm_doneSeqNum cm \<noteq> 0 \<and> \<not> cm_squash cm \<and> rt_status t \<noteq> Squashing
       then removeFromHistory (cm_doneSeqNum cm) tid s else Inr s))"

definition tick_progress :: "rename_in \<Rightarrow> nat \<Rightarrow> rename_stage \<Rightarrow> rename_stage result" where
  "tick_progress inp tid s =
     ebind (nthE (in_iew inp) tid) (\<lambda>iew. ebind (nthE (rs_threads s) tid) (\<lambda>t.
       let t1 = t\<lparr>rt_instsInProgress := rt_instsInProgress t - int (iew_dispatched iew),
                  rt_loadsInProgress := rt_loadsInProgress t - int (iew_dispatchedToLQ iew),
                  rt_storesInProgress := rt_storesInProgress t - int (iew_dispatchedToSQ iew)\<rparr> in
       assert_that ''loadsInProgress[tid] >= 0'' (0 \<le> rt_loadsInProgress t1)
       (assert_that ''storesInProgress[tid] >= 0'' (0 \<le> rt_storesInProgress t1)
       (assert_that ''instsInProgress[tid] >=0'' (0 \<le> rt_instsInProgress t1)
       (Inr (set_t tid t1 s))))))"

definition tick_finish :: "rename_in \<Rightarrow> rename_stage \<Rightarrow> rename_stage result" where
  "tick_finish inp s =
     ebind (foldE (tick_commit inp) (rs_activeThreads s)
              (if rs_wroteToTimeBuffer s then s\<lparr>rs_cpu := rs_cpu s @ [ActivityThisCycle]\<rparr> else s)) (\<lambda>s1.
       foldE (tick_progress inp) [0..<length (rs_threads s1)] s1)"

definition rn_tick :: "isa_regs \<Rightarrow> flatten_ops \<Rightarrow> rename_in \<Rightarrow> rename_stage \<Rightarrow> rename_stage result" where
  "rn_tick isa fx inp s =
     ebind (sortInsts inp (s\<lparr>rs_wroteToTimeBuffer := False, rs_blockThisCycle := False, rs_toIEW := []\<rparr>)) (\<lambda>s1.
     ebind (foldE (tick_thread isa fx inp) (rs_activeThreads s1) (False, s1)) (\<lambda>(status_change, s2).
     ebind (if status_change then updateStatus s2 else Inr s2) (tick_finish inp)))"

text \<open>The wires to decode are fresh in each cycle.\<close>

definition clear_wires :: "rename_stage \<Rightarrow> rename_stage" where
  "clear_wires s = s\<lparr>rs_threads := map (\<lambda>t. t\<lparr>rt_renameBlock := False, rt_renameUnblock := False\<rparr>) (rs_threads s)\<rparr>"

text \<open>The removal of a thread releases its registers, then squashes the stage; the number is that of
  the instruction at the head of the reorder buffer.\<close>

definition rn_removeThread :: "isa_regs \<Rightarrow> rename_in \<Rightarrow> 64 word \<Rightarrow> nat \<Rightarrow> rename_stage \<Rightarrow> rename_stage result" where
  "rn_removeThread isa inp sn tid s =
     ebind (removeThread_regs isa tid (rs_regs s)) (\<lambda>rg. rn_squash isa inp sn tid (s\<lparr>rs_regs := rg\<rparr>))"

end
