(* ===== verification/Rename_Inv.thy ===== *)
theory Rename_Inv
  imports Rename
begin

text \<open>
  Conservation of physical registers. Each register is in one place: on a free list, in the rename
  map of one thread, or in the history buffer as the register that a rename replaced. The rename of
  a destination, the undo of the history and its release at commit keep this balance.
\<close>

subsection \<open>A rename map as one list\<close>

definition all_free :: "unified_free_list \<Rightarrow> phys_reg list" where
  "all_free fl = intList fl @ floatList fl @ ccList fl"

definition all_map :: "rename_map \<Rightarrow> phys_reg list" where
  "all_map m = srm_map (intMap m) @ srm_map (floatMap m) @ srm_map (ccMap m)"

text \<open>The classes of unified register indices do not overlap.\<close>

definition isa_ok :: "isa_regs \<Rightarrow> bool" where
  "isa_ok isa \<longleftrightarrow>
     NumIntRegs isa \<le> FP_Reg_Base isa \<and> FP_Reg_Base isa + NumFloatRegs isa \<le> CC_Reg_Base isa \<and>
     CC_Reg_Base isa + NumCCRegs isa \<le> Misc_Reg_Base isa \<and> Misc_Reg_Base isa \<le> Max_Reg_Index isa \<and>
     NumCCRegs isa < 2 ^ 16 - 1"

text \<open>The place of a unified register index in \<open>all_map\<close>.\<close>

definition um_pos :: "isa_regs \<Rightarrow> nat \<Rightarrow> nat option" where
  "um_pos isa r =
     (if r < NumIntRegs isa then Some r
      else if FP_Reg_Base isa \<le> r \<and> r < FP_Reg_Base isa + NumFloatRegs isa
      then Some (NumIntRegs isa + (r - FP_Reg_Base isa))
      else if CC_Reg_Base isa \<le> r \<and> r < CC_Reg_Base isa + NumCCRegs isa
      then Some (NumIntRegs isa + NumFloatRegs isa + (r - CC_Reg_Base isa))
      else None)"

definition srm_wf :: "reg_class \<Rightarrow> nat \<Rightarrow> (phys_reg \<Rightarrow> bool) \<Rightarrow> simple_rename_map \<Rightarrow> bool" where
  "srm_wf c n ok m \<longleftrightarrow> length (srm_map m) = n \<and> srm_freeList m = Some c \<and> list_all ok (srm_map m)"

definition um_wf :: "isa_regs \<Rightarrow> phys_regfile \<Rightarrow> rename_map \<Rightarrow> bool" where
  "um_wf isa rf m \<longleftrightarrow>
     srm_wf IntRegClass (NumIntRegs isa) (isIntPhysReg rf) (intMap m) \<and>
     srm_wf FloatRegClass (NumFloatRegs isa) (isFloatPhysReg rf) (floatMap m) \<and>
     srm_wf CCRegClass (NumCCRegs isa) (isCCPhysReg rf) (ccMap m)"

lemma length_all_map: "um_wf isa rf m \<Longrightarrow> length (all_map m) = NumIntRegs isa + NumFloatRegs isa + NumCCRegs isa"
  by (simp add: um_wf_def srm_wf_def all_map_def)

lemma um_pos_lt: "um_pos isa r = Some k \<Longrightarrow> k < NumIntRegs isa + NumFloatRegs isa + NumCCRegs isa"
  by (auto simp: um_pos_def split: if_splits)

subsection \<open>One update of a map\<close>

text \<open>\<open>m'\<close> is \<open>m\<close> with the register \<open>p\<close> at the place of the unified index \<open>r\<close>.\<close>

definition um_zero :: "rename_map \<Rightarrow> nat \<times> nat \<times> nat" where
  "um_zero m = (srm_zeroReg (intMap m), srm_zeroReg (floatMap m), srm_zeroReg (ccMap m))"

definition map_at :: "isa_regs \<Rightarrow> phys_regfile \<Rightarrow> nat \<Rightarrow> phys_reg \<Rightarrow> rename_map \<Rightarrow> rename_map \<Rightarrow> bool" where
  "map_at isa rf r p m m' \<longleftrightarrow>
     um_wf isa rf m' \<and> um_zero m' = um_zero m \<and> (\<exists>k. um_pos isa r = Some k \<and> all_map m' = (all_map m)[k := p])"

lemma rename_map_eqI:
  assumes "um_wf isa rf m" "um_wf isa rf m'" "all_map m = all_map m'" "um_zero m = um_zero m'"
  shows "m = m'"
  using assms by (cases m, cases m', cases "intMap m", cases "floatMap m", cases "ccMap m", cases "intMap m'",
      cases "floatMap m'", cases "ccMap m'") (auto simp: um_wf_def srm_wf_def all_map_def um_zero_def append_eq_append_conv)

lemma list_all_update: "list_all P xs \<Longrightarrow> P x \<Longrightarrow> list_all P (xs[i := x])"
  by (auto simp: list_all_iff dest: set_update_subset_insert [THEN subsetD])

lemma map_at_int:
  "isa_ok isa \<Longrightarrow> um_wf isa rf m \<Longrightarrow> a < NumIntRegs isa \<Longrightarrow> isIntPhysReg rf p \<Longrightarrow>
   map_at isa rf a p m (m\<lparr>intMap := (intMap m)\<lparr>srm_map := (srm_map (intMap m))[a := p]\<rparr>\<rparr>)"
  by (simp add: map_at_def um_wf_def srm_wf_def um_pos_def all_map_def um_zero_def
      list_all_update list_update_append)

lemma map_at_float:
  "isa_ok isa \<Longrightarrow> um_wf isa rf m \<Longrightarrow> a < NumFloatRegs isa \<Longrightarrow> isFloatPhysReg rf p \<Longrightarrow>
   map_at isa rf (a + FP_Reg_Base isa) p m
     (m\<lparr>floatMap := (floatMap m)\<lparr>srm_map := (srm_map (floatMap m))[a := p]\<rparr>\<rparr>)"
  by (simp add: isa_ok_def map_at_def um_wf_def srm_wf_def um_pos_def all_map_def um_zero_def
      list_all_update list_update_append)

lemma map_at_cc:
  "isa_ok isa \<Longrightarrow> um_wf isa rf m \<Longrightarrow> a < NumCCRegs isa \<Longrightarrow> isCCPhysReg rf p \<Longrightarrow>
   map_at isa rf (a + CC_Reg_Base isa) p m
     (m\<lparr>ccMap := (ccMap m)\<lparr>srm_map := (srm_map (ccMap m))[a := p]\<rparr>\<rparr>)"
  by (simp add: isa_ok_def map_at_def um_wf_def srm_wf_def um_pos_def all_map_def um_zero_def
      list_all_update list_update_append)

subsection \<open>Taking and giving back a register\<close>

lemma ufl_getReg_mset:
  "ufl_getReg c fl = Inr (r, fl') \<Longrightarrow> mset (all_free fl) = add_mset r (mset (all_free fl'))"
  by (auto simp: ufl_getReg_def the_list_def set_list_def fl_getReg_def result_iffs all_free_def
      split: option.splits reg_class.splits list.splits)

lemma ufl_addReg_mset:
  "ufl_addReg rf r fl = Inr fl' \<Longrightarrow> mset (all_free fl') = add_mset r (mset (all_free fl))"
  by (auto simp: ufl_addReg_def fl_addReg_def all_free_def result_iffs split: if_splits)

definition phys_ok :: "phys_regfile \<Rightarrow> phys_reg \<Rightarrow> bool" where
  "phys_ok rf r \<longleftrightarrow> isIntPhysReg rf r \<or> isFloatPhysReg rf r \<or> isCCPhysReg rf r"

lemma ufl_addReg_ok: "phys_ok rf r \<Longrightarrow> \<exists>fl'. ufl_addReg rf r fl = Inr fl'"
  by (auto simp: ufl_addReg_def phys_ok_def)

text \<open>A rename takes a free register and puts it in the place of the previous one, or leaves
  everything as it is and returns the same register twice.\<close>

definition renamed ::
  "isa_regs \<Rightarrow> phys_regfile \<Rightarrow> nat \<Rightarrow> rename_info \<Rightarrow> rename_map \<Rightarrow> unified_free_list \<Rightarrow> rename_map \<Rightarrow> unified_free_list \<Rightarrow> bool" where
  "renamed isa rf flat info m fl m' fl' \<longleftrightarrow>
     (fst info = snd info \<and> m' = m \<and> fl' = fl) \<or>
     (map_at isa rf flat (fst info) m m' \<and> snd info = all_map m ! the (um_pos isa flat) \<and>
      mset (all_free fl) = add_mset (fst info) (mset (all_free fl')) \<and> phys_ok rf (fst info))"

lemma srm_rename_cases:
  assumes "srm_rename a m fl = Inr (info, m', fl')"
  shows "a < length (srm_map m) \<and>
    (fst info = snd info \<and> m' = m \<and> fl' = fl \<or>
     snd info = srm_map m ! a \<and> m' = m\<lparr>srm_map := (srm_map m)[a := fst info]\<rparr> \<and>
     mset (all_free fl) = add_mset (fst info) (mset (all_free fl')))"
  using assms by (auto simp: srm_rename_def result_iffs vector_iffs dest: ufl_getReg_mset split: if_splits)

lemma renameInt_renamed:
  assumes "renameInt rf a m fl = Inr (info, m', fl')" "isa_ok isa" "um_wf isa rf m"
  shows "renamed isa rf a info m fl m' fl'"
proof -
  obtain im where 1: "srm_rename a (intMap m) fl = Inr (info, im, fl')" and 2: "isIntPhysReg rf (fst info)"
    and 3: "m' = m\<lparr>intMap := im\<rparr>"
    using assms(1) by (auto simp: renameInt_def result_iffs)
  have a: "a < NumIntRegs isa" using srm_rename_cases [OF 1] assms(3) by (simp add: um_wf_def srm_wf_def)
  then have "srm_map (intMap m) ! a = all_map m ! the (um_pos isa a)"
    using assms(3) by (simp add: um_pos_def all_map_def nth_append um_wf_def srm_wf_def)
  with srm_rename_cases [OF 1] 2 3 map_at_int [OF assms(2,3) a 2] show ?thesis
    by (auto simp: renamed_def phys_ok_def)
qed

lemma renameFloat_renamed:
  assumes "renameFloat rf a m fl = Inr (info, m', fl')" "isa_ok isa" "um_wf isa rf m"
  shows "renamed isa rf (a + FP_Reg_Base isa) info m fl m' fl'"
proof -
  obtain fm where 1: "srm_rename a (floatMap m) fl = Inr (info, fm, fl')" and 2: "isFloatPhysReg rf (fst info)"
    and 3: "m' = m\<lparr>floatMap := fm\<rparr>"
    using assms(1) by (auto simp: renameFloat_def result_iffs)
  have a: "a < NumFloatRegs isa" using srm_rename_cases [OF 1] assms(3) by (simp add: um_wf_def srm_wf_def)
  then have "srm_map (floatMap m) ! a = all_map m ! the (um_pos isa (a + FP_Reg_Base isa))"
    using assms(2,3) by (simp add: um_pos_def all_map_def nth_append um_wf_def srm_wf_def isa_ok_def)
  with srm_rename_cases [OF 1] 2 3 map_at_float [OF assms(2,3) a 2] show ?thesis
    by (auto simp: renamed_def phys_ok_def)
qed

lemma renameCC_renamed:
  assumes "renameCC rf a m fl = Inr (info, m', fl')" "isa_ok isa" "um_wf isa rf m"
  shows "renamed isa rf (a + CC_Reg_Base isa) info m fl m' fl'"
proof -
  obtain cm where 1: "srm_rename a (ccMap m) fl = Inr (info, cm, fl')" and 2: "isCCPhysReg rf (fst info)"
    and 3: "m' = m\<lparr>ccMap := cm\<rparr>"
    using assms(1) by (auto simp: renameCC_def result_iffs)
  have a: "a < NumCCRegs isa" using srm_rename_cases [OF 1] assms(3) by (simp add: um_wf_def srm_wf_def)
  then have "srm_map (ccMap m) ! a = all_map m ! the (um_pos isa (a + CC_Reg_Base isa))"
    using assms(2,3) by (simp add: um_pos_def all_map_def nth_append um_wf_def srm_wf_def isa_ok_def)
  with srm_rename_cases [OF 1] 2 3 map_at_cc [OF assms(2,3) a 2] show ?thesis
    by (auto simp: renamed_def phys_ok_def)
qed

lemma rename_class_renamed:
  assumes "rename_class isa fx rf tid dest m fl = Inr ((info, m', fl'), flat)" "isa_ok isa" "um_wf isa rf m"
  shows "renamed isa rf flat info m fl m' fl'"
proof -
  obtain c r where c: "regIdxToClass isa dest = Inr (c, r)"
    using assms(1) by (auto simp: rename_class_def ebind_Inr_iff)
  show ?thesis
  proof (cases c)
    case IntRegClass
    with assms(1) c have "renameInt rf flat m fl = Inr (info, m', fl')"
      by (auto simp: rename_class_def result_iffs Let_def)
    then show ?thesis using assms(2,3) by (rule renameInt_renamed)
  next
    case FloatRegClass
    with assms(1) c obtain a where "renameFloat rf a m fl = Inr (info, m', fl')" "flat = a + FP_Reg_Base isa"
      by (auto simp: rename_class_def result_iffs Let_def)
    then show ?thesis using assms(2,3) by (auto intro: renameFloat_renamed)
  next
    case CCRegClass
    with assms(1) c obtain a where "renameCC rf a m fl = Inr (info, m', fl')" "flat = a + CC_Reg_Base isa"
      by (auto simp: rename_class_def result_iffs Let_def)
    then show ?thesis using assms(2,3) by (auto intro: renameCC_renamed)
  next
    case MiscRegClass
    with assms(1) c show ?thesis
      by (auto simp: rename_class_def result_iffs renameMisc_def renamed_def)
  qed
qed

text \<open>Setting an entry by its unified index.\<close>

lemma um_setEntry_at:
  assumes "isa_ok isa" "um_wf isa rf m" "um_pos isa r = Some k" "um_setEntry isa rf r p m = Inr m'"
  shows "map_at isa rf r p m m'"
proof -
  consider "r < NumIntRegs isa" | "FP_Reg_Base isa \<le> r" "r < FP_Reg_Base isa + NumFloatRegs isa"
    | "CC_Reg_Base isa \<le> r" "r < CC_Reg_Base isa + NumCCRegs isa"
    using assms(3) by (auto simp: um_pos_def split: if_splits)
  then show ?thesis
  proof cases
    case 1 then show ?thesis using assms map_at_int [OF assms(1,2) 1, of p]
      by (auto simp: um_setEntry_def regIdxToClass_def isa_ok_def setIntEntry_def srm_setEntry_def result_iffs vector_iffs)
  next
    case 2 then show ?thesis using assms map_at_float [OF assms(1,2), of "r - FP_Reg_Base isa" p]
      by (auto simp: um_setEntry_def regIdxToClass_def isa_ok_def setFloatEntry_def srm_setEntry_def result_iffs vector_iffs)
  next
    case 3 then show ?thesis using assms map_at_cc [OF assms(1,2), of "r - CC_Reg_Base isa" p]
      by (auto simp: um_setEntry_def regIdxToClass_def isa_ok_def setCCEntry_def srm_setEntry_def result_iffs vector_iffs)
  qed
qed

subsection \<open>History of a thread\<close>

text \<open>The registers that the renames of a history replaced.\<close>

definition prevs :: "rename_history list \<Rightarrow> phys_reg list" where
  "prevs hs = map hb_prevPhysReg (filter (\<lambda>h. hb_newPhysReg h \<noteq> hb_prevPhysReg h) hs)"

text \<open>The map holds the new register of the youngest rename of a register, and so on after its undo.\<close>

fun hist_ok :: "isa_regs \<Rightarrow> phys_reg list \<Rightarrow> rename_history list \<Rightarrow> bool" where
  "hist_ok isa xs [] = True"
| "hist_ok isa xs (h # hs) =
     (if hb_newPhysReg h = hb_prevPhysReg h then hist_ok isa xs hs
      else (case um_pos isa (hb_archReg h) of None \<Rightarrow> False
            | Some k \<Rightarrow> xs ! k = hb_newPhysReg h \<and> hist_ok isa (xs[k := hb_prevPhysReg h]) hs))"

text \<open>The map that the undo of renames leaves.\<close>

fun undone :: "isa_regs \<Rightarrow> phys_reg list \<Rightarrow> rename_history list \<Rightarrow> phys_reg list" where
  "undone isa xs [] = xs"
| "undone isa xs (h # hs) =
     (if hb_newPhysReg h = hb_prevPhysReg h then undone isa xs hs
      else (case um_pos isa (hb_archReg h) of None \<Rightarrow> undone isa xs hs
            | Some k \<Rightarrow> undone isa (xs[k := hb_prevPhysReg h]) hs))"

definition fits :: "isa_regs \<Rightarrow> phys_regfile \<Rightarrow> nat \<Rightarrow> phys_reg \<Rightarrow> bool" where
  "fits isa rf r p \<longleftrightarrow>
     (r < NumIntRegs isa \<and> isIntPhysReg rf p) \<or>
     (FP_Reg_Base isa \<le> r \<and> r < FP_Reg_Base isa + NumFloatRegs isa \<and> isFloatPhysReg rf p) \<or>
     (CC_Reg_Base isa \<le> r \<and> r < CC_Reg_Base isa + NumCCRegs isa \<and> isCCPhysReg rf p)"

definition hist_typed :: "isa_regs \<Rightarrow> phys_regfile \<Rightarrow> rename_history list \<Rightarrow> bool" where
  "hist_typed isa rf hs =
     list_all (\<lambda>h. hb_newPhysReg h = hb_prevPhysReg h \<or>
       phys_ok rf (hb_newPhysReg h) \<and> fits isa rf (hb_archReg h) (hb_prevPhysReg h)) hs"

definition balance :: "rename_map \<Rightarrow> unified_free_list \<Rightarrow> rename_history list \<Rightarrow> phys_reg multiset" where
  "balance m fl hs = mset (all_free fl) + mset (all_map m) + mset (prevs hs)"

definition thread_ok :: "isa_regs \<Rightarrow> phys_regfile \<Rightarrow> rename_map \<Rightarrow> rename_history list \<Rightarrow> bool" where
  "thread_ok isa rf m hs \<longleftrightarrow> um_wf isa rf m \<and> hist_ok isa (all_map m) hs \<and> hist_typed isa rf hs"

lemma prevs_simps [simp]:
  "prevs [] = []"
  "prevs (h # hs) = (if hb_newPhysReg h = hb_prevPhysReg h then prevs hs else hb_prevPhysReg h # prevs hs)"
  "prevs (hs @ hs') = prevs hs @ prevs hs'"
  by (simp_all add: prevs_def)

lemma hist_typed_simps [simp]:
  "hist_typed isa rf []"
  "hist_typed isa rf (h # hs) \<longleftrightarrow>
     (hb_newPhysReg h = hb_prevPhysReg h \<or> phys_ok rf (hb_newPhysReg h) \<and> fits isa rf (hb_archReg h) (hb_prevPhysReg h)) \<and>
     hist_typed isa rf hs"
  "hist_typed isa rf (hs @ hs') \<longleftrightarrow> hist_typed isa rf hs \<and> hist_typed isa rf hs'"
  by (auto simp: hist_typed_def)

lemma fits_nth:
  assumes "um_wf isa rf m" "um_pos isa r = Some k"
  shows "fits isa rf r (all_map m ! k)"
  using assms
  by (auto simp: um_pos_def fits_def um_wf_def srm_wf_def all_map_def nth_append list_all_length split: if_splits)

lemma um_setEntry_fits:
  assumes "isa_ok isa" "um_wf isa rf m" "fits isa rf r p"
  shows "\<exists>m'. um_setEntry isa rf r p m = Inr m' \<and> map_at isa rf r p m m'"
proof -
  have "\<exists>m'. um_setEntry isa rf r p m = Inr m'"
    using assms by (auto simp: fits_def um_setEntry_def regIdxToClass_def isa_ok_def um_wf_def srm_wf_def
        setIntEntry_def setFloatEntry_def setCCEntry_def srm_setEntry_def)
  moreover have "um_pos isa r \<noteq> None" using assms(3) by (auto simp: fits_def um_pos_def)
  ultimately show ?thesis using um_setEntry_at [OF assms(1,2)] by blast
qed

lemma mset_swap: "k < length xs \<Longrightarrow> mset (xs[k := y]) + {#xs ! k#} = mset xs + {#y#}"
  by (simp add: mset_update)

lemma map_at_mset:
  assumes "um_wf isa rf m" "map_at isa rf r p m m'"
  obtains k where "um_pos isa r = Some k" "all_map m' = (all_map m)[k := p]" "k < length (all_map m)"
    "mset (all_map m') + {#all_map m ! k#} = mset (all_map m) + {#p#}"
proof -
  obtain k where k: "um_pos isa r = Some k" "all_map m' = (all_map m)[k := p]"
    using assms(2) by (auto simp: map_at_def)
  then have "k < length (all_map m)" using um_pos_lt length_all_map [OF assms(1)] by simp
  then show ?thesis using k mset_swap [of k "all_map m" p] that by simp
qed

subsection \<open>The three operations on a history\<close>

lemma push_history:
  assumes "thread_ok isa rf m hs" "renamed isa rf flat (new, prev) m fl m' fl'"
    and new: "\<And>x. count (balance m fl hs) x \<le> 1"
    and h: "hb_archReg h = flat" "hb_newPhysReg h = new" "hb_prevPhysReg h = prev"
  shows "balance m' fl' (h # hs) = balance m fl hs \<and> thread_ok isa rf m' (h # hs) \<and>
    undone isa (all_map m') [h] = all_map m \<and> um_zero m' = um_zero m"
proof (cases "fst (new, prev) = snd (new, prev) \<and> m' = m \<and> fl' = fl")
  case True
  then show ?thesis using assms by (simp add: balance_def thread_ok_def)
next
  case False
  with assms(2) have r: "map_at isa rf flat new m m'" "prev = all_map m ! the (um_pos isa flat)"
    "mset (all_free fl) = add_mset new (mset (all_free fl'))" "phys_ok rf new"
    by (auto simp: renamed_def)
  from assms(1) have wf: "um_wf isa rf m" by (simp add: thread_ok_def)
  obtain k where k: "um_pos isa flat = Some k" "all_map m' = (all_map m)[k := new]" "k < length (all_map m)"
    "mset (all_map m') + {#all_map m ! k#} = mset (all_map m) + {#new#}"
    by (rule map_at_mset [OF wf r(1)])
  have "new \<noteq> prev"
  proof
    assume "new = prev"
    then have "new \<in> set (all_map m)" using r(2) k by simp
    then have "0 < count (mset (all_map m)) new" by (simp flip: set_mset_mset)
    moreover have "count (balance m fl hs) new =
      Suc (count (mset (all_free fl')) new + count (mset (all_map m)) new + count (mset (prevs hs)) new)"
      by (simp add: balance_def r(3))
    ultimately show False using new [of new] by linarith
  qed
  moreover have "balance m' fl' (h # hs) = balance m fl hs"
    using k(4) r(2,3) k(1) h \<open>new \<noteq> prev\<close> by (simp add: balance_def)
  moreover have "hist_ok isa (all_map m') (h # hs)"
    using assms(1) k r(2) h \<open>new \<noteq> prev\<close> by (simp add: thread_ok_def)
  moreover have "undone isa (all_map m') [h] = all_map m" using k r(2) h \<open>new \<noteq> prev\<close> by simp
  moreover have "fits isa rf flat prev" using fits_nth [OF wf k(1)] r(2) k(1) by simp
  ultimately show ?thesis using assms(1) r(1,4) h by (simp add: thread_ok_def map_at_def)
qed

lemma undo_history_ok:
  assumes "isa_ok isa" "thread_ok isa rf m hs"
  shows "\<exists>m' fl'. undo_history isa rf sn hs m fl = Inr (dropWhile (\<lambda>h. sn < hb_instSeqNum h) hs, m', fl') \<and>
    balance m' fl' (dropWhile (\<lambda>h. sn < hb_instSeqNum h) hs) = balance m fl hs \<and>
    thread_ok isa rf m' (dropWhile (\<lambda>h. sn < hb_instSeqNum h) hs)"
  using assms(2)
proof (induction hs arbitrary: m fl)
  case (Cons h hs)
  show ?case
  proof (cases "sn < hb_instSeqNum h \<and> hb_newPhysReg h \<noteq> hb_prevPhysReg h")
    case False
    then show ?thesis using Cons.IH [of m fl] Cons.prems
      by (cases "sn < hb_instSeqNum h") (auto simp: thread_ok_def balance_def)
  next
    case True
    from Cons.prems True have wf: "um_wf isa rf m" and f: "fits isa rf (hb_archReg h) (hb_prevPhysReg h)"
      and p: "phys_ok rf (hb_newPhysReg h)"
      by (auto simp: thread_ok_def)
    obtain m1 where m1: "um_setEntry isa rf (hb_archReg h) (hb_prevPhysReg h) m = Inr m1"
      "map_at isa rf (hb_archReg h) (hb_prevPhysReg h) m m1"
      using um_setEntry_fits [OF assms(1) wf f] by blast
    obtain fl1 where fl1: "ufl_addReg rf (hb_newPhysReg h) fl = Inr fl1" using ufl_addReg_ok [OF p] by blast
    obtain k where k: "um_pos isa (hb_archReg h) = Some k" "all_map m1 = (all_map m)[k := hb_prevPhysReg h]"
      "mset (all_map m1) + {#all_map m ! k#} = mset (all_map m) + {#hb_prevPhysReg h#}"
      by (rule map_at_mset [OF wf m1(2)])
    have t1: "thread_ok isa rf m1 hs" using Cons.prems True k m1(2) by (auto simp: thread_ok_def map_at_def)
    moreover have "balance m1 fl1 hs = balance m fl (h # hs)"
      using Cons.prems True k ufl_addReg_mset [OF fl1] by (simp add: balance_def thread_ok_def)
    ultimately show ?thesis using Cons.IH [OF t1, of fl1] True m1(1) fl1 by simp
  qed
qed (simp add: thread_ok_def)

lemma commit_history_ok:
  assumes "hist_typed isa rf hs" "isa_ok isa"
  shows "\<exists>fl'. commit_history rf sn hs fl = Inr (dropWhile (\<lambda>h. hb_instSeqNum h \<le> sn) hs, fl') \<and>
    mset (all_free fl') + mset (prevs (dropWhile (\<lambda>h. hb_instSeqNum h \<le> sn) hs)) = mset (all_free fl) + mset (prevs hs)"
  using assms(1)
proof (induction hs arbitrary: fl)
  case (Cons h hs)
  show ?case
  proof (cases "hb_instSeqNum h \<le> sn \<and> hb_newPhysReg h \<noteq> hb_prevPhysReg h")
    case False
    then show ?thesis using Cons by (cases "hb_instSeqNum h \<le> sn") auto
  next
    case True
    then have "phys_ok rf (hb_prevPhysReg h)" using Cons.prems by (auto simp: fits_def phys_ok_def)
    then obtain fl1 where fl1: "ufl_addReg rf (hb_prevPhysReg h) fl = Inr fl1" using ufl_addReg_ok by blast
    with True show ?thesis using Cons.IH [of fl1] Cons.prems ufl_addReg_mset [OF fl1] by auto
  qed
qed simp

lemma hist_ok_prefix: "hist_ok isa xs (hs @ hs') \<Longrightarrow> hist_ok isa xs hs"
  by (induction hs arbitrary: xs) (auto split: option.splits if_splits)

lemma undone_append: "undone isa xs (hs @ hs') = undone isa (undone isa xs hs) hs'"
  by (induction hs arbitrary: xs) (auto split: option.splits)

lemma undo_history_map:
  assumes "isa_ok isa" "thread_ok isa rf m hs" "undo_history isa rf sn hs m fl = Inr (hs', m', fl')"
  shows "all_map m' = undone isa (all_map m) (takeWhile (\<lambda>h. sn < hb_instSeqNum h) hs) \<and> um_zero m' = um_zero m"
  using assms(2,3)
proof (induction hs arbitrary: m fl)
  case (Cons h hs)
  show ?case
  proof (cases "sn < hb_instSeqNum h \<and> hb_newPhysReg h \<noteq> hb_prevPhysReg h")
    case False
    then show ?thesis using Cons.IH [of m fl] Cons.prems
      by (cases "sn < hb_instSeqNum h") (auto simp: thread_ok_def)
  next
    case True
    with Cons.prems obtain m1 fl1 where 1: "um_setEntry isa rf (hb_archReg h) (hb_prevPhysReg h) m = Inr m1"
      "undo_history isa rf sn hs m1 fl1 = Inr (hs', m', fl')" by (auto simp: result_iffs)
    obtain k where k: "um_pos isa (hb_archReg h) = Some k" "hist_ok isa ((all_map m)[k := hb_prevPhysReg h]) hs"
      using Cons.prems(1) True by (auto simp: thread_ok_def split: option.splits)
    have wf: "um_wf isa rf m" using Cons.prems by (simp add: thread_ok_def)
    have a: "map_at isa rf (hb_archReg h) (hb_prevPhysReg h) m m1" by (rule um_setEntry_at [OF assms(1) wf k(1) 1(1)])
    then have "thread_ok isa rf m1 hs" using Cons.prems(1) k by (auto simp: thread_ok_def map_at_def)
    from Cons.IH [OF this 1(2)] show ?thesis using True a k by (auto simp: map_at_def)
  qed
qed simp

end
