(* ===== verification/Rename_Cons.thy ===== *)
theory Rename_Cons
  imports Rename_Inv
begin

text \<open>
  Conservation of physical registers by the whole rename stage: the balance of all threads, the
  operations that leave registers and histories alone (collected in \<open>kept\<close>), the three that move
  registers, and the cycle.
\<close>

subsection \<open>Balance of all threads\<close>

definition conserved :: "isa_regs \<Rightarrow> o3_regs \<Rightarrow> rename_history list list \<Rightarrow> bool" where
  "conserved isa rg hss \<longleftrightarrow>
     length (o3_renameMap rg) = length hss \<and>
     mset (all_free (o3_freeList rg)) + mset (concat (map all_map (o3_renameMap rg))) + mset (concat (map prevs hss)) =
       mset [0..<totalNumRegs (o3_regFile rg)] \<and>
     (\<forall>tid < length hss. thread_ok isa (o3_regFile rg) (o3_renameMap rg ! tid) (hss ! tid))"

lemma mset_concat_update:
  "i < length xs \<Longrightarrow>
   mset (concat (map f (xs[i := x]))) + mset (f (xs ! i)) = mset (concat (map f xs)) + mset (f x)"
proof (induction xs arbitrary: i)
  case (Cons y ys)
  then show ?case by (cases i) (simp_all add: ac_simps)
qed simp

lemma mset_concat_split:
  "i < length xs \<Longrightarrow> \<exists>M. mset (concat (map f xs)) = mset (f (xs ! i)) + M"
proof (induction xs arbitrary: i)
  case (Cons y ys)
  show ?case
  proof (cases i)
    case (Suc j)
    with Cons obtain M where "mset (concat (map f ys)) = mset (f (ys ! j)) + M" by auto
    then show ?thesis using Suc by (auto intro!: exI [of _ "mset (f y) + M"] simp: ac_simps)
  qed auto
qed simp

lemma balance_cancel:
  fixes A A' M M' H H' f f' g g' :: "'a multiset"
  assumes "A' + f' + g' = A + f + g" "M' + f = M + f'" "H' + g = H + g'"
  shows "A' + M' + H' = A + M + H"
proof -
  have "A' + M' + H' + (f + g) = A' + (M' + f) + (H' + g)" by (simp add: ac_simps)
  also have "\<dots> = (A' + f' + g') + M + H" unfolding assms(2,3) by (simp add: ac_simps)
  also have "\<dots> = A + M + H + (f + g)" unfolding assms(1) by (simp add: ac_simps)
  finally show ?thesis by simp
qed

lemma conserved_thread:
  assumes "conserved isa rg hss" "tid < length hss"
    and "balance m' (o3_freeList rg') hs' = balance (o3_renameMap rg ! tid) (o3_freeList rg) (hss ! tid)"
    and "thread_ok isa (o3_regFile rg) m' hs'"
    and rg': "o3_regFile rg' = o3_regFile rg" "o3_renameMap rg' = (o3_renameMap rg)[tid := m']"
  shows "conserved isa rg' (hss[tid := hs'])"
proof -
  from assms(1,2) have l: "tid < length (o3_renameMap rg)" by (simp add: conserved_def)
  have "mset (all_free (o3_freeList rg')) + mset (concat (map all_map (o3_renameMap rg'))) + mset (concat (map prevs (hss[tid := hs']))) =
    mset (all_free (o3_freeList rg)) + mset (concat (map all_map (o3_renameMap rg))) + mset (concat (map prevs hss))"
    unfolding rg' by (rule balance_cancel [OF assms(3) [unfolded balance_def] mset_concat_update [OF l]
          mset_concat_update [OF assms(2)]])
  with assms show ?thesis by (auto simp: conserved_def nth_list_update)
qed

lemma count_upt: "count (mset [0..<n]) x \<le> 1"
  using distinct_count_atmost_1 [of "[0..<n]"] by (metis distinct_upt le_refl zero_le_one)

lemma conserved_single:
  assumes "conserved isa rg hss" "tid < length hss"
  shows "count (balance (o3_renameMap rg ! tid) (o3_freeList rg) (hss ! tid)) x \<le> 1"
proof -
  obtain M where "mset (concat (map all_map (o3_renameMap rg))) = mset (all_map (o3_renameMap rg ! tid)) + M"
    using mset_concat_split [of tid "o3_renameMap rg" all_map] assms by (auto simp: conserved_def)
  moreover obtain H where "mset (concat (map prevs hss)) = mset (prevs (hss ! tid)) + H"
    using mset_concat_split [of tid hss prevs] assms by auto
  ultimately have "balance (o3_renameMap rg ! tid) (o3_freeList rg) (hss ! tid) + (M + H) = mset [0..<totalNumRegs (o3_regFile rg)]"
    using assms(1) by (simp add: conserved_def balance_def ac_simps)
  then have "count (balance (o3_renameMap rg ! tid) (o3_freeList rg) (hss ! tid)) x + count (M + H) x \<le> 1"
    using count_upt [of "totalNumRegs (o3_regFile rg)" x] by (metis count_union)
  then show ?thesis by simp
qed

subsection \<open>Renaming the destinations of an instruction\<close>

text \<open>A rename adds an entry to the history, and the undo of this entry gives the old map.\<close>

definition extends :: "isa_regs \<Rightarrow> nat \<Rightarrow> 64 word \<Rightarrow> o3_regs \<Rightarrow> rename_history list \<Rightarrow> o3_regs \<Rightarrow> rename_history list \<Rightarrow> bool" where
  "extends isa tid sn rg hs rg' hs' \<longleftrightarrow>
     o3_regFile rg' = o3_regFile rg \<and> length (o3_renameMap rg') = length (o3_renameMap rg) \<and>
     (\<forall>t. t \<noteq> tid \<longrightarrow> o3_renameMap rg' ! t = o3_renameMap rg ! t) \<and>
     um_zero (o3_renameMap rg' ! tid) = um_zero (o3_renameMap rg ! tid) \<and>
     (\<exists>new. hs' = new @ hs \<and> list_all (\<lambda>h. sn < hb_instSeqNum h) new \<and>
        undone isa (all_map (o3_renameMap rg' ! tid)) new = all_map (o3_renameMap rg ! tid))"

lemma extends_refl: "extends isa tid sn rg hs rg hs"
  by (simp add: extends_def)

lemma extends_trans:
  "extends isa tid sn rg hs rg1 hs1 \<Longrightarrow> extends isa tid sn rg1 hs1 rg2 hs2 \<Longrightarrow> extends isa tid sn rg hs rg2 hs2"
  by (auto simp: extends_def undone_append)

lemma rename_dest_conserved:
  assumes "isa_ok isa" "conserved isa rg (hss[tid := hs])" "tid < length hss"
    and "rename_dest isa fx tid k (rg, hs, i) = Inr (rg', hs', i')"
  shows "conserved isa rg' (hss[tid := hs']) \<and> di_seqNum i' = di_seqNum i \<and>
    (sn < di_seqNum i \<longrightarrow> extends isa tid sn rg hs rg' hs')"
proof -
  from assms(4) obtain dest new prev m' fl flat where
    c: "rename_class isa fx (o3_regFile rg) tid dest (o3_renameMap rg ! tid) (o3_freeList rg) = Inr (((new, prev), m', fl), flat)"
    and hs': "hs' = \<lparr>hb_instSeqNum = di_seqNum i, hb_archReg = flat, hb_newPhysReg = new, hb_prevPhysReg = prev\<rparr> # hs"
    and rg': "o3_regFile rg' = o3_regFile rg" "o3_renameMap rg' = (o3_renameMap rg)[tid := m']" "o3_freeList rg' = fl"
    and sn: "di_seqNum i' = di_seqNum i"
    by (auto simp: rename_dest_def result_iffs vector_iffs flattenDestReg_def renameDestReg_def)
  from assms(2,3) have t: "thread_ok isa (o3_regFile rg) (o3_renameMap rg ! tid) hs"
    and l: "tid < length (o3_renameMap rg)"
    by (auto simp: conserved_def dest!: spec [of _ tid])
  then have "renamed isa (o3_regFile rg) flat (new, prev) (o3_renameMap rg ! tid) (o3_freeList rg) m' fl"
    using rename_class_renamed [OF c assms(1)] by (simp add: thread_ok_def)
  note p = push_history [OF t this, of "hd hs'"]
  have "\<And>x. count (balance (o3_renameMap rg ! tid) (o3_freeList rg) hs) x \<le> 1"
    using conserved_single [OF assms(2), of tid] assms(3) by simp
  with p hs' have q: "balance m' fl hs' = balance (o3_renameMap rg ! tid) (o3_freeList rg) hs"
    "thread_ok isa (o3_regFile rg) m' hs'"
    "undone isa (all_map m') [hd hs'] = all_map (o3_renameMap rg ! tid)" "um_zero m' = um_zero (o3_renameMap rg ! tid)"
    by auto
  have "conserved isa rg' (hss[tid := hs'])"
    using conserved_thread [OF assms(2), of tid m' rg' hs'] assms(3) rg' q(1,2) by simp
  moreover have "extends isa tid sn rg hs rg' hs'" if "sn < di_seqNum i"
    unfolding extends_def
    using that q(3,4) rg' l hs' by (auto intro!: exI [of _ "[hd hs']"] simp del: undone.simps)
  ultimately show ?thesis using sn by simp
qed

lemma renameDestRegs_extends:
  assumes "isa_ok isa" "conserved isa rg hss" "tid < length hss"
  shows "ensures (renameDestRegs isa fx tid (rg, hss ! tid, i)) (\<lambda>(rg', hs', i'). conserved isa rg' (hss[tid := hs']) \<and>
    (sn < di_seqNum i \<longrightarrow> extends isa tid sn rg (hss ! tid) rg' hs'))"
proof -
  let ?P = "\<lambda>st :: o3_regs \<times> rename_history list \<times> dyn_inst. conserved isa (fst st) (hss[tid := fst (snd st)]) \<and> di_seqNum (snd (snd st)) = di_seqNum i \<and>
    (sn < di_seqNum i \<longrightarrow> extends isa tid sn rg (hss ! tid) (fst st) (fst (snd st)))"
  have "ensures (foldE (rename_dest isa fx tid) ks (rg, hss ! tid, i)) ?P" for ks
  proof (rule ensures_foldE)
    show "?P (rg, hss ! tid, i)" by (simp add: assms extends_refl)
    fix k st assume "k \<in> set ks" "?P st"
    then show "ensures (rename_dest isa fx tid k st) ?P"
      using rename_dest_conserved [OF assms(1) _ assms(3), of "fst st" "fst (snd st)" fx k "snd (snd st)"]
      by (auto intro!: ensuresI intro: extends_trans)
  qed
  then show ?thesis by (auto simp: renameDestRegs_def ensures_def)
qed

lemma renameDestRegs_conserved:
  assumes "isa_ok isa" "conserved isa rg hss" "tid < length hss"
  shows "ensures (renameDestRegs isa fx tid (rg, hss ! tid, i)) (\<lambda>(rg', hs', i'). conserved isa rg' (hss[tid := hs']))"
  by (rule ensures_mono [OF renameDestRegs_extends [OF assms]]) auto

subsection \<open>Operations that leave registers and histories alone\<close>

definition rview :: "rename_stage \<Rightarrow> o3_regs \<times> rename_history list list" where
  "rview s = (rs_regs s, map rt_history (rs_threads s))"

lemma map_update_same: "f x = f (xs ! i) \<Longrightarrow> map f (xs[i := x]) = map f xs"
  by (cases "i < length xs") (auto simp: map_update list_update_same_conv list_update_beyond)

lemma rview_set_t [simp]: "rt_history t = rt_history (rs_threads s ! tid) \<Longrightarrow> rview (set_t tid t s) = rview s"
  by (simp add: rview_def set_t_def map_update_same)

lemma rview_simps [simp]:
  "rview (put_inst p i s) = rview s"
  "rview (s\<lparr>rs_status := a\<rparr>) = rview s"
  "rview (s\<lparr>rs_wroteToTimeBuffer := b\<rparr>) = rview s"
  "rview (s\<lparr>rs_blockThisCycle := b\<rparr>) = rview s"
  "rview (s\<lparr>rs_resumeSerialize := b\<rparr>) = rview s"
  "rview (s\<lparr>rs_resumeUnblocking := b\<rparr>) = rview s"
  "rview (s\<lparr>rs_toIEW := q\<rparr>) = rview s"
  "rview (s\<lparr>rs_activeThreads := ts\<rparr>) = rview s"
  "rview (s\<lparr>rs_heap := h\<rparr>) = rview s"
  "rview (s\<lparr>rs_cpu := cs\<rparr>) = rview s"
  by (simp_all add: rview_def put_inst_def)

lemma set_t_fields [simp]:
  "rs_threads (set_t tid t s) = (rs_threads s)[tid := t]"
  "rs_threads (put_inst p i s) = rs_threads s"
  "rs_heap (put_inst p i s) = (rs_heap s)(p \<mapsto> i)"
  "rs_heap (set_t tid t s) = rs_heap s"
  "rs_toIEW (set_t tid t s) = rs_toIEW s"
  "rs_toIEW (put_inst p i s) = rs_toIEW s"
  "rs_regs (set_t tid t s) = rs_regs s"
  "rs_regs (put_inst p i s) = rs_regs s"
  by (simp_all add: set_t_def put_inst_def)

lemma upd_t_kept: "(\<And>t. rt_history (f t) = rt_history t) \<Longrightarrow> ensures (upd_t tid f s) (\<lambda>s'. rview s' = rview s)"
  by (simp add: upd_t_def)

lemma skidInsert_kept [kept]: "ensures (skidInsert tid s) (\<lambda>s'. rview s' = rview s)"
  by (simp add: skidInsert_def ensures_def result_iffs vector_iffs)

lemma block_kept [kept_pair]: "ensures (block tid s) (\<lambda>r. rview (snd r) = rview s)"
  unfolding block_def by (rule ensures_bind [OF skidInsert_kept]) (simp add: Let_def)

lemma unblock_kept [kept_pair]: "ensures (unblock tid s) (\<lambda>r. rview (snd r) = rview s)"
  by (simp add: unblock_def)

lemma block_quiet_kept [kept]: "ensures (block_quiet tid s) (\<lambda>s'. rview s' = rview s)"
  unfolding block_quiet_def by (rule ensures_bind [OF block_kept]) (simp add: upd_t_def split_def)

lemma skid_valid_kept [kept]: "ensures (skid_valid inp tid s) (\<lambda>s'. rview s' = rview s)"
  unfolding skid_valid_def by (rule ensures_bind [where Q = "\<lambda>_. True"]) (simp_all add: ensuresI skidInsert_kept)

lemma sortInsts_kept [kept]: "ensures (sortInsts inp s) (\<lambda>s'. rview s' = rview s)"
  unfolding sortInsts_def by (rule ensures_foldE) (simp_all add: sort_inst_def upd_t_def)

lemma squash_serialize_kept [kept]: "ensures (squash_serialize sn tid s) (\<lambda>s'. rview s' = rview s)"
  by (simp add: squash_serialize_def split: option.splits)

lemma squash_decoded_kept [kept]: "ensures (foldE (squash_decoded sn tid) ps s) (\<lambda>s'. rview s' = rview s)"
  by (rule ensures_foldE) (simp_all add: squash_decoded_def)

lemma end_serialize_kept [kept]: "ensures (end_serialize tid s) (\<lambda>s'. rview s' = rview s)"
  by (auto simp: end_serialize_def upd_t_def unblock_def ensures_def result_iffs vector_iffs
      split: option.splits if_splits)

lemma check_status_kept [kept_pair]: "ensures (check_status tid s) (\<lambda>r. rview (snd r) = rview s)"
  using end_serialize_kept [of tid s]
  by (auto simp: check_status_def upd_t_def unblock_def ensures_def result_iffs vector_iffs
      split: thread_status.splits if_splits)

lemma mark_before_kept [kept]: "ensures (mark_before p s) (\<lambda>s'. rview s' = rview s)"
  by (simp add: mark_before_def)

lemma serializeAfter_kept [kept]: "ensures (serializeAfter unb tid s) (\<lambda>s'. rview s' = rview s)"
  by (simp add: serializeAfter_def mark_before_def split: list.splits)

lemma serialize_next_kept [kept]: "ensures (serialize_next unb tid s) (\<lambda>s'. rview s' = rview s)"
  by (simp add: serialize_next_def mark_before_def split: list.splits)

lemma updateStatus_kept [kept]: "ensures (updateStatus s) (\<lambda>s'. rview s' = rview s)"
  unfolding updateStatus_def by (rule ensures_bind [where Q = "\<lambda>_. True"]) (auto simp: ensures_def)

lemma tick_progress_kept [kept]: "ensures (foldE (tick_progress inp) tids s) (\<lambda>s'. rview s' = rview s)"
  by (rule ensures_foldE) (simp_all add: tick_progress_def Let_def)

lemma set_queue_history [simp]: "rt_history (set_queue unb q t) = rt_history t"
  by (simp add: set_queue_def)

lemma resume_kept [kept]: "ensures (resume tid s) (\<lambda>s'. rview s' = rview s)"
  using block_quiet_kept [of tid "s\<lparr>rs_resumeSerialize := False\<rparr>"] block_quiet_kept [of tid s]
  by (auto simp: resume_def ensures_def result_iffs vector_iffs split: if_splits)

subsection \<open>The stage\<close>

definition stage_ok :: "isa_regs \<Rightarrow> rename_stage \<Rightarrow> bool" where
  "stage_ok isa s \<longleftrightarrow> isa_ok isa \<and> conserved isa (rs_regs s) (map rt_history (rs_threads s))"

lemma stage_ok_rview: "rview s' = rview s \<Longrightarrow> stage_ok isa s' = stage_ok isa s"
  by (simp add: stage_ok_def rview_def)

lemma kept_ok: "ensures m (\<lambda>s'. rview s' = rview s) \<Longrightarrow> stage_ok isa s \<Longrightarrow> ensures m (stage_ok isa)"
  by (erule ensures_mono) (auto dest: stage_ok_rview)

lemma kept_ok2: "ensures m (\<lambda>r. rview (snd r) = rview s) \<Longrightarrow> stage_ok isa s \<Longrightarrow> ensures m (\<lambda>r. stage_ok isa (snd r))"
  by (erule ensures_mono) (auto dest: stage_ok_rview)

lemmas stage_ok_kept = kept [THEN kept_ok] kept_pair [THEN kept_ok2]

lemma upd_t_ok:
  "stage_ok isa s \<Longrightarrow> (\<And>t. rt_history (f t) = rt_history t) \<Longrightarrow> ensures (upd_t tid f s) (stage_ok isa)"
  by (rule kept_ok [OF upd_t_kept])

lemma set_t_map: "map rt_history ((rs_threads s)[tid := t]) = (map rt_history (rs_threads s))[tid := rt_history t]"
  by (simp add: map_update)

lemma doSquash_ok:
  assumes "stage_ok isa s"
  shows "ensures (doSquash isa sn tid s) (stage_ok isa)"
proof (rule ensuresI)
  fix s' assume "doSquash isa sn tid s = Inr s'"
  then obtain hs m' fl where tid: "tid < length (rs_threads s)" and
    u: "undo_history isa (o3_regFile (rs_regs s)) sn (rt_history (rs_threads s ! tid)) (o3_renameMap (rs_regs s) ! tid)
          (o3_freeList (rs_regs s)) = Inr (hs, m', fl)"
    and s': "rs_regs s' = (rs_regs s)\<lparr>o3_renameMap := (o3_renameMap (rs_regs s))[tid := m'], o3_freeList := fl\<rparr>"
      "rs_threads s' = (rs_threads s)[tid := (rs_threads s ! tid)\<lparr>rt_history := hs\<rparr>]"
    by (auto simp: doSquash_def result_iffs vector_iffs)
  let ?hss = "map rt_history (rs_threads s)"
  have c: "conserved isa (rs_regs s) ?hss" and isa: "isa_ok isa" using assms by (simp_all add: stage_ok_def)
  then have t: "thread_ok isa (o3_regFile (rs_regs s)) (o3_renameMap (rs_regs s) ! tid) (rt_history (rs_threads s ! tid))"
    using tid by (auto simp: conserved_def)
  have "balance m' fl hs = balance (o3_renameMap (rs_regs s) ! tid) (o3_freeList (rs_regs s)) (?hss ! tid) \<and>
      thread_ok isa (o3_regFile (rs_regs s)) m' hs"
    using undo_history_ok [OF isa t, of sn "o3_freeList (rs_regs s)"] u tid by auto
  then have "conserved isa (rs_regs s') (?hss[tid := hs])"
    using conserved_thread [OF c, of tid m' "rs_regs s'" hs] tid s'(1) by simp
  then show "stage_ok isa s'" using isa s'(2) by (simp add: stage_ok_def set_t_map)
qed

lemma removeFromHistory_ok:
  assumes "stage_ok isa s"
  shows "ensures (removeFromHistory sn tid s) (stage_ok isa)"
proof (rule ensuresI)
  fix s' assume r: "removeFromHistory sn tid s = Inr s'"
  show "stage_ok isa s'"
  proof (cases "s' = s")
    case False
    let ?h = "rt_history (rs_threads s ! tid)" let ?hss = "map rt_history (rs_threads s)"
    from r False obtain hs fl where tid: "tid < length (rs_threads s)" and
      u: "commit_history (o3_regFile (rs_regs s)) sn (rev ?h) (o3_freeList (rs_regs s)) = Inr (hs, fl)"
      and s': "rs_regs s' = (rs_regs s)\<lparr>o3_freeList := fl\<rparr>"
        "rs_threads s' = (rs_threads s)[tid := (rs_threads s ! tid)\<lparr>rt_history := rev hs\<rparr>]"
      by (auto simp: removeFromHistory_def result_iffs vector_iffs split: if_splits)
    have c: "conserved isa (rs_regs s) ?hss" and isa: "isa_ok isa" using assms by (simp_all add: stage_ok_def)
    then have t: "thread_ok isa (o3_regFile (rs_regs s)) (o3_renameMap (rs_regs s) ! tid) ?h"
      using tid by (auto simp: conserved_def)
    obtain pre where pre: "rev ?h = pre @ hs"
      using commit_history_ok [OF _ isa, of "o3_regFile (rs_regs s)" "rev ?h" sn "o3_freeList (rs_regs s)"] t u
      by (auto simp: thread_ok_def hist_typed_def takeWhile_dropWhile_id [symmetric])
        (metis takeWhile_dropWhile_id)
    then have h: "?h = rev hs @ rev pre" by (metis rev_append rev_rev_ident)
    have ty: "hist_typed isa (o3_regFile (rs_regs s)) (rev ?h)" using t by (simp add: thread_ok_def hist_typed_def)
    have "mset (all_free fl) + mset (prevs hs) = mset (all_free (o3_freeList (rs_regs s))) + mset (prevs (rev ?h))"
      using commit_history_ok [OF ty isa, of sn "o3_freeList (rs_regs s)"] u by auto
    then have "balance (o3_renameMap (rs_regs s) ! tid) fl (rev hs) =
        balance (o3_renameMap (rs_regs s) ! tid) (o3_freeList (rs_regs s)) (?hss ! tid)"
      using tid by (simp add: balance_def prevs_def rev_filter [symmetric] rev_map [symmetric] ac_simps)
    moreover have "thread_ok isa (o3_regFile (rs_regs s)) (o3_renameMap (rs_regs s) ! tid) (rev hs)"
      using t h by (auto simp: thread_ok_def dest: hist_ok_prefix)
    ultimately have "conserved isa (rs_regs s') (?hss[tid := rev hs])"
      using conserved_thread [OF c, of tid "o3_renameMap (rs_regs s) ! tid" "rs_regs s'" "rev hs"] tid s'(1) by simp
    then show ?thesis using isa s'(2) by (simp add: stage_ok_def set_t_map)
  qed (use assms in simp)
qed

lemma send_inst_ok:
  assumes "stage_ok isa s"
  shows "ensures (send_inst isa fx tid p s) (stage_ok isa)"
proof (rule ensuresI)
  fix s' assume "send_inst isa fx tid p s = Inr s'"
  then obtain n i1 rg hs i2 s1 where n: "n < length (rs_threads s)"
    and d: "renameDestRegs isa fx n (rs_regs s, rt_history (rs_threads s ! n), i1) = Inr (rg, hs, i2)"
    and s1: "s1 = put_inst p i2 (set_t n ((rs_threads s ! n)\<lparr>rt_history := hs\<rparr>) (s\<lparr>rs_regs := rg\<rparr>))" "rview s' = rview s1"
    by (auto simp: send_inst_def result_iffs vector_iffs upd_t_def)
  have "conserved isa rg ((map rt_history (rs_threads s))[n := hs])"
    using ensuresD [OF renameDestRegs_conserved, of isa "rs_regs s" "map rt_history (rs_threads s)" n fx i1 "(rg, hs, i2)"]
      assms n d by (simp add: stage_ok_def)
  then have "stage_ok isa s1" using assms s1(1) by (simp add: stage_ok_def set_t_map)
  then show "stage_ok isa s'" using stage_ok_rview [OF s1(2)] by simp
qed

text \<open>A record update of a field outside the registers and threads keeps the balance.\<close>

lemma stage_ok_simps [simp]:
  "stage_ok isa (put_inst p i s) = stage_ok isa s"
  "stage_ok isa (s\<lparr>rs_status := a\<rparr>) = stage_ok isa s"
  "stage_ok isa (s\<lparr>rs_wroteToTimeBuffer := b\<rparr>) = stage_ok isa s"
  "stage_ok isa (s\<lparr>rs_blockThisCycle := b\<rparr>) = stage_ok isa s"
  "stage_ok isa (s\<lparr>rs_resumeSerialize := b\<rparr>) = stage_ok isa s"
  "stage_ok isa (s\<lparr>rs_resumeUnblocking := b\<rparr>) = stage_ok isa s"
  "stage_ok isa (s\<lparr>rs_toIEW := q\<rparr>) = stage_ok isa s"
  "stage_ok isa (s\<lparr>rs_activeThreads := ts\<rparr>) = stage_ok isa s"
  "stage_ok isa (s\<lparr>rs_heap := h\<rparr>) = stage_ok isa s"
  "stage_ok isa (s\<lparr>rs_cpu := cs\<rparr>) = stage_ok isa s"
  by (simp_all add: stage_ok_def put_inst_def)

lemma stage_ok_set_t [simp]:
  "rt_history t = rt_history (rs_threads s ! tid) \<Longrightarrow> stage_ok isa (set_t tid t s) = stage_ok isa s"
  by (rule stage_ok_rview) simp

lemmas ok_rules = stage_ok_kept upd_t_ok doSquash_ok removeFromHistory_ok send_inst_ok

lemma rn_squash_ok: "stage_ok isa s \<Longrightarrow> ensures (rn_squash isa inp sn tid s) (stage_ok isa)"
  unfolding rn_squash_def by (assumption | rule ensures_bind ok_rules | simp)+

lemma readFreeEntries_history [simp]: "rt_history (readFreeEntries iew cm t) = rt_history t"
  by (simp add: readFreeEntries_def Let_def)

lemma readStallSignals_history: "ensures (readStallSignals iew t) (\<lambda>t'. rt_history t' = rt_history t)"
  by (simp add: readStallSignals_def Let_def)

lemma checkSignalsAndUpdate_ok:
  assumes "stage_ok isa s"
  shows "ensures (checkSignalsAndUpdate isa inp tid s) (\<lambda>r. stage_ok isa (snd r))"
proof (rule ensuresI)
  fix r assume "checkSignalsAndUpdate isa inp tid s = Inr r"
  then obtain iew cm t1 where t1: "readStallSignals iew (readFreeEntries iew cm (rs_threads s ! tid)) = Inr t1"
    and cs: "(\<exists>s2. rn_squash isa inp (cm_doneSeqNum cm) tid (set_t tid t1 s) = Inr s2 \<and> snd r = s2) \<or>
      block tid (set_t tid t1 s) = Inr r \<or> check_status tid (set_t tid t1 s) = Inr r"
    by (auto simp: checkSignalsAndUpdate_def result_iffs vector_iffs Let_def split: if_splits)
  have "rt_history t1 = rt_history (rs_threads s ! tid)" using ensuresD [OF readStallSignals_history t1] by simp
  then have ok: "stage_ok isa (set_t tid t1 s)" using assms by simp
  from cs show "stage_ok isa (snd r)"
    using ensuresD [OF rn_squash_ok [OF ok]] ensuresD [OF kept_ok2 [OF block_kept ok]]
      ensuresD [OF kept_ok2 [OF check_status_kept ok]] by metis
qed

lemma process_inst_ok:
  assumes "stage_ok isa s"
  shows "ensures (process_inst isa fx unb tid p i s) (\<lambda>r. stage_ok isa (snd r))"
proof (cases "(op_isIprAccess (di_static i) \<or> isSerializeBefore i) \<and> \<not> di_serializeHandled i")
  case True
  have "ensures (upd_t tid (\<lambda>t. t\<lparr>rt_status := SerializeStall, rt_serializeInst := Some p\<rparr>)
      (if di_serializeBefore i then s else put_inst p (i\<lparr>di_serializeHandled := True\<rparr>) s)) (stage_ok isa)"
    by (rule upd_t_ok) (simp_all add: assms)
  with True show ?thesis by (simp add: process_inst_def)
next
  case False
  have 1: "ensures (if (op_isStoreConditional (di_static i) \<or> isSerializeAfter i) \<and> \<not> di_serializeHandled i
      then serializeAfter unb tid (put_inst p (i\<lparr>di_serializeHandled := True\<rparr>) s) else Inr s) (stage_ok isa)"
    using kept_ok [OF serializeAfter_kept, of isa "put_inst p (i\<lparr>di_serializeHandled := True\<rparr>) s"] assms by simp
  show ?thesis unfolding process_inst_def if_not_P [OF False]
    by (rule ensures_bind [OF 1]) (assumption | rule ensures_bind ok_rules | simp)+
qed

lemma rename_head_ok:
  assumes "stage_ok isa s"
  shows "ensures (rename_head isa fx inp unb tid s) (\<lambda>r. stage_ok isa (snd r))"
proof (rule ensuresI)
  fix r assume "rename_head isa fx inp unb tid s = Inr r"
  then have "rview (snd r) = rview s \<or>
      (\<exists>p i q. process_inst isa fx unb tid p i (set_t tid (set_queue unb q (rs_threads s ! tid)) s) = Inr r)"
    by (fastforce simp: rename_head_def result_iffs vector_iffs Let_def split: list.splits if_splits)
  then show "stage_ok isa (snd r)"
    using ensuresD [OF process_inst_ok] assms stage_ok_rview by (metis set_queue_history stage_ok_set_t)
qed

lemma rename_loop_ok: "stage_ok isa s \<Longrightarrow> ensures (rename_loop isa fx inp unb tid k n s) (\<lambda>r. stage_ok isa (snd (snd r)))"
proof (induction k arbitrary: n s)
  case (Suc k)
  have "ensures (rename_head isa fx inp unb tid s) (\<lambda>(it, s1).
      ensures (case it of Break \<Rightarrow> Inr (Suc k, n, s1) | Skipped \<Rightarrow> rename_loop isa fx inp unb tid k n s1
        | Sent \<Rightarrow> rename_loop isa fx inp unb tid k (n + 1) s1) (\<lambda>r. stage_ok isa (snd (snd r))))"
    by (rule ensures_mono [OF rename_head_ok [OF Suc.prems]]) (auto split: iteration.splits intro: Suc.IH)
  then show ?case using Suc.prems by (auto simp: split_def)
qed simp

lemma finish_rename_ok:
  assumes "stage_ok isa (snd (snd r))"
  shows "ensures (finish_rename tid r) (stage_ok isa)"
proof (cases r)
  case (fields left n s)
  have "ensures (upd_t tid (\<lambda>t. t\<lparr>rt_instsInProgress := rt_instsInProgress t + int n\<rparr>) s) (stage_ok isa)"
    using assms fields by (intro upd_t_ok) simp_all
  then show ?thesis unfolding finish_rename_def fields prod.case Let_def
    by (rule ensures_bind) (simp add: kept_ok [OF block_quiet_kept])
qed

lemma renameInsts_ok:
  assumes "stage_ok isa s"
  shows "ensures (renameInsts isa fx inp tid s) (stage_ok isa)"
proof -
  have 1: "ensures (ebind (serialize_next unb tid s0) (\<lambda>s1. ebind (rename_loop isa fx inp unb tid k 0 s1) (finish_rename tid)))
      (stage_ok isa)" if "stage_ok isa s0" for unb k s0
    by (rule ensures_bind [OF kept_ok [OF serialize_next_kept that]], rule ensures_bind [OF rename_loop_ok], assumption)
      (rule finish_rename_ok)
  have 2: "ensures (ebind (block tid s0) (\<lambda>(_, s1). Inr s1)) (stage_ok isa)" if "stage_ok isa s0" for s0
    by (rule ensures_bind [OF kept_ok2 [OF block_kept that]]) (simp add: split_def)
  show ?thesis unfolding renameInsts_def Let_def
    by (rule ensures_bind [where Q = "\<lambda>_. True"], simp, rule ensures_bind [where Q = "\<lambda>_. True"], simp)
      (simp add: assms 1 2 del: ensures_simps(3))
qed

lemma rn_rename_ok:
  assumes "stage_ok isa s"
  shows "ensures (rn_rename isa fx inp c tid s) (\<lambda>r. stage_ok isa (snd r))"
proof -
  have u: "ensures (ebind (skid_valid inp tid s1) (\<lambda>s2. ebind (unblock tid s2) (\<lambda>(u, s3).
      Inr (u \<or> c \<or> rs_blockThisCycle s3, s3)))) (\<lambda>r. stage_ok isa (snd r))"
    if "stage_ok isa s1" for s1
    by (rule ensures_bind [OF kept_ok [OF skid_valid_kept that]], rule ensures_bind [OF kept_ok2 [OF unblock_kept]],
        assumption) (simp add: split_def)
  show ?thesis unfolding rn_rename_def
  proof (rule ensures_bind [OF kept_ok [OF resume_kept assms]], rule ensures_bind [where Q = "\<lambda>_. True"], simp)
    fix s1 t assume ok: "stage_ok isa s1"
    note r = renameInsts_ok [OF ok, of fx inp tid]
    show "ensures (if rt_status t = Running \<or> rt_status t = Idle
        then ebind (renameInsts isa fx inp tid s1) (\<lambda>s1. Inr (c, s1))
        else if rt_status t = Unblocking
        then ebind (renameInsts isa fx inp tid s1) (\<lambda>s1. ebind (skid_valid inp tid s1) (\<lambda>s2.
               ebind (unblock tid s2) (\<lambda>(u, s3). Inr (u \<or> c \<or> rs_blockThisCycle s3, s3))))
        else Inr (c, s1)) (\<lambda>r. stage_ok isa (snd r))"
      using ensures_bind [OF r u] ensures_mono [OF r] ok by (simp del: ensures_simps(3) add: ensures_simps(1)) (simp add: r)
  qed
qed

lemma tick_thread_ok: "stage_ok isa (snd st) \<Longrightarrow> ensures (tick_thread isa fx inp tid st) (\<lambda>r. stage_ok isa (snd r))"
  unfolding tick_thread_def
  by (rule ensures_bind [OF checkSignalsAndUpdate_ok], assumption) (simp add: split_def rn_rename_ok)

lemma tick_commit_ok: "stage_ok isa s \<Longrightarrow> ensures (tick_commit inp tid s) (stage_ok isa)"
  by (simp add: tick_commit_def removeFromHistory_ok)

lemma tick_finish_ok:
  assumes "stage_ok isa s"
  shows "ensures (tick_finish inp s) (stage_ok isa)"
  unfolding tick_finish_def
  by (rule ensures_bind [OF ensures_foldE [where P = "stage_ok isa", OF _ tick_commit_ok]])
    (simp_all add: assms kept_ok [OF tick_progress_kept])

lemma rn_tick_ok:
  assumes "stage_ok isa s"
  shows "ensures (rn_tick isa fx inp s) (stage_ok isa)"
proof -
  have "ensures (foldE (tick_thread isa fx inp) (rs_activeThreads s1) (False, s1)) (\<lambda>r. stage_ok isa (snd r))"
    if "stage_ok isa s1" for s1
    using that by (intro ensures_foldE tick_thread_ok) simp_all
  moreover have "ensures (ebind (if c then updateStatus s2 else Inr s2) (tick_finish inp)) (stage_ok isa)"
    if "stage_ok isa s2" for c s2
    using that kept_ok [OF updateStatus_kept that] by (intro ensures_bind [OF _ tick_finish_ok]) simp_all
  ultimately show ?thesis unfolding rn_tick_def
    using assms by (intro ensures_bind [OF kept_ok [OF sortInsts_kept, where isa = isa]] ensures_bind
        [where Q = "\<lambda>r. stage_ok isa (snd r)"]) (simp_all add: split_def del: ensures_simps(3))
qed

end
