(* ===== verification/Rename_Order.thy ===== *)
theory Rename_Order
  imports Rename_Cons
begin

text \<open>
  The rename stage loses, duplicates and reorders no instruction. The instructions that wait in a
  thread are the one that is being serialized, then the skid buffer, then the ones that came from
  decode; each operation on a thread removes instructions from the front of this sequence only, and
  sends those that are not squashed.
\<close>

subsection \<open>The waiting instructions of a thread\<close>

definition pending :: "rename_thread \<Rightarrow> inst_ptr list" where
  "pending t = (case rt_serializeInst t of None \<Rightarrow> [] | Some p \<Rightarrow> [p]) @ rt_skid t @ rt_insts t"

definition queue_ok :: "rename_thread \<Rightarrow> bool" where
  "queue_ok t \<longleftrightarrow>
     (rt_status t \<in> {Running, Idle, Squashing} \<longrightarrow> rt_skid t = []) \<and>
     (rt_serializeInst t \<noteq> None \<longleftrightarrow> rt_status t = SerializeStall) \<and> rt_status t \<noteq> StartSquash"

text \<open>What an operation on a thread may not change of an instruction.\<close>

definition key :: "inst_heap \<Rightarrow> inst_ptr \<Rightarrow> (nat \<times> 64 word \<times> bool) option" where
  "key h p = map_option (\<lambda>i. (di_threadNumber i, di_seqNum i, di_squashed i)) (h p)"

definition alive :: "inst_heap \<Rightarrow> inst_ptr \<Rightarrow> bool" where
  "alive h p = (case h p of None \<Rightarrow> False | Some i \<Rightarrow> \<not> di_squashed i)"

definition of_thread :: "inst_heap \<Rightarrow> nat \<Rightarrow> inst_ptr \<Rightarrow> bool" where
  "of_thread h tid p = (case h p of None \<Rightarrow> False | Some i \<Rightarrow> di_threadNumber i = tid)"

lemma alive_key: "alive h p = (case key h p of None \<Rightarrow> False | Some (_, _, sq) \<Rightarrow> \<not> sq)"
  by (simp add: alive_def key_def split: option.splits)

lemma of_thread_key: "of_thread h tid p = (case key h p of None \<Rightarrow> False | Some (n, _) \<Rightarrow> n = tid)"
  by (simp add: of_thread_def key_def split: option.splits)

lemma key_alive: "key h' = key h \<Longrightarrow> alive h' = alive h"
  by (rule ext) (simp add: alive_key)

lemma key_of_thread: "key h' = key h \<Longrightarrow> of_thread h' = of_thread h"
  by (intro ext) (simp add: of_thread_key)

lemma key_upd: "h p = Some i \<Longrightarrow> (di_threadNumber i', di_seqNum i', di_squashed i') = (di_threadNumber i, di_seqNum i, di_squashed i) \<Longrightarrow>
  key (h(p \<mapsto> i')) = key h"
  by (rule ext) (simp add: key_def)

subsection \<open>Steps of one thread\<close>

text \<open>Other threads, the identity of the instructions and the resume flags stay.\<close>

definition same :: "nat \<Rightarrow> rename_stage \<Rightarrow> rename_stage \<Rightarrow> bool" where
  "same tid s s' \<longleftrightarrow>
     length (rs_threads s') = length (rs_threads s) \<and> (\<forall>t. t \<noteq> tid \<longrightarrow> rs_threads s' ! t = rs_threads s ! t) \<and>
     key (rs_heap s') = key (rs_heap s) \<and> rs_activeThreads s' = rs_activeThreads s \<and>
     rs_resumeSerialize s' = rs_resumeSerialize s \<and> rs_resumeUnblocking s' = rs_resumeUnblocking s"

text \<open>The instructions \<open>xs\<close> leave the front of the waiting ones.\<close>

definition moved :: "nat \<Rightarrow> inst_ptr list \<Rightarrow> rename_stage \<Rightarrow> rename_stage \<Rightarrow> bool" where
  "moved tid xs s s' \<longleftrightarrow>
     same tid s s' \<and> pending (rs_threads s ! tid) = xs @ pending (rs_threads s' ! tid) \<and>
     rs_toIEW s' = rs_toIEW s @ filter (alive (rs_heap s)) xs"

definition ready :: "nat \<Rightarrow> rename_stage \<Rightarrow> bool" where
  "ready tid s \<longleftrightarrow>
     tid < length (rs_threads s) \<and> queue_ok (rs_threads s ! tid) \<and> \<not> rs_resumeSerialize s \<and> \<not> rs_resumeUnblocking s \<and>
     list_all (of_thread (rs_heap s) tid) (pending (rs_threads s ! tid))"

lemma set_t_more [simp]:
  "rs_resumeSerialize (set_t tid t s) = rs_resumeSerialize s"
  "rs_resumeUnblocking (set_t tid t s) = rs_resumeUnblocking s"
  "rs_activeThreads (set_t tid t s) = rs_activeThreads s"
  by (simp_all add: set_t_def)

lemma same_refl [simp]: "same tid s s"
  by (simp add: same_def)

lemma same_trans: "same tid s s1 \<Longrightarrow> same tid s1 s2 \<Longrightarrow> same tid s s2"
  by (simp add: same_def)

lemma moved_refl [simp]: "moved tid [] s s"
  by (simp add: moved_def)

lemma moved_trans: "moved tid xs s s1 \<Longrightarrow> moved tid ys s1 s2 \<Longrightarrow> moved tid (xs @ ys) s s2"
  by (auto simp: moved_def same_def dest!: key_alive)

lemma moved_Nil_trans: "moved tid [] s s1 \<Longrightarrow> moved tid ys s1 s2 \<Longrightarrow> moved tid ys s s2"
  using moved_trans [of tid "[]"] by simp

lemma ready_moved:
  assumes "ready tid s" "moved tid xs s s'" "queue_ok (rs_threads s' ! tid)"
  shows "ready tid s'"
proof -
  have "of_thread (rs_heap s') = of_thread (rs_heap s)" using assms(2) by (intro key_of_thread) (simp add: moved_def same_def)
  then show ?thesis using assms by (auto simp: ready_def moved_def same_def)
qed

text \<open>The relations do not look at the other fields.\<close>

lemma same_simps [simp]:
  "same tid s (s'\<lparr>rs_wroteToTimeBuffer := b\<rparr>) = same tid s s'"
  "same tid s (s'\<lparr>rs_blockThisCycle := b\<rparr>) = same tid s s'"
  "same tid s (s'\<lparr>rs_toIEW := q\<rparr>) = same tid s s'"
  "same tid s (s'\<lparr>rs_regs := rg\<rparr>) = same tid s s'"
  "same tid (s\<lparr>rs_blockThisCycle := b\<rparr>) s' = same tid s s'"
  by (simp_all add: same_def)

lemma same_set_t [simp]: "same tid s (set_t tid t s') = same tid s s'"
  by (auto simp: same_def set_t_def)

lemma same_put_inst:
  "rs_heap s' p = Some i \<Longrightarrow> (di_threadNumber i', di_seqNum i', di_squashed i') = (di_threadNumber i, di_seqNum i, di_squashed i) \<Longrightarrow>
   same tid s (put_inst p i' s') = same tid s s'"
  using key_upd [of "rs_heap s'" p i i'] by (auto simp: same_def put_inst_def)

lemma moved_simps [simp]:
  "moved tid xs s (s'\<lparr>rs_wroteToTimeBuffer := b\<rparr>) = moved tid xs s s'"
  "moved tid xs s (s'\<lparr>rs_blockThisCycle := b\<rparr>) = moved tid xs s s'"
  "moved tid xs (s\<lparr>rs_blockThisCycle := b\<rparr>) s' = moved tid xs s s'"
  by (simp_all add: moved_def)

lemma moved_set_t:
  "tid < length (rs_threads s) \<Longrightarrow> pending t = pending (rs_threads s ! tid) \<Longrightarrow> moved tid [] s (set_t tid t s)"
  by (simp add: moved_def)

subsection \<open>Blocking and unblocking\<close>

definition qsame :: "rename_thread \<Rightarrow> rename_thread \<Rightarrow> bool" where
  "qsame t t' \<longleftrightarrow> rt_status t' = rt_status t \<and> rt_skid t' = rt_skid t \<and> rt_insts t' = rt_insts t \<and>
     rt_serializeInst t' = rt_serializeInst t"

lemma qsame_pending: "qsame t t' \<Longrightarrow> pending t' = pending t"
  by (simp add: qsame_def pending_def)

lemma qsame_queue_ok: "qsame t t' \<Longrightarrow> queue_ok t' = queue_ok t"
  by (simp add: qsame_def queue_ok_def)

lemma upd_t_moved:
  assumes "upd_t tid f s = Inr s'" "\<And>t. qsame t (f t)"
  shows "moved tid [] s s' \<and> qsame (rs_threads s ! tid) (rs_threads s' ! tid)"
  using assms by (auto simp: upd_t_def result_iffs vector_iffs intro!: moved_set_t dest: qsame_pending)

lemma skidInsert_moved:
  assumes "skidInsert tid s = Inr s'"
  shows "moved tid [] s s' \<and> rt_status (rs_threads s' ! tid) = rt_status (rs_threads s ! tid) \<and>
    rt_serializeInst (rs_threads s' ! tid) = rt_serializeInst (rs_threads s ! tid)"
  using assms by (auto simp: skidInsert_def result_iffs vector_iffs moved_def pending_def split: if_splits)

lemma block_moved:
  assumes "block tid s = Inr (b, s')" "queue_ok (rs_threads s ! tid)"
  shows "moved tid [] s s' \<and> queue_ok (rs_threads s' ! tid) \<and>
    rt_status (rs_threads s' ! tid) = (if rt_status (rs_threads s ! tid) = SerializeStall then SerializeStall else Blocked)"
proof -
  from assms(1) obtain s1 where 1: "skidInsert tid s = Inr s1" by (auto simp: block_def ebind_Inr_iff)
  note sk = skidInsert_moved [OF 1]
  let ?t = "rs_threads s1 ! tid"
  have q: "rt_serializeInst ?t \<noteq> None \<longleftrightarrow> rt_status ?t = SerializeStall" "rt_status ?t \<noteq> StartSquash"
    using sk assms(2) by (auto simp: queue_ok_def)
  from assms(1) 1 have "moved tid [] s1 s' \<and> queue_ok (rs_threads s' ! tid) \<and>
      rt_status (rs_threads s' ! tid) = (if rt_status ?t = SerializeStall then SerializeStall else Blocked)"
    using q by (auto simp: block_def Let_def result_iffs vector_iffs moved_def pending_def queue_ok_def split: if_splits)
  then show ?thesis using sk moved_Nil_trans by metis
qed

lemma block_quiet_moved:
  assumes "block_quiet tid s = Inr s'" "queue_ok (rs_threads s ! tid)"
  shows "moved tid [] s s' \<and> queue_ok (rs_threads s' ! tid) \<and>
    rt_status (rs_threads s' ! tid) = (if rt_status (rs_threads s ! tid) = SerializeStall then SerializeStall else Blocked)"
proof -
  from assms(1) obtain b s1 where 1: "block tid s = Inr (b, s1)"
    and 2: "upd_t tid (\<lambda>t. t\<lparr>rt_renameUnblock := False\<rparr>) s1 = Inr s'"
    by (auto simp: block_quiet_def ebind_Inr_iff)
  have "moved tid [] s1 s' \<and> qsame (rs_threads s1 ! tid) (rs_threads s' ! tid)"
    by (rule upd_t_moved [OF 2]) (simp add: qsame_def)
  then show ?thesis using block_moved [OF 1 assms(2)] moved_Nil_trans qsame_queue_ok by (metis qsame_def)
qed

lemma unblock_moved:
  assumes "unblock tid s = Inr (b, s')" "queue_ok (rs_threads s ! tid)"
  shows "moved tid [] s s' \<and> queue_ok (rs_threads s' ! tid)"
proof (cases "rt_skid (rs_threads s ! tid) = [] \<and> rt_status (rs_threads s ! tid) \<noteq> SerializeStall")
  case True
  let ?t = "(rs_threads s ! tid)\<lparr>rt_renameUnblock := True, rt_status := Running\<rparr>"
  have "tid < length (rs_threads s)" "s' = set_t tid ?t (s\<lparr>rs_wroteToTimeBuffer := True\<rparr>)"
    using assms(1) True by (simp_all add: unblock_def result_iffs vector_iffs)
  then show ?thesis using True assms(2) by (simp add: moved_def pending_def queue_ok_def)
next
  case False
  then have "s' = s" using assms(1) by (auto simp: unblock_def result_iffs vector_iffs)
  then show ?thesis using assms(2) by simp
qed

lemma end_serialize_moved:
  assumes "end_serialize tid s = Inr s'" "rt_status (rs_threads s ! tid) = SerializeStall"
  shows "moved tid [] s s' \<and> queue_ok (rs_threads s' ! tid)"
proof -
  let ?t = "rs_threads s ! tid"
  from assms(1) obtain p i where p: "rt_serializeInst ?t = Some p" "rs_heap s p = Some i" "tid < length (rs_threads s)"
    by (auto simp: end_serialize_def upd_t_def unblock_def result_iffs vector_iffs split: option.splits if_splits)
  define t' where "t' = (if rt_skid ?t = []
     then ?t\<lparr>rt_renameUnblock := True, rt_status := Running, rt_insts := p # rt_insts ?t, rt_serializeInst := None\<rparr>
     else ?t\<lparr>rt_status := Unblocking, rt_skid := p # rt_skid ?t, rt_serializeInst := None\<rparr>)"
  define w where "w = (rt_skid ?t = [] \<or> rs_wroteToTimeBuffer s)"
  have "s' = set_t tid t' (put_inst p (i\<lparr>di_serializeBefore := False\<rparr>) (s\<lparr>rs_wroteToTimeBuffer := w\<rparr>))"
    using assms(1) p unfolding t'_def w_def
    by (auto simp: end_serialize_def upd_t_def unblock_def result_iffs vector_iffs set_t_def put_inst_def split: if_splits)
  moreover have "pending t' = pending ?t" "queue_ok t'" using p assms(2) by (auto simp: t'_def pending_def queue_ok_def)
  ultimately show ?thesis using p same_put_inst [of s p i] by (auto simp: moved_def same_put_inst)
qed

lemma check_status_moved:
  assumes "check_status tid s = Inr (b, s')" "ready tid s"
  shows "moved tid [] s s' \<and> queue_ok (rs_threads s' ! tid)"
proof -
  let ?t = "rs_threads s ! tid"
  have r: "tid < length (rs_threads s)" "queue_ok ?t" "\<not> rs_resumeSerialize s" "\<not> rs_resumeUnblocking s"
    using assms(2) by (auto simp: ready_def)
  show ?thesis
  proof (cases "rt_status ?t")
    case Blocked
    let ?s1 = "set_t tid (?t\<lparr>rt_status := Unblocking\<rparr>) s"
    obtain c where "unblock tid ?s1 = Inr (c, s')"
      using assms(1) Blocked r(1) by (auto simp: check_status_def upd_t_def ebind_Inr_iff)
    moreover have "queue_ok (rs_threads ?s1 ! tid)" using r Blocked by (auto simp: queue_ok_def)
    ultimately have "moved tid [] ?s1 s' \<and> queue_ok (rs_threads s' ! tid)" by (rule unblock_moved)
    moreover have "moved tid [] s ?s1" using r(1) by (intro moved_set_t) (simp_all add: pending_def)
    ultimately show ?thesis using moved_Nil_trans by blast
  next
    case SerializeStall
    then show ?thesis using assms(1) r(1) by (intro end_serialize_moved) (auto simp: check_status_def ebind_Inr_iff)
  qed (use assms(1) r in \<open>auto simp: check_status_def moved_def pending_def queue_ok_def\<close>)
qed

lemma readers_qsame:
  assumes "readStallSignals iew (readFreeEntries iew cm t) = Inr t'"
  shows "qsame t t'"
  using assms by (auto simp: readStallSignals_def readFreeEntries_def qsame_def Let_def result_iffs split: if_splits)

lemma checkSignalsAndUpdate_moved:
  assumes "checkSignalsAndUpdate isa inp tid s = Inr (b, s')" "ready tid s" "\<not> cm_squash (in_commit inp ! tid)"
  shows "moved tid [] s s' \<and> queue_ok (rs_threads s' ! tid)"
proof -
  from assms(1,3) obtain iew t1 where t1: "readStallSignals iew (readFreeEntries iew (in_commit inp ! tid) (rs_threads s ! tid)) = Inr t1"
    and cs: "block tid (set_t tid t1 s) = Inr (b, s') \<or> check_status tid (set_t tid t1 s) = Inr (b, s')"
    by (auto simp: checkSignalsAndUpdate_def result_iffs vector_iffs Let_def split: if_splits)
  have tid: "tid < length (rs_threads s)" using assms(2) by (simp add: ready_def)
  note q = readers_qsame [OF t1]
  have m: "moved tid [] s (set_t tid t1 s)" by (rule moved_set_t [OF tid qsame_pending [OF q]])
  have qo: "queue_ok (rs_threads (set_t tid t1 s) ! tid)" using assms(2) tid qsame_queue_ok [OF q] by (simp add: ready_def)
  from cs show ?thesis
    using block_moved [OF _ qo] check_status_moved [OF _ ready_moved [OF assms(2) m qo]] moved_Nil_trans [OF m] by blast
qed

subsection \<open>One instruction\<close>

definition ikey :: "dyn_inst \<Rightarrow> nat \<times> 64 word \<times> bool" where
  "ikey i = (di_threadNumber i, di_seqNum i, di_squashed i)"

lemma rename_src_ikey: "ensures (rename_src isa fx rg tid k i) (\<lambda>i'. ikey i' = ikey i)"
  by (auto simp: rename_src_def renameSrcReg_def markSrcRegReady_def ensures_def result_iffs vector_iffs ikey_def split: if_splits)

lemma renameSrcRegs_ikey: "ensures (renameSrcRegs isa fx rg tid i) (\<lambda>i'. ikey i' = ikey i)"
proof -
  have "ensures (foldE (rename_src isa fx rg tid) ks i) (\<lambda>i'. ikey i' = ikey i)" for ks
    by (rule ensures_foldE, simp) (use rename_src_ikey in \<open>fastforce simp: ensures_def\<close>)
  then show ?thesis by (simp add: renameSrcRegs_def)
qed

lemma rename_dest_ikey: "rename_dest isa fx tid k (rg, hs, i) = Inr (rg', hs', i') \<Longrightarrow> ikey i' = ikey i"
  by (auto simp: rename_dest_def flattenDestReg_def renameDestReg_def result_iffs vector_iffs ikey_def)

lemma renameDestRegs_ikey: "ensures (renameDestRegs isa fx tid (rg, hs, i)) (\<lambda>r. ikey (snd (snd r)) = ikey i)"
proof -
  have "ensures (foldE (rename_dest isa fx tid) ks (rg, hs, i)) (\<lambda>r. ikey (snd (snd r)) = ikey i)" for ks
    by (rule ensures_foldE, simp) (use rename_dest_ikey in \<open>fastforce simp: ensures_def\<close>)
  then show ?thesis by (simp add: renameDestRegs_def)
qed

lemma send_inst_same:
  assumes "send_inst isa fx tid p s = Inr s'" "of_thread (rs_heap s) tid p"
  shows "same tid s s' \<and> qsame (rs_threads s ! tid) (rs_threads s' ! tid) \<and> rs_toIEW s' = rs_toIEW s @ [p]"
proof -
  from assms obtain i where i: "rs_heap s p = Some i" "di_threadNumber i = tid" by (auto simp: of_thread_def split: option.splits)
  with assms(1) obtain i1 rg hs i2 s1 where r: "renameSrcRegs isa fx (rs_regs s) tid i = Inr i1"
      "renameDestRegs isa fx tid (rs_regs s, rt_history (rs_threads s ! tid), i1) = Inr (rg, hs, i2)"
    and tid: "tid < length (rs_threads s)"
    and s1: "upd_t tid (\<lambda>t. t\<lparr>rt_loadsInProgress := rt_loadsInProgress t + (if op_isLoad (di_static i) then 1 else 0),
        rt_storesInProgress := rt_storesInProgress t + (if op_isStore (di_static i) then 1 else 0)\<rparr>)
      (put_inst p i2 (set_t tid ((rs_threads s ! tid)\<lparr>rt_history := hs\<rparr>) (s\<lparr>rs_regs := rg\<rparr>))) = Inr s1"
      "s' = s1\<lparr>rs_toIEW := rs_toIEW s1 @ [p]\<rparr>"
    by (auto simp: send_inst_def result_iffs vector_iffs)
  have k: "ikey i2 = ikey i" using ensuresD [OF renameSrcRegs_ikey r(1)] ensuresD [OF renameDestRegs_ikey r(2)] by simp
  have "same tid s (put_inst p i2 (set_t tid ((rs_threads s ! tid)\<lparr>rt_history := hs\<rparr>) (s\<lparr>rs_regs := rg\<rparr>)))"
    using i(1) k by (subst same_put_inst [where i = i]) (simp_all add: ikey_def)
  then show ?thesis using s1 tid by (auto simp: upd_t_def qsame_def)
qed

lemma mark_before_same:
  "mark_before p s = Inr s' \<Longrightarrow> same tid s s' \<and> rs_threads s' = rs_threads s \<and> rs_toIEW s' = rs_toIEW s"
  by (auto simp: mark_before_def result_iffs same_put_inst)

lemma serializeAfter_same:
  "serializeAfter unb tid s = Inr s' \<Longrightarrow>
   same tid s s' \<and> qsame (rs_threads s ! tid) (rs_threads s' ! tid) \<and> rs_toIEW s' = rs_toIEW s"
  by (auto simp: serializeAfter_def result_iffs vector_iffs qsame_def split: list.splits dest: mark_before_same)

lemma serialize_next_same:
  "serialize_next unb tid s = Inr s' \<Longrightarrow>
   same tid s s' \<and> qsame (rs_threads s ! tid) (rs_threads s' ! tid) \<and> rs_toIEW s' = rs_toIEW s"
  by (auto simp: serialize_next_def result_iffs vector_iffs qsame_def split: list.splits if_splits dest: mark_before_same)

lemma process_inst_same:
  assumes "process_inst isa fx unb tid p i s = Inr (it, s')" "rs_heap s p = Some i" "di_threadNumber i = tid"
  shows "same tid s s' \<and>
    (it = Break \<and> rs_toIEW s' = rs_toIEW s \<and>
       rt_skid (rs_threads s' ! tid) = rt_skid (rs_threads s ! tid) \<and> rt_insts (rs_threads s' ! tid) = rt_insts (rs_threads s ! tid) \<and>
       rt_status (rs_threads s' ! tid) = SerializeStall \<and> rt_serializeInst (rs_threads s' ! tid) = Some p \<or>
     it = Sent \<and> rs_toIEW s' = rs_toIEW s @ [p] \<and> qsame (rs_threads s ! tid) (rs_threads s' ! tid))"
proof (cases "(op_isIprAccess (di_static i) \<or> isSerializeBefore i) \<and> \<not> di_serializeHandled i")
  case True
  have "same tid s (if di_serializeBefore i then s else put_inst p (i\<lparr>di_serializeHandled := True\<rparr>) s)"
    using assms(2) by (simp add: same_put_inst)
  with True assms(1) show ?thesis
    by (auto simp: process_inst_def upd_t_def result_iffs vector_iffs split: if_splits)
next
  case False
  let ?s0 = "put_inst p (i\<lparr>di_serializeHandled := True\<rparr>) s"
  have 0: "same tid s ?s0" using assms(2) by (simp add: same_put_inst)
  from False assms(1) obtain s1 where s1: "s1 = s \<or> serializeAfter unb tid ?s0 = Inr s1" "send_inst isa fx tid p s1 = Inr s'" "it = Sent"
    by (auto simp: process_inst_def ebind_Inr_iff split: if_splits)
  then have 1: "same tid s s1 \<and> qsame (rs_threads s ! tid) (rs_threads s1 ! tid) \<and> rs_toIEW s1 = rs_toIEW s"
    using 0 serializeAfter_same [of unb tid ?s0 s1] by (auto simp: qsame_def intro: same_trans)
  then have "of_thread (rs_heap s1) tid p"
    using key_of_thread [of "rs_heap s1" "rs_heap s"] assms(2,3) by (simp add: same_def of_thread_def [of "rs_heap s"])
  from send_inst_same [OF s1(2) this] 1 s1(3) show ?thesis by (auto simp: qsame_def intro: same_trans)
qed

subsection \<open>The instructions of a thread\<close>

definition source_ok :: "bool \<Rightarrow> rename_thread \<Rightarrow> bool" where
  "source_ok unb t \<longleftrightarrow> (if unb then rt_status t = Unblocking else rt_status t = Running \<or> rt_status t = Idle)"

lemma source_pending:
  assumes "queue_ok t" "source_ok unb t" "the_queue unb t = p # q"
  shows "pending t = p # pending (set_queue unb q t)" "queue_ok (set_queue unb q t)"
  using assms by (auto simp: queue_ok_def source_ok_def the_queue_def set_queue_def pending_def split: if_splits option.splits)

lemma set_queue_simps [simp]:
  "rt_status (set_queue unb q t) = rt_status t"
  "rt_serializeInst (set_queue unb q t) = rt_serializeInst t"
  by (simp_all add: set_queue_def)

text \<open>The cases of one round of the loop.\<close>

lemma rename_head_cases:
  assumes "rename_head isa fx inp unb tid s = Inr (it, s')"
  obtains p q i where "the_queue unb (rs_threads s ! tid) = p # q" "rs_heap s p = Some i" "tid < length (rs_threads s)"
    "it = Break \<and> s' = s \<or>
     it = Skipped \<and> di_squashed i \<and> s' = set_t tid (set_queue unb q (rs_threads s ! tid)) s \<or>
     it = Break \<and> s' = (set_t tid (set_queue unb (p # q) (rs_threads s ! tid)) s)\<lparr>rs_blockThisCycle := True\<rparr> \<or>
     \<not> di_squashed i \<and> process_inst isa fx unb tid p i (set_t tid (set_queue unb q (rs_threads s ! tid)) s) = Inr (it, s')"
proof -
  from assms obtain p q where "the_queue unb (rs_threads s ! tid) = p # q" "tid < length (rs_threads s)"
    by (auto simp: rename_head_def result_iffs vector_iffs split: list.splits)
  moreover from assms this obtain i where "rs_heap s p = Some i" by (auto simp: rename_head_def result_iffs vector_iffs)
  ultimately show ?thesis using assms that [of p q i]
    by (auto simp: rename_head_def result_iffs vector_iffs Let_def split: if_splits)
qed

lemma rename_head_moved:
  assumes "rename_head isa fx inp unb tid s = Inr (it, s')" "ready tid s" "source_ok unb (rs_threads s ! tid)"
  shows "\<exists>xs. moved tid xs s s' \<and> queue_ok (rs_threads s' ! tid) \<and>
    (rt_status (rs_threads s' ! tid) = rt_status (rs_threads s ! tid) \<or> it = Break \<and> rt_status (rs_threads s' ! tid) = SerializeStall)"
proof -
  let ?t = "rs_threads s ! tid"
  obtain p q i where p: "the_queue unb ?t = p # q" "rs_heap s p = Some i" "tid < length (rs_threads s)"
    and c: "it = Break \<and> s' = s \<or>
     it = Skipped \<and> di_squashed i \<and> s' = set_t tid (set_queue unb q ?t) s \<or>
     it = Break \<and> s' = (set_t tid (set_queue unb (p # q) ?t) s)\<lparr>rs_blockThisCycle := True\<rparr> \<or>
     \<not> di_squashed i \<and> process_inst isa fx unb tid p i (set_t tid (set_queue unb q ?t) s) = Inr (it, s')"
    by (rule rename_head_cases [OF assms(1)])
  let ?s1 = "set_t tid (set_queue unb q ?t) s"
  have qo: "queue_ok ?t" using assms(2) by (simp add: ready_def)
  note sp = source_pending [OF qo assms(3) p(1)]
  have tn: "di_threadNumber i = tid" using assms(2) p(2) sp(1) by (auto simp: ready_def of_thread_def)
  from c consider "it = Break" "s' = s" | "it = Skipped" "di_squashed i" "s' = ?s1"
    | "it = Break" "s' = (set_t tid (set_queue unb (p # q) ?t) s)\<lparr>rs_blockThisCycle := True\<rparr>"
    | "\<not> di_squashed i" "process_inst isa fx unb tid p i ?s1 = Inr (it, s')" by blast
  then show ?thesis
  proof cases
    case 1
    then show ?thesis using qo by (intro exI [of _ "[]"]) simp
  next
    case 2
    then have "moved tid [p] s s'" using sp p by (simp add: moved_def alive_def)
    then show ?thesis using 2 sp(2) p(3) by (intro exI [of _ "[p]"]) simp
  next
    case 3
    have "qsame ?t (set_queue unb (p # q) ?t)" using p(1) by (auto simp: qsame_def set_queue_def the_queue_def split: if_splits)
    then show ?thesis using 3 p(3) qo qsame_pending qsame_queue_ok
      by (intro exI [of _ "[]"]) (auto simp: moved_def)
  next
    case 4
    have "rs_heap ?s1 p = Some i" using p(2) by simp
    note pr = process_inst_same [OF 4(2) this tn]
    have "same tid s ?s1" by simp
    then have sm: "same tid s s'" using pr same_trans by blast
    have al: "alive (rs_heap s) p" using 4(1) p(2) by (simp add: alive_def)
    let ?t' = "rs_threads s' ! tid" let ?u = "set_queue unb q ?t"
    show ?thesis
    proof (cases "it = Sent")
      case True
      then have q: "qsame ?u ?t'" "rs_toIEW s' = rs_toIEW s @ [p]" using pr p(3) by simp_all
      have "moved tid [p] s s'" using sm q(2) al sp(1) qsame_pending [OF q(1)] by (simp add: moved_def)
      then show ?thesis using qsame_queue_ok [OF q(1)] sp(2) q(1) by (auto simp: qsame_def)
    next
      case False
      then have b: "it = Break" "rs_toIEW s' = rs_toIEW s" "rt_skid ?t' = rt_skid ?u" "rt_insts ?t' = rt_insts ?u"
        "rt_status ?t' = SerializeStall" "rt_serializeInst ?t' = Some p" using pr p(3) by simp_all
      have "rt_serializeInst ?u = None" using qo assms(3) by (auto simp: queue_ok_def source_ok_def split: if_splits)
      then have "pending ?t' = pending ?t" using b sp(1) by (simp add: pending_def)
      then have "moved tid [] s s'" using sm b(2) by (simp add: moved_def)
      then show ?thesis using b by (auto simp: queue_ok_def)
    qed
  qed
qed

lemma rename_loop_moved:
  assumes "rename_loop isa fx inp unb tid k n s = Inr (k', n', s')" "ready tid s" "source_ok unb (rs_threads s ! tid)"
  shows "\<exists>xs. moved tid xs s s' \<and> queue_ok (rs_threads s' ! tid) \<and>
    (rt_status (rs_threads s' ! tid) = rt_status (rs_threads s ! tid) \<or> rt_status (rs_threads s' ! tid) = SerializeStall)"
  using assms
proof (induction k arbitrary: n s)
  case 0
  then show ?case by (intro exI [of _ "[]"]) (auto simp: ready_def)
next
  case (Suc k)
  show ?case
  proof (cases "length (rs_toIEW s) < rs_renameWidth s")
    case False
    then show ?thesis using Suc.prems by (intro exI [of _ "[]"]) (auto simp: ready_def)
  next
    case True
    with Suc.prems(1) obtain it s1 where h: "rename_head isa fx inp unb tid s = Inr (it, s1)"
      by (auto simp: ebind_Inr_iff)
    with Suc.prems(1) True have r: "it = Break \<and> s' = s1 \<or>
        it \<noteq> Break \<and> (\<exists>n1. rename_loop isa fx inp unb tid k n1 s1 = Inr (k', n', s'))"
      by (cases it) auto
    obtain xs where xs: "moved tid xs s s1" "queue_ok (rs_threads s1 ! tid)"
      "rt_status (rs_threads s1 ! tid) = rt_status (rs_threads s ! tid) \<or> it = Break \<and> rt_status (rs_threads s1 ! tid) = SerializeStall"
      using rename_head_moved [OF h Suc.prems(2,3)] by blast
    show ?thesis
    proof (cases "it = Break")
      case True
      then show ?thesis using r xs by blast
    next
      case False
      then obtain n1 where l: "rename_loop isa fx inp unb tid k n1 s1 = Inr (k', n', s')" using r by blast
      have "source_ok unb (rs_threads s1 ! tid)" using Suc.prems(3) xs(3) False by (simp add: source_ok_def)
      from Suc.IH [OF l ready_moved [OF Suc.prems(2) xs(1,2)] this] show ?thesis
        using xs(1,3) False moved_trans by metis
    qed
  qed
qed

text \<open>The status after a step: unchanged, or blocked, or stalled for serialization.\<close>

definition stays :: "nat \<Rightarrow> rename_stage \<Rightarrow> rename_stage \<Rightarrow> bool" where
  "stays tid s s' \<longleftrightarrow>
     rt_status (rs_threads s' ! tid) \<in> {rt_status (rs_threads s ! tid), Blocked, SerializeStall}"

lemma finish_rename_moved:
  assumes "finish_rename tid (left, n, s) = Inr s'" "queue_ok (rs_threads s ! tid)"
  shows "moved tid [] s s' \<and> queue_ok (rs_threads s' ! tid) \<and> stays tid s s'"
proof -
  from assms(1) obtain s1 where 1: "upd_t tid (\<lambda>t. t\<lparr>rt_instsInProgress := rt_instsInProgress t + int n\<rparr>) s = Inr s1"
    by (auto simp: finish_rename_def ebind_Inr_iff)
  have m: "moved tid [] s s1 \<and> qsame (rs_threads s ! tid) (rs_threads s1 ! tid)"
    by (rule upd_t_moved [OF 1]) (simp add: qsame_def)
  then have q: "queue_ok (rs_threads s1 ! tid)" using assms(2) qsame_queue_ok by blast
  obtain w b where c: "s' = s1\<lparr>rs_wroteToTimeBuffer := w, rs_blockThisCycle := b\<rparr> \<or>
      block_quiet tid (s1\<lparr>rs_wroteToTimeBuffer := w, rs_blockThisCycle := b\<rparr>) = Inr s'"
    using assms(1) 1 unfolding finish_rename_def Let_def by (auto split: if_splits)
  have f: "moved tid [] s (s1\<lparr>rs_wroteToTimeBuffer := w, rs_blockThisCycle := b\<rparr>)" using m by simp
  from c show ?thesis
  proof
    assume "block_quiet tid (s1\<lparr>rs_wroteToTimeBuffer := w, rs_blockThisCycle := b\<rparr>) = Inr s'"
    from block_quiet_moved [OF this] q m moved_Nil_trans [OF f] show ?thesis by (auto simp: stays_def qsame_def)
  qed (use m q in \<open>auto simp: stays_def qsame_def\<close>)
qed

lemma renameInsts_cases:
  assumes "renameInsts isa fx inp tid s = Inr s'"
  obtains "s' = s" | c where "block tid (s\<lparr>rs_blockThisCycle := True\<rparr>) = Inr (c, s')"
    | b k s1 left n s2 where "serialize_next (rt_status (rs_threads s ! tid) = Unblocking) tid (s\<lparr>rs_blockThisCycle := b\<rparr>) = Inr s1"
        "rename_loop isa fx inp (rt_status (rs_threads s ! tid) = Unblocking) tid k 0 s1 = Inr (left, n, s2)"
        "finish_rename tid (left, n, s2) = Inr s'"
proof -
  let ?t = "rs_threads s ! tid"
  let ?q = "the_queue (rt_status ?t = Unblocking) ?t"
  obtain iew where tid: "tid < length (rs_threads s)" and iew: "nthE (in_iew inp) tid = Inr iew"
    using assms by (auto simp: renameInsts_def ebind_Inr_iff nthE_Inr_iff)
  let ?m = "min (calcFreeROBEntries iew ?t) (calcFreeIQEntries iew ?t)"
  note u = assms [unfolded renameInsts_def nthE_ok [OF tid] iew ebind_simps Let_def]
  consider "?q = []" | "?q \<noteq> []" "?m \<le> 0" | "?q \<noteq> []" "\<not> ?m \<le> 0" by blast
  then show ?thesis
  proof cases
    case 1
    then show ?thesis using u that(1) by simp
  next
    case 2
    then show ?thesis using u that(2) by (auto simp: ebind_Inr_iff)
  next
    case 3
    then have "\<exists>b k s1 r. serialize_next (rt_status ?t = Unblocking) tid (s\<lparr>rs_blockThisCycle := b\<rparr>) = Inr s1 \<and>
        rename_loop isa fx inp (rt_status ?t = Unblocking) tid k 0 s1 = Inr r \<and> finish_rename tid r = Inr s'"
      using u by (simp only: if_False length_0_conv ebind_Inr_iff) blast
    then show ?thesis using that(3) by (metis prod_cases3)
  qed
qed

lemma renameInsts_moved:
  assumes "renameInsts isa fx inp tid s = Inr s'" "ready tid s" "rt_status (rs_threads s ! tid) \<in> {Running, Idle, Unblocking}"
  shows "\<exists>xs. moved tid xs s s' \<and> queue_ok (rs_threads s' ! tid) \<and> stays tid s s'"
proof -
  let ?unb = "rt_status (rs_threads s ! tid) = Unblocking"
  have qo: "queue_ok (rs_threads s ! tid)" using assms(2) by (simp add: ready_def)
  from assms(1) show ?thesis
  proof (cases rule: renameInsts_cases)
    case 1
    then show ?thesis using qo by (intro exI [of _ "[]"]) (simp add: stays_def)
  next
    case 2
    then have "moved tid [] s s' \<and> queue_ok (rs_threads s' ! tid) \<and> stays tid s s'"
      using block_moved [OF 2] qo by (simp add: stays_def)
    then show ?thesis by blast
  next
    case (3 b k s1 left n s2)
    note sn = serialize_next_same [OF 3(1)]
    have m1: "moved tid [] s s1" using sn qsame_pending by (auto simp: moved_def)
    have q1: "queue_ok (rs_threads s1 ! tid)" using sn qo qsame_queue_ok by auto
    have "source_ok ?unb (rs_threads s1 ! tid)" using sn assms(3) by (auto simp: source_ok_def qsame_def)
    from rename_loop_moved [OF 3(2) ready_moved [OF assms(2) m1 q1] this] obtain xs where
      2: "moved tid xs s1 s2" "queue_ok (rs_threads s2 ! tid)" "stays tid s1 s2" by (auto simp: stays_def)
    from finish_rename_moved [OF 3(3) 2(2)] have 4: "moved tid [] s2 s'" "queue_ok (rs_threads s' ! tid)" "stays tid s2 s'" by auto
    have "moved tid xs s s'" using moved_trans [OF moved_Nil_trans [OF m1 2(1)] 4(1)] by simp
    moreover have "stays tid s s'" using 2(3) 4(3) sn by (auto simp: stays_def qsame_def)
    ultimately show ?thesis using 4(2) by blast
  qed
qed

lemma rn_rename_moved:
  assumes "rn_rename isa fx inp c tid s = Inr (d, s')" "ready tid s"
  shows "\<exists>xs. moved tid xs s s' \<and> queue_ok (rs_threads s' ! tid)"
proof -
  let ?t = "rs_threads s ! tid"
  have r: "resume tid s = Inr s" using assms(2) by (simp add: resume_def ready_def)
  show ?thesis
  proof (cases "rt_status ?t \<in> {Running, Idle, Unblocking}")
    case False
    then have "s' = s" using assms(1) r by (auto simp: rn_rename_def result_iffs vector_iffs)
    then show ?thesis using assms(2) by (intro exI [of _ "[]"]) (simp add: ready_def)
  next
    case True
    with assms(1) r obtain s1 where 1: "renameInsts isa fx inp tid s = Inr s1"
      by (auto simp: rn_rename_def ebind_Inr_iff vector_iffs split: if_splits)
    obtain xs where xs: "moved tid xs s s1" "queue_ok (rs_threads s1 ! tid)" "stays tid s s1"
      using renameInsts_moved [OF 1 assms(2) True] by blast
    show ?thesis
    proof (cases "rt_status ?t = Unblocking")
      case False
      then have "s' = s1" using assms(1) r 1 True by (auto simp: rn_rename_def ebind_Inr_iff vector_iffs)
      then show ?thesis using xs by blast
    next
      case True
      with assms(1) r 1 obtain s2 u where 2: "skid_valid inp tid s1 = Inr s2" "unblock tid s2 = Inr (u, s')"
        by (auto simp: rn_rename_def ebind_Inr_iff vector_iffs)
      have "s2 = s1 \<or> skidInsert tid s1 = Inr s2" using 2(1) by (auto simp: skid_valid_def ebind_Inr_iff split: if_splits)
      then have m: "moved tid [] s1 s2 \<and> queue_ok (rs_threads s2 ! tid)"
        using xs(2,3) True skidInsert_moved [of tid s1 s2] by (auto simp: stays_def queue_ok_def)
      from unblock_moved [OF 2(2)] m have "moved tid [] s2 s' \<and> queue_ok (rs_threads s' ! tid)" by blast
      then show ?thesis using moved_trans [OF xs(1) moved_Nil_trans [OF conjunct1 [OF m], of "[]" s']] by auto
    qed
  qed
qed

subsection \<open>A squash\<close>

text \<open>A squash of one thread may mark instructions of this thread as squashed; nothing else of other
  threads changes.\<close>

definition ident :: "inst_heap \<Rightarrow> inst_ptr \<Rightarrow> (nat \<times> 64 word) option" where
  "ident h p = map_option (\<lambda>i. (di_threadNumber i, di_seqNum i)) (h p)"

definition apart :: "nat \<Rightarrow> rename_stage \<Rightarrow> rename_stage \<Rightarrow> bool" where
  "apart tid s s' \<longleftrightarrow>
     length (rs_threads s') = length (rs_threads s) \<and> (\<forall>t. t \<noteq> tid \<longrightarrow> rs_threads s' ! t = rs_threads s ! t) \<and>
     ident (rs_heap s') = ident (rs_heap s) \<and>
     (\<forall>p. \<not> of_thread (rs_heap s) tid p \<longrightarrow> key (rs_heap s') p = key (rs_heap s) p) \<and>
     rs_activeThreads s' = rs_activeThreads s \<and> rs_resumeUnblocking s' = rs_resumeUnblocking s"

lemma ident_of_thread: "ident h' = ident h \<Longrightarrow> of_thread h' = of_thread h"
proof -
  have "of_thread h tid p = (case ident h p of None \<Rightarrow> False | Some (n, _) \<Rightarrow> n = tid)" for h tid p
    by (simp add: of_thread_def ident_def split: option.splits)
  then show "ident h' = ident h \<Longrightarrow> of_thread h' = of_thread h" by (intro ext) simp
qed

lemma key_ident: "key h' = key h \<Longrightarrow> ident h' = ident h"
proof -
  have "ident h p = map_option (\<lambda>(n, k, _). (n, k)) (key h p)" for h p by (cases "h p") (simp_all add: ident_def key_def)
  then show "key h' = key h \<Longrightarrow> ident h' = ident h" by (intro ext) simp
qed

lemma apart_refl [simp]: "apart tid s s"
  by (simp add: apart_def)

lemma apart_trans: "apart tid s s1 \<Longrightarrow> apart tid s1 s2 \<Longrightarrow> apart tid s s2"
  by (auto simp: apart_def dest!: ident_of_thread)

lemma same_apart: "same tid s s' \<Longrightarrow> apart tid s s'"
  by (auto simp: same_def apart_def intro: key_ident)

lemma apart_set_t [simp]: "apart tid s (set_t tid t s') = apart tid s s'"
  by (auto simp: apart_def set_t_def)

lemma apart_fields [simp]:
  "apart tid s (s'\<lparr>rs_resumeSerialize := b\<rparr>) = apart tid s s'"
  "apart tid s (s'\<lparr>rs_wroteToTimeBuffer := b\<rparr>) = apart tid s s'"
  "apart tid s (s'\<lparr>rs_regs := rg\<rparr>) = apart tid s s'"
  by (simp_all add: apart_def)

lemma squash_decoded_apart:
  assumes "squash_decoded sn tid p s = Inr s'"
  shows "apart tid s s' \<and> rs_threads s' = rs_threads s \<and> rs_toIEW s' = rs_toIEW s \<and> rs_resumeSerialize s' = rs_resumeSerialize s"
  using assms
  by (auto simp: squash_decoded_def result_iffs apart_def put_inst_def ident_def key_def of_thread_def fun_eq_iff split: if_splits)

lemma squash_decoded_loop:
  "ensures (foldE (squash_decoded sn tid) ps s) (\<lambda>s'. apart tid s s' \<and> rs_threads s' = rs_threads s \<and> rs_toIEW s' = rs_toIEW s \<and>
     rs_resumeSerialize s' = rs_resumeSerialize s)"
  by (rule ensures_foldE, simp) (use squash_decoded_apart apart_trans in \<open>fastforce simp: ensures_def\<close>)

text \<open>The squash comes from an instruction that has left the stage, so it is older than one that is
  being serialized.\<close>

definition squash_older :: "64 word \<Rightarrow> rename_thread \<Rightarrow> inst_heap \<Rightarrow> bool" where
  "squash_older sn t h \<longleftrightarrow>
     (case rt_serializeInst t of None \<Rightarrow> True | Some p \<Rightarrow> (case h p of None \<Rightarrow> True | Some i \<Rightarrow> sn < di_seqNum i))"

lemma squash_serialize_apart:
  assumes "squash_serialize sn tid s = Inr s'" "ready tid s" "squash_older sn (rs_threads s ! tid) (rs_heap s)"
  shows "apart tid s s' \<and> rt_serializeInst (rs_threads s' ! tid) = None \<and> rs_toIEW s' = rs_toIEW s \<and> \<not> rs_resumeSerialize s'"
  using assms
  by (auto simp: squash_serialize_def result_iffs vector_iffs ready_def queue_ok_def squash_older_def split: if_splits option.splits)

lemma rn_squash_apart:
  assumes "rn_squash isa inp sn tid s = Inr s'" "ready tid s" "squash_older sn (rs_threads s ! tid) (rs_heap s)"
  shows "apart tid s s' \<and> pending (rs_threads s' ! tid) = [] \<and> rt_status (rs_threads s' ! tid) = Squashing \<and>
    queue_ok (rs_threads s' ! tid) \<and> rs_toIEW s' = rs_toIEW s \<and> \<not> rs_resumeSerialize s'"
proof -
  from assms(1) obtain s1 s2 s3 s4 where c: "squash_serialize sn tid s = Inr s1"
    "upd_t tid (\<lambda>t. t\<lparr>rt_status := Squashing\<rparr>) s1 = Inr s2"
    "foldE (squash_decoded sn tid) (in_fromDecode inp) s2 = Inr s3"
    "upd_t tid (\<lambda>t. t\<lparr>rt_insts := [], rt_skid := []\<rparr>) s3 = Inr s4" "doSquash isa sn tid s4 = Inr s'"
    by (auto simp: rn_squash_def ebind_Inr_iff)
  note 1 = squash_serialize_apart [OF c(1) assms(2,3)]
  have 2: "apart tid s s2 \<and> rt_serializeInst (rs_threads s2 ! tid) = None \<and> rt_status (rs_threads s2 ! tid) = Squashing \<and>
      rs_toIEW s2 = rs_toIEW s \<and> \<not> rs_resumeSerialize s2"
    using 1 c(2) by (auto simp: upd_t_def result_iffs vector_iffs set_t_def [of tid _ s1] apart_def)
  note 3 = ensuresD [OF squash_decoded_loop c(3)]
  have 4: "apart tid s s4 \<and> rt_serializeInst (rs_threads s4 ! tid) = None \<and> rt_status (rs_threads s4 ! tid) = Squashing \<and>
      rt_insts (rs_threads s4 ! tid) = [] \<and> rt_skid (rs_threads s4 ! tid) = [] \<and>
      rs_toIEW s4 = rs_toIEW s \<and> \<not> rs_resumeSerialize s4"
    using 2 3 c(4) apart_trans [of tid s s2 s3] by (auto simp: upd_t_def result_iffs vector_iffs set_t_def [of tid _ s3] apart_def)
  then show ?thesis
    using c(5) by (auto simp: doSquash_def result_iffs vector_iffs pending_def queue_ok_def set_t_def apart_def)
qed

end
