(* ===== verification/Rename_Init.thy ===== *)
theory Rename_Init
  imports Rename_Cons
begin

text \<open>
  The registers that the constructor of the CPU hands out: the loops over the registers of a class
  take a prefix of the free list into the map, so the balance of registers holds from the start.
\<close>

subsection \<open>The maps by class\<close>

definition cmap :: "reg_class \<Rightarrow> rename_map \<Rightarrow> simple_rename_map" where
  "cmap c m = (case c of IntRegClass \<Rightarrow> intMap m | FloatRegClass \<Rightarrow> floatMap m | _ \<Rightarrow> ccMap m)"

definition set_cmap :: "reg_class \<Rightarrow> simple_rename_map \<Rightarrow> rename_map \<Rightarrow> rename_map" where
  "set_cmap c x m =
     (case c of IntRegClass \<Rightarrow> m\<lparr>intMap := x\<rparr> | FloatRegClass \<Rightarrow> m\<lparr>floatMap := x\<rparr> | _ \<Rightarrow> m\<lparr>ccMap := x\<rparr>)"

definition class_ok :: "reg_class \<Rightarrow> phys_regfile \<Rightarrow> phys_reg \<Rightarrow> bool" where
  "class_ok c rf = (case c of IntRegClass \<Rightarrow> isIntPhysReg rf | FloatRegClass \<Rightarrow> isFloatPhysReg rf | _ \<Rightarrow> isCCPhysReg rf)"

definition set_class :: "reg_class \<Rightarrow> phys_regfile \<Rightarrow> nat \<Rightarrow> phys_reg \<Rightarrow> rename_map \<Rightarrow> rename_map result" where
  "set_class c =
     (case c of IntRegClass \<Rightarrow> setIntEntry | FloatRegClass \<Rightarrow> setFloatEntry | _ \<Rightarrow> setCCEntry)"

lemma set_class_Inr:
  "set_class c rf a p m = Inr m' \<longleftrightarrow>
   class_ok c rf p \<and> a < length (srm_map (cmap c m)) \<and>
   m' = set_cmap c ((cmap c m)\<lparr>srm_map := (srm_map (cmap c m))[a := p]\<rparr>) m"
  by (cases c) (auto simp: set_class_def class_ok_def cmap_def set_cmap_def setIntEntry_def setFloatEntry_def
      setCCEntry_def srm_setEntry_def result_iffs vector_iffs)

lemma cmap_set [simp]:
  "cmap c (set_cmap c x m) = x"
  "set_cmap c y (set_cmap c x m) = set_cmap c y m"
  by (cases c; simp add: cmap_def set_cmap_def)+

lemma set_cmap_id [simp]: "set_cmap c (cmap c m) m = m"
  by (cases c) (simp_all add: cmap_def set_cmap_def)

definition clist :: "reg_class \<Rightarrow> unified_free_list \<Rightarrow> phys_reg list" where
  "clist c fl = (case c of IntRegClass \<Rightarrow> intList fl | FloatRegClass \<Rightarrow> floatList fl | _ \<Rightarrow> ccList fl)"

definition set_clist :: "reg_class \<Rightarrow> phys_reg list \<Rightarrow> unified_free_list \<Rightarrow> unified_free_list" where
  "set_clist c l fl =
     (case c of IntRegClass \<Rightarrow> fl\<lparr>intList := l\<rparr> | FloatRegClass \<Rightarrow> fl\<lparr>floatList := l\<rparr> | _ \<Rightarrow> fl\<lparr>ccList := l\<rparr>)"

lemma clist_set [simp]:
  "clist c (set_clist c l fl) = l"
  "set_clist c l' (set_clist c l fl) = set_clist c l' fl"
  by (cases c; simp add: clist_def set_clist_def)+

lemma set_clist_id [simp]: "set_clist c (clist c fl) fl = fl"
  by (cases c) (simp_all add: clist_def set_clist_def)

lemma ufl_getReg_clist: "ufl_getReg (Some c) fl = Inr (p, fl') \<Longrightarrow> fl = set_clist c (p # clist c fl') fl'"
  by (cases c) (auto simp: ufl_getReg_def the_list_def set_list_def fl_getReg_def clist_def set_clist_def result_iffs
      split: list.splits)

lemma mset_set_clist: "mset (all_free (set_clist c (xs @ clist c fl) fl)) = mset xs + mset (all_free fl)"
  by (cases c) (simp_all add: clist_def set_clist_def all_free_def)

subsection \<open>The loop over one class\<close>

definition bound :: "reg_class \<Rightarrow> nat \<Rightarrow> nat \<Rightarrow> o3_regs \<Rightarrow> o3_regs \<Rightarrow> phys_reg list \<Rightarrow> bool" where
  "bound c j tid s s' xs \<longleftrightarrow>
     o3_regFile s' = o3_regFile s \<and> length xs = j \<and>
     o3_freeList s = set_clist c (xs @ clist c (o3_freeList s')) (o3_freeList s') \<and>
     list_all (class_ok c (o3_regFile s)) xs \<and>
     (let m = o3_renameMap s ! tid; l = srm_map (cmap c m) in
      j \<le> length l \<and> o3_renameMap s' = (o3_renameMap s)[tid := set_cmap c ((cmap c m)\<lparr>srm_map := xs @ drop j l\<rparr>) m])"

lemma bound_step:
  assumes "bound c j tid s s1 xs" "bind_reg c (set_class c (o3_regFile s1) j) tid s1 = Inr s2"
    and tid: "tid < length (o3_renameMap s)"
  shows "\<exists>p. bound c (Suc j) tid s s2 (xs @ [p])"
proof -
  let ?m = "o3_renameMap s ! tid" let ?l = "srm_map (cmap c ?m)"
  from assms(1) have m1: "o3_renameMap s1 ! tid = set_cmap c ((cmap c ?m)\<lparr>srm_map := xs @ drop j ?l\<rparr>) ?m"
    and j: "j \<le> length ?l" "length xs = j"
    using tid by (auto simp: bound_def Let_def)
  from assms(2) obtain p fl m2 where p: "ufl_getReg (Some c) (o3_freeList s1) = Inr (p, fl)"
    and m2: "set_class c (o3_regFile s1) j p (o3_renameMap s1 ! tid) = Inr m2"
    and s2: "o3_regFile s2 = o3_regFile s1" "o3_freeList s2 = fl" "o3_renameMap s2 = (o3_renameMap s1)[tid := m2]"
    by (auto simp: bind_reg_def with_map_def result_iffs vector_iffs)
  have j': "j < length ?l" using m2 j by (auto simp: m1 set_class_Inr)
  have "(xs @ drop j ?l)[j := p] = (xs @ [p]) @ drop (Suc j) ?l"
    using j j' by (simp add: list_update_append Cons_nth_drop_Suc [symmetric])
  then have "m2 = set_cmap c ((cmap c ?m)\<lparr>srm_map := (xs @ [p]) @ drop (Suc j) ?l\<rparr>) ?m"
    using m2 by (simp add: m1 set_class_Inr)
  moreover have "class_ok c (o3_regFile s) p" using m2 assms(1) by (simp add: set_class_Inr bound_def)
  ultimately have "bound c (Suc j) tid s s2 (xs @ [p])"
    using assms(1) s2 j' ufl_getReg_clist [OF p] by (auto simp: bound_def Let_def)
  then show ?thesis by blast
qed

lemma bound_loop:
  assumes "foldE (\<lambda>r s. bind_reg c (set_class c (o3_regFile s) r) tid s) [0..<j] s = Inr s'"
    and "tid < length (o3_renameMap s)"
  shows "\<exists>xs. bound c j tid s s' xs"
  using assms(1)
proof (induction j arbitrary: s')
  case 0
  then show ?case by (simp add: bound_def Let_def)
next
  case (Suc j)
  then obtain s1 where "foldE (\<lambda>r s. bind_reg c (set_class c (o3_regFile s) r) tid s) [0..<j] s = Inr s1"
    and "bind_reg c (set_class c (o3_regFile s1) j) tid s1 = Inr s'"
    by (auto simp: foldE_append ebind_Inr_iff)
  then show ?case using Suc.IH bound_step assms(2) by blast
qed

text \<open>The loops for the three classes, one after the other.\<close>

lemma bind_thread_alt:
  "bind_thread isa tid s =
     ebind (foldE (\<lambda>r s. bind_reg IntRegClass (set_class IntRegClass (o3_regFile s) r) tid s) [0..<NumIntRegs isa] s) (\<lambda>s.
     ebind (foldE (\<lambda>r s. bind_reg FloatRegClass (set_class FloatRegClass (o3_regFile s) r) tid s) [0..<NumFloatRegs isa] s) (\<lambda>s.
       foldE (\<lambda>r s. bind_reg CCRegClass (set_class CCRegClass (o3_regFile s) r) tid s) [0..<NumCCRegs isa] s))"
  by (simp add: bind_thread_def set_class_def)

definition sized :: "isa_regs \<Rightarrow> rename_map \<Rightarrow> bool" where
  "sized isa m \<longleftrightarrow>
     srm_wf IntRegClass (NumIntRegs isa) (\<lambda>_. True) (intMap m) \<and>
     srm_wf FloatRegClass (NumFloatRegs isa) (\<lambda>_. True) (floatMap m) \<and>
     srm_wf CCRegClass (NumCCRegs isa) (\<lambda>_. True) (ccMap m)"

lemma bind_thread_bound:
  assumes "bind_thread isa tid s = Inr s'" "tid < length (o3_renameMap s)" "sized isa (o3_renameMap s ! tid)"
  shows "\<exists>m. o3_regFile s' = o3_regFile s \<and> o3_renameMap s' = (o3_renameMap s)[tid := m] \<and> um_wf isa (o3_regFile s) m \<and>
    um_zero m = um_zero (o3_renameMap s ! tid) \<and>
    srm_map (intMap m) = take (NumIntRegs isa) (intList (o3_freeList s)) \<and>
    mset (all_free (o3_freeList s)) = mset (all_map m) + mset (all_free (o3_freeList s'))"
proof -
  obtain s1 s2 where
    "foldE (\<lambda>r s. bind_reg IntRegClass (set_class IntRegClass (o3_regFile s) r) tid s) [0..<NumIntRegs isa] s = Inr s1"
    "foldE (\<lambda>r s. bind_reg FloatRegClass (set_class FloatRegClass (o3_regFile s) r) tid s) [0..<NumFloatRegs isa] s1 = Inr s2"
    "foldE (\<lambda>r s. bind_reg CCRegClass (set_class CCRegClass (o3_regFile s) r) tid s) [0..<NumCCRegs isa] s2 = Inr s'"
    using assms(1) unfolding bind_thread_alt ebind_Inr_iff by blast
  note loops = this
  obtain xs where 1: "bound IntRegClass (NumIntRegs isa) tid s s1 xs" using bound_loop [OF loops(1) assms(2)] by blast
  then have l1: "tid < length (o3_renameMap s1)" using assms(2) by (simp add: bound_def Let_def)
  obtain ys where 2: "bound FloatRegClass (NumFloatRegs isa) tid s1 s2 ys" using bound_loop [OF loops(2) l1] by blast
  then have l2: "tid < length (o3_renameMap s2)" using l1 by (simp add: bound_def Let_def)
  obtain zs where 3: "bound CCRegClass (NumCCRegs isa) tid s2 s' zs" using bound_loop [OF loops(3) l2] by blast
  have "srm_map (intMap (o3_renameMap s' ! tid)) = take (NumIntRegs isa) (intList (o3_freeList s))"
    using 1 2 3 assms(2,3)
    by (simp add: bound_def Let_def cmap_def set_cmap_def clist_def set_clist_def sized_def srm_wf_def)
  moreover have "mset (all_free (o3_freeList s)) = mset xs + (mset ys + (mset zs + mset (all_free (o3_freeList s'))))"
    using 1 2 3 mset_set_clist by (metis bound_def)
  ultimately show ?thesis
    using 1 2 3 assms(2,3)
    by (intro exI [of _ "o3_renameMap s' ! tid"])
      (simp add: bound_def Let_def cmap_def set_cmap_def class_ok_def sized_def srm_wf_def um_wf_def all_map_def um_zero_def)
qed

subsection \<open>The constructor\<close>

definition init_inv :: "isa_regs \<Rightarrow> nat \<Rightarrow> nat \<Rightarrow> o3_regs \<Rightarrow> bool" where
  "init_inv isa n k s \<longleftrightarrow>
     length (o3_renameMap s) = n \<and>
     (\<forall>t < n. srm_zeroReg (intMap (o3_renameMap s ! t)) = ZeroReg isa) \<and>
     (if k = 0 then intList (o3_freeList s) = [0..<baseFloatRegIndex (o3_regFile s)]
      else srm_map (intMap (o3_renameMap s ! 0)) = take (NumIntRegs isa) [0..<baseFloatRegIndex (o3_regFile s)]) \<and>
     (\<forall>t < n. if t < k then um_wf isa (o3_regFile s) (o3_renameMap s ! t) else sized isa (o3_renameMap s ! t)) \<and>
     mset (all_free (o3_freeList s)) + mset (concat (map all_map (take k (o3_renameMap s)))) =
       mset [0..<totalNumRegs (o3_regFile s)]"

lemma init_inv_step:
  assumes "init_inv isa n k s" "k < n" "bind_thread isa k s = Inr s'"
  shows "init_inv isa n (Suc k) s'"
proof -
  from assms have l: "k < length (o3_renameMap s)" and z: "sized isa (o3_renameMap s ! k)" by (auto simp: init_inv_def)
  then obtain m where m: "o3_regFile s' = o3_regFile s" "o3_renameMap s' = (o3_renameMap s)[k := m]" "um_wf isa (o3_regFile s) m"
    "mset (all_free (o3_freeList s)) = mset (all_map m) + mset (all_free (o3_freeList s'))"
    "um_zero m = um_zero (o3_renameMap s ! k)" "srm_map (intMap m) = take (NumIntRegs isa) (intList (o3_freeList s))"
    using bind_thread_bound [OF assms(3)] by blast
  have "take (Suc k) ((o3_renameMap s)[k := m]) = take k (o3_renameMap s) @ [m]"
    using l by (simp add: take_Suc_conv_app_nth)
  with assms m show ?thesis
    by (auto simp: init_inv_def nth_list_update less_Suc_eq ac_simps um_zero_def split: if_splits)
qed

lemma init_inv_loop:
  assumes "foldE (bind_thread isa) [0..<k] s = Inr s'" "init_inv isa n 0 s" "k \<le> n"
  shows "init_inv isa n k s'"
  using assms(1,3)
proof (induction k arbitrary: s')
  case 0
  then show ?case using assms(2) by simp
next
  case (Suc k)
  then show ?case using init_inv_step by (fastforce simp: foldE_append ebind_Inr_iff)
qed

lemma fold_addReg: "fold fl_addReg xs l = l @ xs"
  by (induction xs arbitrary: l) (simp_all add: fl_addReg_def)

lemma all_free_new:
  assumes "new_free_list (new_regfile nInt nFloat nCC) = Inr fl"
  shows "all_free fl = [0..<nInt + nFloat + nCC] \<and> intList fl = [0..<nInt]"
proof -
  have "[0..<nInt + nFloat + nCC] = [0..<nInt] @ [nInt..<nInt + nFloat] @ [nInt + nFloat..<nInt + nFloat + nCC]"
    by (metis add_0 append.assoc upt_add_eq_append zero_le)
  then show ?thesis using assms
    by (auto simp: new_free_list_def initFreeList_def all_free_def fold_addReg new_regfile_def split: if_splits)
qed

lemma um_init_sized: "um_init isa iz fz new_rename_map = Inr m \<Longrightarrow> sized isa m \<and> srm_zeroReg (intMap m) = iz"
  by (auto simp: um_init_def srm_init_def new_rename_map_def new_srm_def result_iffs sized_def srm_wf_def list_all_iff)

lemma new_o3_regs_init:
  assumes "new_o3_regs isa nInt nFloat nCC n n = Inr rg"
  shows "init_inv isa n n rg"
proof -
  let ?rf = "new_regfile nInt nFloat nCC"
  obtain fl where fl: "new_free_list ?rf = Inr fl" using assms by (auto simp: new_o3_regs_def Let_def ebind_Inr_iff)
  then obtain m where m: "sized isa m \<and> srm_zeroReg (intMap m) = ZeroReg isa" and l: "foldE (bind_thread isa) [0..<n]
        \<lparr>o3_regFile = ?rf, o3_freeList = fl, o3_renameMap = replicate n m, o3_commitRenameMap = replicate n m,
         o3_scoreboard = new_scoreboard (totalNumRegs ?rf) (NumMiscRegs isa) (ZeroReg isa) (ZeroReg isa)\<rparr> = Inr rg"
    using assms by (fastforce simp: new_o3_regs_def Let_def result_iffs dest: um_init_sized)
  have "\<exists>s. o3_regFile s = ?rf \<and> o3_freeList s = fl \<and> o3_renameMap s = replicate n m \<and>
      foldE (bind_thread isa) [0..<n] s = Inr rg"
    by (intro exI conjI) (rule o3_regs.select_convs l)+
  then obtain s where s: "o3_regFile s = ?rf" "o3_freeList s = fl" "o3_renameMap s = replicate n m"
    and rg: "foldE (bind_thread isa) [0..<n] s = Inr rg" by blast
  have "init_inv isa n 0 s"
    using s m all_free_new [OF fl] by (simp add: init_inv_def new_regfile_def)
  then show ?thesis using init_inv_loop [OF rg] by simp
qed

lemma new_o3_regs_conserved: "new_o3_regs isa nInt nFloat nCC n n = Inr rg \<Longrightarrow> conserved isa rg (replicate n [])"
  using new_o3_regs_init [of isa nInt nFloat nCC n rg]
  by (auto simp: init_inv_def conserved_def thread_ok_def map_replicate_const)

end
