(* ===== verification/Rename_Props.thy ===== *)
theory Rename_Props
  imports Rename_Init "HOL-Library.Code_Target_Nat"
begin

text \<open>
  Properties of the rename stage that rest on the balance of physical registers: conservation in
  every reachable state, the undo of renames by a squash, and the zero register of further threads.
\<close>

subsection \<open>Reachable states\<close>

inductive rn_init :: "isa_regs \<Rightarrow> rename_stage \<Rightarrow> bool" where
  "isa_ok isa \<Longrightarrow> new_o3_regs isa nInt nFloat nCC (length free) (length free) = Inr rg \<Longrightarrow>
   new_rename maxWidth width delay decodeWidth free active rg h = Inr s \<Longrightarrow> rn_init isa s"

text \<open>A cycle, a squash, a reset by the CPU, and whatever the other stages do between cycles to the
  instructions, the list of active threads and the wires.\<close>

inductive rn_step :: "isa_regs \<Rightarrow> rename_stage \<Rightarrow> rename_stage \<Rightarrow> bool" where
  step_tick: "rn_tick isa fx inp s = Inr s' \<Longrightarrow> rn_step isa s s'"
| step_squash: "rn_squash isa inp sn tid s = Inr s' \<Longrightarrow> rn_step isa s s'"
| step_reset: "length free = length (rs_threads s) \<Longrightarrow> rn_step isa s (resetStage free s)"
| step_env: "rn_step isa s (clear_wires (s\<lparr>rs_heap := h, rs_activeThreads := ts\<rparr>))"

lemma map2_history:
  "length free = length ts \<Longrightarrow> map (rt_history \<circ> (\<lambda>(x, y). reset_thread x y)) (zip free ts) = map rt_history ts"
  by (induction free ts rule: list_induct2) (auto simp: reset_thread_def split: prod.splits)

interpretation rnm: machine "rn_init isa" "rn_step isa" "stage_ok isa" for isa
proof
  fix s assume "rn_init isa s"
  then show "stage_ok isa s"
  proof cases
    case (1 nInt nFloat nCC free rg maxWidth width delay decodeWidth active h)
    have "rs_regs s = rg" "map rt_history (rs_threads s) = replicate (length free) []"
      using 1(3) by (auto simp: new_rename_def resetStage_def map2_history split: if_splits)
    then show ?thesis using new_o3_regs_conserved [OF 1(2)] 1(1) by (simp add: stage_ok_def)
  qed
next
  fix s s' assume ok: "stage_ok isa s" and "rn_step isa s s'"
  from this(2) show "stage_ok isa s'"
  proof cases
    case (step_tick fx inp)
    then show ?thesis using ensuresD [OF rn_tick_ok [OF ok]] by blast
  next
    case (step_squash inp sn tid)
    then show ?thesis using ensuresD [OF rn_squash_ok [OF ok]] by blast
  next
    case (step_reset free)
    then show ?thesis using ok by (simp add: stage_ok_def resetStage_def map2_history)
  next
    case (step_env h ts)
    then show ?thesis using ok by (simp add: stage_ok_def clear_wires_def comp_def)
  qed
qed

subsection \<open>Conservation\<close>

definition phys_places :: "rename_stage \<Rightarrow> phys_reg list" where
  "phys_places s =
     all_free (o3_freeList (rs_regs s)) @ concat (map all_map (o3_renameMap (rs_regs s))) @
     concat (map (\<lambda>t. prevs (rt_history t)) (rs_threads s))"

lemma mset_phys_places:
  "stage_ok isa s \<Longrightarrow> mset (phys_places s) = mset [0..<totalNumRegs (o3_regFile (rs_regs s))]"
  by (simp add: stage_ok_def conserved_def phys_places_def comp_def ac_simps)

lemma length_maps:
  assumes "stage_ok isa s"
  shows "length (concat (map all_map (o3_renameMap (rs_regs s)))) =
    length (rs_threads s) * (NumIntRegs isa + NumFloatRegs isa + NumCCRegs isa)"
proof -
  have "length (all_map m) = NumIntRegs isa + NumFloatRegs isa + NumCCRegs isa" if "m \<in> set (o3_renameMap (rs_regs s))" for m
    using that assms length_all_map
    by (auto simp: stage_ok_def conserved_def thread_ok_def in_set_conv_nth)
  then have "map length (map all_map (o3_renameMap (rs_regs s))) =
      replicate (length (rs_threads s)) (NumIntRegs isa + NumFloatRegs isa + NumCCRegs isa)"
    using assms by (intro nth_equalityI) (simp_all add: stage_ok_def conserved_def)
  then show ?thesis by (simp add: length_concat sum_list_replicate)
qed

text \<open>C3. In every state that the rename stage reaches by cycles and squashes, each physical register
  is in exactly one place: on a free list, in the rename map of one thread at one architectural
  register, or in one history entry as the register to free at commit. A register is never freed
  twice, never handed out while it is in use, and none is lost: when the stage is drained, all
  registers but those of the maps are free.\<close>

theorem registers_conserved:
  assumes "reach (rn_init isa) (rn_step isa) s"
  shows "distinct (phys_places s) \<and> set (phys_places s) = {0..<totalNumRegs (o3_regFile (rs_regs s))} \<and>
    (isDrained s \<longrightarrow> length (all_free (o3_freeList (rs_regs s))) +
       length (rs_threads s) * (NumIntRegs isa + NumFloatRegs isa + NumCCRegs isa) = totalNumRegs (o3_regFile (rs_regs s)))"
proof -
  let ?n = "totalNumRegs (o3_regFile (rs_regs s))"
  have ok: "stage_ok isa s" by (rule rnm.reach_inv [OF assms])
  note m = mset_phys_places [OF ok]
  have "distinct (phys_places s)" using mset_eq_imp_distinct_iff [OF m] by simp
  moreover have "set (phys_places s) = {0..<?n}" using mset_eq_setD [OF m] by simp
  moreover have "length (all_free (o3_freeList (rs_regs s))) +
      length (rs_threads s) * (NumIntRegs isa + NumFloatRegs isa + NumCCRegs isa) = ?n" if "isDrained s"
  proof -
    have "map (\<lambda>t. prevs (rt_history t)) (rs_threads s) = map (\<lambda>_. []) (rs_threads s)"
      using that by (simp add: isDrained_def thread_drained_def list_all_iff)
    then have "concat (map (\<lambda>t. prevs (rt_history t)) (rs_threads s)) = []" by simp
    then have "length (phys_places s) = length (all_free (o3_freeList (rs_regs s))) +
      length (rs_threads s) * (NumIntRegs isa + NumFloatRegs isa + NumCCRegs isa)"
      unfolding phys_places_def using length_maps [OF ok] by simp
    then show ?thesis using mset_eq_length [OF m] by simp
  qed
  ultimately show ?thesis by blast
qed

subsection \<open>Undo\<close>

text \<open>The destinations of a sequence of instructions of a thread.\<close>

definition rename_seq ::
  "isa_regs \<Rightarrow> flatten_ops \<Rightarrow> nat \<Rightarrow> dyn_inst list \<Rightarrow> o3_regs \<times> rename_history list \<Rightarrow> (o3_regs \<times> rename_history list) result" where
  "rename_seq isa fx tid is st =
     foldE (\<lambda>i st. ebind (renameDestRegs isa fx tid (fst st, snd st, i)) (\<lambda>(rg, hs, _). Inr (rg, hs))) is st"

lemma rename_seq_extends:
  assumes "isa_ok isa" "conserved isa rg hss" "tid < length hss" "\<forall>i \<in> set is. sn < di_seqNum i"
  shows "ensures (rename_seq isa fx tid is (rg, hss ! tid)) (\<lambda>(rg', hs'). conserved isa rg' (hss[tid := hs']) \<and>
    extends isa tid sn rg (hss ! tid) rg' hs')"
proof -
  let ?P = "\<lambda>st. conserved isa (fst st) (hss[tid := snd st]) \<and> extends isa tid sn rg (hss ! tid) (fst st) (snd st)"
  have "ensures (rename_seq isa fx tid is (rg, hss ! tid)) ?P"
    unfolding rename_seq_def
  proof (rule ensures_foldE)
    show "?P (rg, hss ! tid)" by (simp add: assms extends_refl)
    fix i st assume i: "i \<in> set is" and P: "?P st"
    have "ensures (renameDestRegs isa fx tid (fst st, snd st, i)) (\<lambda>(rg', hs', i'). conserved isa rg' (hss[tid := hs']) \<and>
        (sn < di_seqNum i \<longrightarrow> extends isa tid sn (fst st) (snd st) rg' hs'))"
      using renameDestRegs_extends [OF assms(1), of "fst st" "hss[tid := snd st]" tid fx i sn] P assms(3) by simp
    then show "ensures (ebind (renameDestRegs isa fx tid (fst st, snd st, i)) (\<lambda>(rg, hs, _). Inr (rg, hs))) ?P"
      by (rule ensures_bind) (use i P assms(4) in \<open>auto intro: extends_trans\<close>)
  qed
  then show ?thesis by (rule ensures_mono) auto
qed

lemma extends_undo:
  assumes "isa_ok isa" "extends isa tid sn rg0 old rg hs" "thread_ok isa (o3_regFile rg) (o3_renameMap rg ! tid) hs"
    and wf: "um_wf isa (o3_regFile rg) (o3_renameMap rg0 ! tid)" and old: "\<forall>h \<in> set old. hb_instSeqNum h \<le> sn"
  shows "\<exists>fl'. undo_history isa (o3_regFile rg) sn hs (o3_renameMap rg ! tid) (o3_freeList rg) =
    Inr (old, o3_renameMap rg0 ! tid, fl')"
proof -
  obtain new where new: "hs = new @ old" "list_all (\<lambda>h. sn < hb_instSeqNum h) new"
    "undone isa (all_map (o3_renameMap rg ! tid)) new = all_map (o3_renameMap rg0 ! tid)"
    using assms(2) by (auto simp: extends_def)
  have "old = [] \<or> \<not> sn < hb_instSeqNum (hd old)" using old by (cases old) auto
  then have tk: "takeWhile (\<lambda>h. sn < hb_instSeqNum h) hs = new" "dropWhile (\<lambda>h. sn < hb_instSeqNum h) hs = old"
    using new(1,2) by (cases old; auto simp: list_all_iff takeWhile_append dropWhile_append takeWhile_eq_all_conv)+
  obtain m' fl' where u: "undo_history isa (o3_regFile rg) sn hs (o3_renameMap rg ! tid) (o3_freeList rg) = Inr (old, m', fl')"
    and m': "thread_ok isa (o3_regFile rg) m' old"
    using undo_history_ok [OF assms(1,3), of sn "o3_freeList rg"] tk(2) by auto
  have "all_map m' = all_map (o3_renameMap rg0 ! tid)" "um_zero m' = um_zero (o3_renameMap rg0 ! tid)"
    using undo_history_map [OF assms(1,3) u] tk(1) new(3) assms(2) by (auto simp: extends_def)
  then have "m' = o3_renameMap rg0 ! tid"
    using m' wf by (intro rename_map_eqI [where rf = "o3_regFile rg"]) (simp_all add: thread_ok_def)
  then show ?thesis using u by blast
qed

text \<open>C7. A squash undoes renames: when instructions younger than the squash point have renamed their
  destinations on top of older history, the squash succeeds and gives back the rename maps of all
  threads and the history as they were before, and the free lists with the same registers.\<close>

theorem squash_undoes_renames:
  assumes "reach (rn_init isa) (rn_step isa) s" and tid: "tid < length (rs_threads s)"
    and ren: "rename_seq isa fx tid is (rs_regs s, rt_history (rs_threads s ! tid)) = Inr (rg, hs)"
    and young: "\<forall>i \<in> set is. sn < di_seqNum i"
    and old: "\<forall>h \<in> set (rt_history (rs_threads s ! tid)). hb_instSeqNum h \<le> sn"
  shows "\<exists>s'. doSquash isa sn tid (set_t tid ((rs_threads s ! tid)\<lparr>rt_history := hs\<rparr>) (s\<lparr>rs_regs := rg\<rparr>)) = Inr s' \<and>
    o3_renameMap (rs_regs s') = o3_renameMap (rs_regs s) \<and> rs_threads s' = rs_threads s \<and>
    mset (all_free (o3_freeList (rs_regs s'))) = mset (all_free (o3_freeList (rs_regs s)))"
proof -
  let ?hss = "map rt_history (rs_threads s)" let ?old = "rt_history (rs_threads s ! tid)"
  let ?s1 = "set_t tid ((rs_threads s ! tid)\<lparr>rt_history := hs\<rparr>) (s\<lparr>rs_regs := rg\<rparr>)"
  have ok: "stage_ok isa s" by (rule rnm.reach_inv [OF assms(1)])
  then have c: "isa_ok isa" "conserved isa (rs_regs s) ?hss" by (simp_all add: stage_ok_def)
  have c1: "conserved isa rg (?hss[tid := hs])" and ext: "extends isa tid sn (rs_regs s) ?old rg hs"
    using ensuresD [OF rename_seq_extends [OF c, of tid "is" sn fx]] tid young ren by auto
  have l: "length (o3_renameMap (rs_regs s)) = length (rs_threads s)" "length (o3_renameMap rg) = length (rs_threads s)"
    using c(2) c1 by (simp_all add: conserved_def)
  have t1: "thread_ok isa (o3_regFile rg) (o3_renameMap rg ! tid) hs" using c1 tid by (auto simp: conserved_def)
  have "um_wf isa (o3_regFile rg) (o3_renameMap (rs_regs s) ! tid)"
    using c(2) tid ext by (auto simp: conserved_def thread_ok_def extends_def)
  then obtain fl' where u: "undo_history isa (o3_regFile rg) sn hs (o3_renameMap rg ! tid) (o3_freeList rg) =
      Inr (?old, o3_renameMap (rs_regs s) ! tid, fl')"
    using extends_undo [OF c(1) ext t1 _ old] by blast
  obtain s' where s': "doSquash isa sn tid ?s1 = Inr s'" and
    r: "rs_regs s' = rg\<lparr>o3_renameMap := (o3_renameMap rg)[tid := o3_renameMap (rs_regs s) ! tid], o3_freeList := fl'\<rparr>"
      "rs_threads s' = (rs_threads ?s1)[tid := (rs_threads ?s1 ! tid)\<lparr>rt_history := ?old\<rparr>]"
    using u tid l by (auto simp: doSquash_def)
  have maps: "o3_renameMap (rs_regs s') = o3_renameMap (rs_regs s)"
    using r(1) l ext tid by (auto simp: extends_def nth_list_update intro!: nth_equalityI)
  moreover have th: "rs_threads s' = rs_threads s" using r(2) tid by simp
  moreover have "stage_ok isa ?s1" using c(1) c1 by (simp add: stage_ok_def set_t_map)
  then have "stage_ok isa s'" using ensuresD [OF doSquash_ok s'] by simp
  then have "mset (phys_places s') = mset (phys_places s)"
    using mset_phys_places [of isa s'] mset_phys_places [OF ok] r(1) ext by (simp add: extends_def)
  then have "mset (all_free (o3_freeList (rs_regs s'))) = mset (all_free (o3_freeList (rs_regs s)))"
    unfolding phys_places_def maps th by simp
  ultimately show ?thesis using s' by blast
qed

subsection \<open>The zero register\<close>

lemma concat_disjoint:
  "distinct (concat (map f xs)) \<Longrightarrow> i < j \<Longrightarrow> j < length xs \<Longrightarrow> set (f (xs ! i)) \<inter> set (f (xs ! j)) = {}"
proof (induction xs arbitrary: i j)
  case (Cons x xs)
  obtain k where j: "j = Suc k" "k < length xs" using Cons.prems by (cases j) auto
  then have "set (f (xs ! k)) \<subseteq> (\<Union>a \<in> set xs. set (f a))" by (auto intro: bexI [OF _ nth_mem])
  with j Cons show ?case by (cases i) auto
qed simp

lemma conserved_maps_distinct: "conserved isa rg hss \<Longrightarrow> distinct (concat (map all_map (o3_renameMap rg)))"
proof -
  assume "conserved isa rg hss"
  then have "mset (all_free (o3_freeList rg) @ concat (map all_map (o3_renameMap rg)) @ concat (map prevs hss)) =
      mset [0..<totalNumRegs (o3_regFile rg)]" by (simp add: conserved_def ac_simps)
  from mset_eq_imp_distinct_iff [OF this] show ?thesis by simp
qed

text \<open>C36. The zero register: right after construction a rename of the zero register returns this
  register twice and changes nothing in thread 0, and stops with a failed assertion in every other
  thread, whose zero register is bound to another physical register than its own number.\<close>

theorem zero_register_of_further_threads:
  assumes "new_o3_regs isa nInt nFloat nCC n n = Inr rg" "ZeroReg isa < NumIntRegs isa" "tid < n"
  shows "renameInt (o3_regFile rg) (ZeroReg isa) (o3_renameMap rg ! tid) (o3_freeList rg) =
    (if tid = 0 then Inr ((ZeroReg isa, ZeroReg isa), o3_renameMap rg ! tid, o3_freeList rg)
     else Inl (AssertFail ''prev_reg == zeroReg''))"
proof -
  let ?m = "o3_renameMap rg ! tid" let ?first = "o3_renameMap rg ! 0" let ?z = "ZeroReg isa"
  have i: "init_inv isa n n rg" by (rule new_o3_regs_init [OF assms(1)])
  then have wf: "um_wf isa (o3_regFile rg) ?m" "um_wf isa (o3_regFile rg) ?first" and zero: "srm_zeroReg (intMap ?m) = ?z"
    and n: "length (o3_renameMap rg) = n"
    using assms(3) by (auto simp: init_inv_def)
  have len: "length (srm_map (intMap ?m)) = NumIntRegs isa" "length (srm_map (intMap ?first)) = NumIntRegs isa"
    using wf by (simp_all add: um_wf_def srm_wf_def)
  have "srm_map (intMap ?first) = take (NumIntRegs isa) [0..<baseFloatRegIndex (o3_regFile rg)]"
    using i assms(3) by (simp add: init_inv_def)
  then have m0: "srm_map (intMap ?first) ! ?z = ?z" using len(2) assms(2) by simp
  show ?thesis
  proof (cases "tid = 0")
    case True
    have "isIntPhysReg (o3_regFile rg) ?z"
      using wf(2) m0 assms(2) len(2) by (auto simp: um_wf_def srm_wf_def list_all_length)
    then show ?thesis using True m0 zero len assms(2) by (simp add: renameInt_def srm_rename_def)
  next
    case False
    have "set (all_map ?first) \<inter> set (all_map ?m) = {}"
      by (rule concat_disjoint [OF conserved_maps_distinct [OF new_o3_regs_conserved [OF assms(1)]]])
        (use False n assms(3) in simp_all)
    moreover have "?z \<in> set (all_map ?first)" using m0 len(2) assms(2) by (force simp: all_map_def in_set_conv_nth)
    moreover have "srm_map (intMap ?m) ! ?z \<in> set (all_map ?m)" using len(1) assms(2) by (simp add: all_map_def)
    ultimately have "srm_map (intMap ?m) ! ?z \<noteq> ?z" by (metis disjoint_iff)
    then show ?thesis using False zero len(1) assms(2) by (simp add: renameInt_def srm_rename_def assert_that_def)
  qed
qed

subsection \<open>Removal of a thread\<close>

lemma um_lookup_at:
  assumes "isa_ok isa" "um_wf isa rf m" "um_pos isa r = Some k" "um_lookup isa rf r m = Inr p"
  shows "p = all_map m ! k"
  using assms
  by (auto simp: um_lookup_def regIdxToClass_def isa_ok_def um_pos_def um_wf_def srm_wf_def all_map_def nth_append
      lookupInt_def lookupFloat_def lookupCC_def srm_lookup_def result_iffs split: if_splits)

text \<open>Each register of the thread is put on a free list.\<close>

lemma remove_reg_Inr:
  assumes "remove_reg isa tid r s = Inr s'"
  shows "\<exists>p. um_lookup isa (o3_regFile s) r (o3_renameMap s ! tid) = Inr p \<and> o3_regFile s' = o3_regFile s \<and>
    o3_renameMap s' = o3_renameMap s \<and> mset (all_free (o3_freeList s')) = add_mset p (mset (all_free (o3_freeList s)))"
  using assms by (auto simp: remove_reg_def result_iffs vector_iffs ufl_addReg_mset)

lemma remove_loop:
  assumes "isa_ok isa" "um_wf isa (o3_regFile s) (o3_renameMap s ! tid)" "foldE (remove_reg isa tid) rs s = Inr s'"
  shows "o3_regFile s' = o3_regFile s \<and> o3_renameMap s' = o3_renameMap s \<and>
    mset (all_free (o3_freeList s)) \<subseteq># mset (all_free (o3_freeList s')) \<and>
    (\<forall>r \<in> set rs. \<forall>k. um_pos isa r = Some k \<longrightarrow> all_map (o3_renameMap s ! tid) ! k \<in> set (all_free (o3_freeList s')))"
  using assms(2,3)
proof (induction rs arbitrary: s)
  case (Cons r rs)
  from Cons.prems(2) obtain s1 where 1: "remove_reg isa tid r s = Inr s1" and rest: "foldE (remove_reg isa tid) rs s1 = Inr s'"
    by (auto simp: ebind_Inr_iff)
  from remove_reg_Inr [OF 1] obtain p where s1: "o3_regFile s1 = o3_regFile s" "o3_renameMap s1 = o3_renameMap s"
    "mset (all_free (o3_freeList s1)) = add_mset p (mset (all_free (o3_freeList s)))"
    and p: "um_lookup isa (o3_regFile s) r (o3_renameMap s ! tid) = Inr p"
    by blast
  note IH = Cons.IH [OF _ rest] and here = um_lookup_at [OF assms(1) Cons.prems(1) _ p]
  have "mset (all_free (o3_freeList s)) \<subseteq># mset (all_free (o3_freeList s'))" "p \<in> set (all_free (o3_freeList s'))"
    using IH Cons.prems(1) s1 by (auto dest: mset_subset_eq_insertD set_mset_mono)
  then show ?case using IH here Cons.prems(1) s1 by auto
qed simp

lemma removeThread_regs_frees:
  assumes "isa_ok isa" "um_wf isa (o3_regFile s) (o3_renameMap s ! tid)" "removeThread_regs isa tid s = Inr s'" "um_pos isa r = Some k"
  shows "o3_regFile s' = o3_regFile s \<and> o3_renameMap s' = o3_renameMap s \<and>
    all_map (o3_renameMap s ! tid) ! k \<in> set (all_free (o3_freeList s'))"
proof -
  let ?rs = "[0..<NumIntRegs isa] @ [FP_Reg_Base isa..<FP_Reg_Base isa + NumFloatRegs isa] @
    [CC_Reg_Base isa..<CC_Reg_Base isa + NumCCRegs isa]"
  have "foldE (remove_reg isa tid) ?rs s = Inr s'"
    using assms(3) by (auto simp: removeThread_regs_def foldE_append ebind_Inr_iff)
  moreover have "r \<in> set ?rs" using assms(4) by (auto simp: um_pos_def split: if_splits)
  ultimately show ?thesis using remove_loop [OF assms(1,2)] assms(4) by blast
qed

lemma rn_squash_doSquash:
  assumes "rn_squash isa inp sn tid s = Inr s'"
  obtains s1 where "rview s1 = rview s" "doSquash isa sn tid s1 = Inr s'"
proof -
  obtain s1 s2 s3 s4 where "squash_serialize sn tid s = Inr s1" "upd_t tid (\<lambda>t. t\<lparr>rt_status := Squashing\<rparr>) s1 = Inr s2"
    "foldE (squash_decoded sn tid) (in_fromDecode inp) s2 = Inr s3"
    "upd_t tid (\<lambda>t. t\<lparr>rt_insts := [], rt_skid := []\<rparr>) s3 = Inr s4" "doSquash isa sn tid s4 = Inr s'"
    using assms by (auto simp: rn_squash_def ebind_Inr_iff)
  then show ?thesis
    using that [of s4] ensuresD [OF squash_serialize_kept] ensuresD [OF squash_decoded_kept]
      ensuresD [OF upd_t_kept [of "\<lambda>t. t\<lparr>rt_status := Squashing\<rparr>"]]
      ensuresD [OF upd_t_kept [of "\<lambda>t. t\<lparr>rt_insts := [], rt_skid := []\<rparr>"]] by simp
qed

lemma undo_history_frees:
  assumes "undo_history isa rf sn hs m fl = Inr (hs', m', fl')"
  shows "mset (all_free fl) \<subseteq># mset (all_free fl')"
  using assms
  by (induction hs arbitrary: m fl)
    (fastforce simp: result_iffs split: if_splits dest: ufl_addReg_mset mset_subset_eq_insertD)+

text \<open>C35. Removing a thread with a rename in flight frees a register twice: if the youngest rename of the
  thread is younger than the instruction at which the pipeline is squashed, its new register is on
  the free list two times afterwards, so two later renames will share it.\<close>

theorem removeThread_frees_twice:
  assumes "reach (rn_init isa) (rn_step isa) s" "tid < length (rs_threads s)"
    and h: "rt_history (rs_threads s ! tid) = h # hs" "hb_newPhysReg h \<noteq> hb_prevPhysReg h" "sn < hb_instSeqNum h"
    and rem: "rn_removeThread isa inp sn tid s = Inr s'"
  shows "2 \<le> count (mset (all_free (o3_freeList (rs_regs s')))) (hb_newPhysReg h)"
proof -
  let ?rg = "rs_regs s" let ?p = "hb_newPhysReg h"
  have ok: "stage_ok isa s" by (rule rnm.reach_inv [OF assms(1)])
  then have isa: "isa_ok isa" and t: "thread_ok isa (o3_regFile ?rg) (o3_renameMap ?rg ! tid) (h # hs)"
    using assms(2) h(1) by (auto simp: stage_ok_def conserved_def)
  then obtain k where k: "um_pos isa (hb_archReg h) = Some k" "all_map (o3_renameMap ?rg ! tid) ! k = ?p"
    using h(2) by (auto simp: thread_ok_def split: option.splits)
  from rem obtain rg s1 where rg: "removeThread_regs isa tid ?rg = Inr rg"
    and s1: "rview s1 = rview (s\<lparr>rs_regs := rg\<rparr>)" "doSquash isa sn tid s1 = Inr s'"
    by (auto simp: rn_removeThread_def ebind_Inr_iff elim: rn_squash_doSquash)
  have fr: "o3_regFile rg = o3_regFile ?rg" "o3_renameMap rg = o3_renameMap ?rg" "?p \<in> set (all_free (o3_freeList rg))"
    using removeThread_regs_frees [OF isa _ rg k(1)] t k(2) by (auto simp: thread_ok_def)
  have v: "rs_regs s1 = rg" "rt_history (rs_threads s1 ! tid) = h # hs"
    using s1(1) assms(2) h(1) by (auto simp: rview_def) (metis length_map nth_map)
  then obtain hs' m' where
    "undo_history isa (o3_regFile rg) sn (h # hs) (o3_renameMap rg ! tid) (o3_freeList rg) = Inr (hs', m', o3_freeList (rs_regs s'))"
    using s1(2) by (auto simp: doSquash_def result_iffs vector_iffs)
  then obtain m1 fl1 where "ufl_addReg (o3_regFile rg) ?p (o3_freeList rg) = Inr fl1"
    "undo_history isa (o3_regFile rg) sn hs m1 fl1 = Inr (hs', m', o3_freeList (rs_regs s'))"
    using h(2,3) by (auto simp: result_iffs)
  then have "add_mset ?p (mset (all_free (o3_freeList rg))) \<subseteq># mset (all_free (o3_freeList (rs_regs s')))"
    using ufl_addReg_mset undo_history_frees by metis
  then have "count (add_mset ?p (mset (all_free (o3_freeList rg)))) ?p \<le> count (mset (all_free (o3_freeList (rs_regs s')))) ?p"
    by (rule mset_subset_eq_count)
  moreover have "0 < count (mset (all_free (o3_freeList rg))) ?p" using fr(3) by (simp flip: set_mset_mset)
  moreover have "count (add_mset ?p (mset (all_free (o3_freeList rg)))) ?p = Suc (count (mset (all_free (o3_freeList rg))) ?p)"
    by simp
  ultimately show ?thesis by linarith
qed

subsection \<open>A small instance\<close>

text \<open>Two threads, two integer and one floating point register each; one instruction writes the
  integer register 1.\<close>

definition demo_isa :: isa_regs where
  "demo_isa = \<lparr>NumIntRegs = 2, NumFloatRegs = 1, NumCCRegs = 0, NumMiscRegs = 1, ZeroReg = 0, FP_Reg_Base = 2,
     CC_Reg_Base = 3, Misc_Reg_Base = 3, Max_Reg_Index = 4, isAlpha = False\<rparr>"

definition demo_inst :: dyn_inst where
  "demo_inst = \<lparr>di_static = \<lparr>op_srcRegIdx = [1], op_destRegIdx = [1], op_numIntDestRegs = 1, op_numFPDestRegs = 0,
       op_numCCDestRegs = 0, op_isLoad = False, op_isStore = False, op_isIprAccess = False, op_isSerializeBefore = False,
       op_isSerializeAfter = False, op_isStoreConditional = False\<rparr>,
     di_seqNum = 7, di_threadNumber = 0, di_squashed = False, di_serializeBefore = False, di_serializeAfter = False,
     di_serializeHandled = False, di_canIssue = False, di_readyRegs = 0, di_readySrcRegIdx = [False], di_srcRegIdx = [0],
     di_destRegIdx = [0], di_prevDestRegIdx = [0], di_flatDestRegIdx = [0]\<rparr>"

definition demo_fx :: flatten_ops where
  "demo_fx = \<lparr>flattenIntIndex = (\<lambda>_ r. r), flattenFloatIndex = (\<lambda>_ r. r), flattenCCIndex = (\<lambda>_ r. r)\<rparr>"

definition demo_heap :: inst_heap where
  "demo_heap p = (if p = 11 then Some demo_inst else None)"

definition demo_regs :: o3_regs where
  "demo_regs = projr (new_o3_regs demo_isa 6 3 0 2 2)"

definition demo_stage :: rename_stage where
  "demo_stage = projr (new_rename 8 4 1 4 [(4, 4, 4, 4), (4, 4, 4, 4)] [0, 1] demo_regs demo_heap)"

definition demo_in :: rename_in where
  "demo_in = (let iew = \<lparr>iew_freeIQEntries = 0, iew_freeLQEntries = 0, iew_freeSQEntries = 0, iew_dispatchedToLQ = 0,
       iew_dispatchedToSQ = 0, iew_dispatched = 0, iew_usedIQ = False, iew_usedLSQ = False, iew_block = False, iew_unblock = False\<rparr>;
     cm = \<lparr>cm_doneSeqNum = 0, cm_freeROBEntries = 0, cm_squash = False, cm_usedROB = False, cm_emptyROB = False\<rparr> in
     \<lparr>in_fromDecode = [11], in_iew = [iew, iew], in_commit = [cm, cm]\<rparr>)"

definition demo_after :: rename_stage where
  "demo_after = projr (rn_tick demo_isa demo_fx demo_in demo_stage)"

lemma not_isl_Inr: "\<not> isl m \<Longrightarrow> m = Inr (projr m)"
  by (cases m) simp_all

lemma demo_regs_new: "new_o3_regs demo_isa 6 3 0 2 2 = Inr demo_regs"
proof -
  have "\<not> isl (new_o3_regs demo_isa 6 3 0 2 2)" by code_simp
  from not_isl_Inr [OF this] show ?thesis by (simp only: demo_regs_def)
qed

lemma demo_stage_new: "new_rename 8 4 1 4 [(4, 4, 4, 4), (4, 4, 4, 4)] [0, 1] demo_regs demo_heap = Inr demo_stage"
proof -
  have "\<not> isl (new_rename 8 4 1 4 [(4, 4, 4, 4), (4, 4, 4, 4)] [0, 1] demo_regs demo_heap)" by (simp add: new_rename_def)
  from not_isl_Inr [OF this] show ?thesis by (simp only: demo_stage_def)
qed

lemma demo_tick: "rn_tick demo_isa demo_fx demo_in demo_stage = Inr demo_after"
proof -
  have "\<not> isl (rn_tick demo_isa demo_fx demo_in demo_stage)" by code_simp
  from not_isl_Inr [OF this] show ?thesis by (simp only: demo_after_def)
qed

lemma demo_isa_ok: "isa_ok demo_isa"
  by (simp add: isa_ok_def demo_isa_def)

lemma demo_init: "rn_init demo_isa demo_stage"
proof (rule rn_init.intros [OF demo_isa_ok _ demo_stage_new])
  show "new_o3_regs demo_isa 6 3 0 (length [(4, 4, 4, 4), (4, 4, 4, 4)]) (length [(4, 4, 4, 4), (4, 4, 4, 4)]) = Inr demo_regs"
    using demo_regs_new by (simp add: numeral_2_eq_2)
qed

lemma demo_reach_start: "reach (rn_init demo_isa) (rn_step demo_isa) demo_stage"
  by (rule reach_init) (rule demo_init)

lemma demo_reach_after: "reach (rn_init demo_isa) (rn_step demo_isa) demo_after"
  by (rule reach_step [OF demo_reach_start]) (rule step_tick [OF demo_tick])

theorem registers_conserved_witness: "distinct (phys_places demo_after)"
  using registers_conserved [OF demo_reach_after] by blast

theorem zero_register_of_further_threads_witness:
  "renameInt (o3_regFile demo_regs) 0 (o3_renameMap demo_regs ! 1) (o3_freeList demo_regs) =
   Inl (AssertFail ''prev_reg == zeroReg'')"
  using zero_register_of_further_threads [OF demo_regs_new, of 1] by (simp add: demo_isa_def)

theorem removeThread_frees_twice_witness:
  "2 \<le> count (mset (all_free (o3_freeList (rs_regs (projr (rn_removeThread demo_isa demo_in 3 0 demo_after)))))) 4"
proof -
  have h: "rt_history (rs_threads demo_after ! 0) =
      \<lparr>hb_instSeqNum = 7, hb_archReg = 1, hb_newPhysReg = 4, hb_prevPhysReg = 1\<rparr> # []" by code_simp
  have "\<not> isl (rn_removeThread demo_isa demo_in 3 0 demo_after)" by code_simp
  note rem = not_isl_Inr [OF this]
  have "0 < length (rs_threads demo_after)" by code_simp
  from removeThread_frees_twice [OF demo_reach_after this h _ _ rem] show ?thesis by simp
qed

theorem squash_undoes_renames_witness:
  "\<exists>s'. doSquash demo_isa 3 0 (set_t 0 ((rs_threads demo_stage ! 0)\<lparr>rt_history := snd (projr (rename_seq demo_isa demo_fx 0 [demo_inst]
       (rs_regs demo_stage, rt_history (rs_threads demo_stage ! 0))))\<rparr>)
     (demo_stage\<lparr>rs_regs := fst (projr (rename_seq demo_isa demo_fx 0 [demo_inst]
       (rs_regs demo_stage, rt_history (rs_threads demo_stage ! 0))))\<rparr>)) = Inr s' \<and>
     o3_renameMap (rs_regs s') = o3_renameMap (rs_regs demo_stage)"
proof -
  let ?r = "rename_seq demo_isa demo_fx 0 [demo_inst] (rs_regs demo_stage, rt_history (rs_threads demo_stage ! 0))"
  have "\<not> isl ?r" by code_simp
  then have r: "?r = Inr (fst (projr ?r), snd (projr ?r))" using not_isl_Inr by force
  have 1: "0 < length (rs_threads demo_stage)" and 2: "rt_history (rs_threads demo_stage ! 0) = []" by code_simp+
  have 3: "\<forall>i \<in> set [demo_inst]. 3 < di_seqNum i" by (simp add: demo_inst_def)
  from squash_undoes_renames [OF demo_reach_start 1 r 3] 2 show ?thesis by auto
qed

end
