(* ===== verification/Rename_Tick.thy ===== *)
theory Rename_Tick
  imports Rename_Order Rename_Props
begin

text \<open>
  A cycle of the rename stage on the waiting instructions: the loop over the active threads and the
  property that each thread hands its instructions to the next stage in program order.
\<close>

subsection \<open>One thread in a cycle\<close>

lemma tick_thread_step:
  assumes "tick_thread isa fx inp tid (c, s) = Inr (d, s')" "ready tid s"
    and env: "cm_squash (in_commit inp ! tid) \<Longrightarrow> squash_older (cm_doneSeqNum (in_commit inp ! tid)) (rs_threads s ! tid) (rs_heap s)"
  shows "apart tid s s' \<and> queue_ok (rs_threads s' ! tid) \<and> \<not> rs_resumeSerialize s' \<and>
    (if cm_squash (in_commit inp ! tid) then pending (rs_threads s' ! tid) = [] \<and> rs_toIEW s' = rs_toIEW s
     else \<exists>xs. moved tid xs s s')"
proof -
  from assms(1) obtain b s1 where 1: "checkSignalsAndUpdate isa inp tid s = Inr (b, s1)"
    and 2: "rn_rename isa fx inp (b \<or> c) tid s1 = Inr (d, s')"
    by (auto simp: tick_thread_def ebind_Inr_iff)
  show ?thesis
  proof (cases "cm_squash (in_commit inp ! tid)")
    case False
    note m1 = checkSignalsAndUpdate_moved [OF 1 assms(2) False]
    have r1: "ready tid s1" using ready_moved [OF assms(2)] m1 by blast
    obtain xs where xs: "moved tid xs s1 s'" "queue_ok (rs_threads s' ! tid)" using rn_rename_moved [OF 2 r1] by blast
    then have m: "moved tid xs s s'" using m1 moved_Nil_trans by blast
    then have "apart tid s s'" "\<not> rs_resumeSerialize s'" using assms(2) by (auto simp: moved_def same_def ready_def intro: same_apart)
    then show ?thesis using False m xs(2) by auto
  next
    case True
    from 1 True obtain iew t1 where t1: "readStallSignals iew (readFreeEntries iew (in_commit inp ! tid) (rs_threads s ! tid)) = Inr t1"
      and sq: "rn_squash isa inp (cm_doneSeqNum (in_commit inp ! tid)) tid (set_t tid t1 s) = Inr s1"
      and tid: "tid < length (rs_threads s)"
      by (auto simp: checkSignalsAndUpdate_def result_iffs vector_iffs Let_def)
    note q = readers_qsame [OF t1]
    have qo: "queue_ok (rs_threads (set_t tid t1 s) ! tid)" using tid qsame_queue_ok [OF q] assms(2) by (simp add: ready_def)
    note r = ready_moved [OF assms(2) moved_set_t [OF tid qsame_pending [OF q]] qo]
    have "squash_older (cm_doneSeqNum (in_commit inp ! tid)) (rs_threads (set_t tid t1 s) ! tid) (rs_heap (set_t tid t1 s))"
      using env [OF True] q tid by (simp add: squash_older_def qsame_def)
    note a = rn_squash_apart [OF sq r this]
    have "s' = s1" using 2 a by (auto simp: rn_rename_def resume_def result_iffs vector_iffs)
    moreover have "apart tid s s1" using a apart_trans [of tid s "set_t tid t1 s" s1] by simp
    ultimately show ?thesis using True a by auto
  qed
qed

subsection \<open>All threads\<close>

definition all_ready :: "rename_stage \<Rightarrow> bool" where
  "all_ready s \<longleftrightarrow> (\<forall>tid < length (rs_threads s). ready tid s)"

definition squashes_older :: "rename_in \<Rightarrow> nat list \<Rightarrow> rename_stage \<Rightarrow> bool" where
  "squashes_older inp tids s \<longleftrightarrow>
     list_all (\<lambda>tid. tid < length (rs_threads s) \<and> cm_squash (in_commit inp ! tid) \<longrightarrow>
       squash_older (cm_doneSeqNum (in_commit inp ! tid)) (rs_threads s ! tid) (rs_heap s)) tids"

text \<open>The instructions \<open>xs\<close> of the thread \<open>u\<close> leave the stage.\<close>

definition leaves :: "nat \<Rightarrow> inst_ptr list \<Rightarrow> rename_stage \<Rightarrow> rename_stage \<Rightarrow> bool" where
  "leaves u xs s s' \<longleftrightarrow>
     length (rs_threads s') = length (rs_threads s) \<and> rs_activeThreads s' = rs_activeThreads s \<and>
     ident (rs_heap s') = ident (rs_heap s) \<and>
     (\<forall>p. of_thread (rs_heap s) u p \<longrightarrow> key (rs_heap s') p = key (rs_heap s) p) \<and>
     list_all (of_thread (rs_heap s) u) xs \<and>
     pending (rs_threads s ! u) = xs @ pending (rs_threads s' ! u) \<and>
     filter (of_thread (rs_heap s) u) (rs_toIEW s') =
       filter (of_thread (rs_heap s) u) (rs_toIEW s) @ filter (alive (rs_heap s)) xs"

lemma leaves_refl [simp]: "leaves u [] s s"
  by (simp add: leaves_def)

lemma leaves_trans:
  assumes "leaves u xs s s1" "leaves u ys s1 s2"
  shows "leaves u (xs @ ys) s s2"
proof -
  have ot: "of_thread (rs_heap s1) = of_thread (rs_heap s)" using assms(1) by (intro ident_of_thread) (simp add: leaves_def)
  have "filter (alive (rs_heap s1)) ys = filter (alive (rs_heap s)) ys"
    using assms ot by (intro filter_cong) (auto simp: leaves_def list_all_iff alive_key)
  then show ?thesis using assms ot by (auto simp: leaves_def)
qed

lemma moved_leaves:
  assumes "moved u xs s s'" "ready u s"
  shows "leaves u xs s s'"
proof -
  have o: "list_all (of_thread (rs_heap s) u) xs" using assms by (auto simp: moved_def ready_def)
  then have "filter (of_thread (rs_heap s) u) (filter (alive (rs_heap s)) xs) = filter (alive (rs_heap s)) xs"
    by (induction xs) auto
  then show ?thesis using assms o by (auto simp: moved_def same_def leaves_def intro: key_ident)
qed

lemma apart_leaves:
  assumes "apart tid s s'" "tid \<noteq> u" "rs_toIEW s' = rs_toIEW s @ ys" "list_all (of_thread (rs_heap s) tid) ys"
  shows "leaves u [] s s'"
proof -
  have "\<not> of_thread (rs_heap s) u p" if "of_thread (rs_heap s) tid p" for p
    using that assms(2) by (auto simp: of_thread_def split: option.splits)
  then have "filter (of_thread (rs_heap s) u) ys = []" "\<And>p. of_thread (rs_heap s) u p \<Longrightarrow> \<not> of_thread (rs_heap s) tid p"
    using assms(4) by (auto simp: list_all_iff filter_empty_conv)
  then show ?thesis using assms by (auto simp: leaves_def apart_def)
qed

lemma tick_thread_all:
  assumes "tick_thread isa fx inp tid (c, s) = Inr (d, s')" "all_ready s" "squashes_older inp (tid # tids) s" "tid \<notin> set tids"
  shows "all_ready s' \<and> squashes_older inp tids s' \<and> (\<forall>u. u \<noteq> tid \<longrightarrow> leaves u [] s s') \<and>
    (\<not> cm_squash (in_commit inp ! tid) \<longrightarrow> (\<exists>xs. leaves tid xs s s'))"
proof -
  have tid: "tid < length (rs_threads s)"
    using assms(1) by (auto simp: tick_thread_def checkSignalsAndUpdate_def result_iffs vector_iffs)
  then have rt: "ready tid s" using assms(2) by (simp add: all_ready_def)
  have so: "cm_squash (in_commit inp ! tid) \<Longrightarrow> squash_older (cm_doneSeqNum (in_commit inp ! tid)) (rs_threads s ! tid) (rs_heap s)"
    using assms(3) tid by (simp add: squashes_older_def)
  note st = tick_thread_step [OF assms(1) rt so]
  then have ap: "apart tid s s'" by blast
  have ot: "of_thread (rs_heap s') = of_thread (rs_heap s)" using ap by (intro ident_of_thread) (simp add: apart_def)
  obtain ys where ys: "rs_toIEW s' = rs_toIEW s @ ys" "list_all (of_thread (rs_heap s) tid) ys"
    using st rt by (auto simp: moved_def ready_def list_all_iff split: if_splits)
  have "list_all (of_thread (rs_heap s) tid) (pending (rs_threads s' ! tid))"
    using st rt by (auto simp: moved_def ready_def split: if_splits)
  then have "ready t s'" if "t < length (rs_threads s')" for t
    using that st ap rt assms(2) ot by (cases "t = tid") (auto simp: ready_def all_ready_def apart_def)
  moreover have "squashes_older inp tids s'"
  proof -
    have "squash_older sn (rs_threads s' ! t) (rs_heap s') = squash_older sn (rs_threads s ! t) (rs_heap s)" if "t \<noteq> tid" for t sn
    proof -
      have "rs_threads s' ! t = rs_threads s ! t" using ap that by (simp add: apart_def)
      moreover have "(case rs_heap s' p of None \<Rightarrow> True | Some i \<Rightarrow> sn < di_seqNum i) =
          (case ident (rs_heap s') p of None \<Rightarrow> True | Some (_, n) \<Rightarrow> sn < n)" for p
        by (simp add: ident_def split: option.splits)
      moreover have "(case rs_heap s p of None \<Rightarrow> True | Some i \<Rightarrow> sn < di_seqNum i) =
          (case ident (rs_heap s) p of None \<Rightarrow> True | Some (_, n) \<Rightarrow> sn < n)" for p
        by (simp add: ident_def split: option.splits)
      ultimately show ?thesis using ap by (simp add: squash_older_def apart_def split: option.splits)
    qed
    then show ?thesis using assms(3,4) ap by (simp add: squashes_older_def list_all_iff apart_def) metis
  qed
  moreover have "leaves u [] s s'" if "u \<noteq> tid" for u using apart_leaves [OF ap _ ys, of u] that by simp
  moreover have "\<exists>xs. leaves tid xs s s'" if "\<not> cm_squash (in_commit inp ! tid)" using st that moved_leaves [OF _ rt] by auto
  ultimately show ?thesis by (auto simp: all_ready_def)
qed

lemma tick_threads_all:
  assumes "foldE (tick_thread isa fx inp) tids (c, s) = Inr (d, s')" "all_ready s" "squashes_older inp tids s" "distinct tids"
  shows "all_ready s' \<and> (\<forall>u. (u \<in> set tids \<longrightarrow> \<not> cm_squash (in_commit inp ! u)) \<longrightarrow> (\<exists>xs. leaves u xs s s'))"
  using assms
proof (induction tids arbitrary: c s)
  case Nil
  then show ?case by (auto intro: exI [of _ "[]"])
next
  case (Cons tid tids)
  from Cons.prems(1) obtain c1 s1 where 1: "tick_thread isa fx inp tid (c, s) = Inr (c1, s1)"
    and 2: "foldE (tick_thread isa fx inp) tids (c1, s1) = Inr (d, s')" by (auto simp: ebind_Inr_iff)
  have n: "tid \<notin> set tids" "distinct tids" using Cons.prems(4) by auto
  note st = tick_thread_all [OF 1 Cons.prems(2,3) n(1)]
  then have ih: "all_ready s'" "\<And>u. (u \<in> set tids \<longrightarrow> \<not> cm_squash (in_commit inp ! u)) \<Longrightarrow> \<exists>xs. leaves u xs s1 s'"
    using Cons.IH [OF 2 _ _ n(2)] by blast+
  have "\<exists>xs. leaves u xs s s'" if u: "u \<in> set (tid # tids) \<longrightarrow> \<not> cm_squash (in_commit inp ! u)" for u
  proof -
    obtain xs where "leaves u xs s s1" using st u by (cases "u = tid") auto
    moreover obtain ys where "leaves u ys s1 s'" using ih(2) [of u] u by auto
    ultimately show ?thesis using leaves_trans by blast
  qed
  then show ?case using ih(1) by blast
qed

subsection \<open>Before and after the threads\<close>

lemma sort_loop:
  assumes "foldE sort_inst ps s = Inr s'"
  shows "length (rs_threads s') = length (rs_threads s) \<and>
    (\<forall>u < length (rs_threads s). rs_threads s' ! u =
       (rs_threads s ! u)\<lparr>rt_insts := rt_insts (rs_threads s ! u) @ filter (of_thread (rs_heap s) u) ps\<rparr>) \<and>
    rs_heap s' = rs_heap s \<and> rs_toIEW s' = rs_toIEW s \<and> rs_activeThreads s' = rs_activeThreads s \<and>
    rs_resumeSerialize s' = rs_resumeSerialize s \<and> rs_resumeUnblocking s' = rs_resumeUnblocking s"
  using assms
proof (induction ps arbitrary: s)
  case (Cons p ps)
  from Cons.prems obtain s1 where 1: "sort_inst p s = Inr s1" and 2: "foldE sort_inst ps s1 = Inr s'"
    by (auto simp: ebind_Inr_iff)
  from 1 obtain i where "rs_heap s p = Some i" "di_threadNumber i < length (rs_threads s)"
    "s1 = set_t (di_threadNumber i) ((rs_threads s ! di_threadNumber i)\<lparr>rt_insts := rt_insts (rs_threads s ! di_threadNumber i) @ [p]\<rparr>) s"
    by (auto simp: sort_inst_def upd_t_def result_iffs vector_iffs)
  with Cons.IH [OF 2] show ?case by (auto simp: nth_list_update of_thread_def)
qed simp

definition quiet :: "rename_stage \<Rightarrow> rename_stage \<Rightarrow> bool" where
  "quiet s s' \<longleftrightarrow>
     length (rs_threads s') = length (rs_threads s) \<and> (\<forall>u. qsame (rs_threads s ! u) (rs_threads s' ! u)) \<and>
     rs_heap s' = rs_heap s \<and> rs_toIEW s' = rs_toIEW s \<and> rs_activeThreads s' = rs_activeThreads s \<and>
     rs_resumeSerialize s' = rs_resumeSerialize s \<and> rs_resumeUnblocking s' = rs_resumeUnblocking s"

lemma quiet_refl [simp]: "quiet s s"
  by (simp add: quiet_def qsame_def)

lemma quiet_trans: "quiet s s1 \<Longrightarrow> quiet s1 s2 \<Longrightarrow> quiet s s2"
  by (simp add: quiet_def qsame_def)

lemma quiet_set_t: "tid < length (rs_threads s) \<Longrightarrow> qsame (rs_threads s ! tid) t \<Longrightarrow> quiet s (set_t tid t (s\<lparr>rs_regs := rg\<rparr>))"
  by (auto simp: quiet_def qsame_def set_t_def nth_list_update)

lemma tick_commit_quiet: "tick_commit inp tid s = Inr s' \<Longrightarrow> quiet s s'"
  by (auto simp: tick_commit_def removeFromHistory_def result_iffs vector_iffs qsame_def intro!: quiet_set_t split: if_splits)

lemma tick_progress_quiet: "tick_progress inp tid s = Inr s' \<Longrightarrow> quiet s s'"
  using quiet_set_t [of tid s _ "rs_regs s"]
  by (auto simp: tick_progress_def Let_def result_iffs vector_iffs qsame_def)

lemma quiet_loop:
  assumes "foldE f xs s = Inr s'" "\<And>x s s'. f x s = Inr s' \<Longrightarrow> quiet s s'"
  shows "quiet s s'"
proof -
  have "ensures (foldE f xs s) (quiet s)"
    by (rule ensures_foldE, simp) (use assms(2) quiet_trans in \<open>fastforce simp: ensures_def\<close>)
  from ensuresD [OF this assms(1)] show ?thesis .
qed

lemma tick_finish_quiet:
  assumes "tick_finish inp s = Inr s'"
  shows "quiet s s'"
proof -
  define s0 where "s0 = (if rs_wroteToTimeBuffer s then s\<lparr>rs_cpu := rs_cpu s @ [ActivityThisCycle]\<rparr> else s)"
  from assms obtain s1 where "foldE (tick_commit inp) (rs_activeThreads s) s0 = Inr s1"
    "foldE (tick_progress inp) [0..<length (rs_threads s1)] s1 = Inr s'"
    by (auto simp: tick_finish_def ebind_Inr_iff s0_def)
  then have "quiet s0 s1" "quiet s1 s'"
    by (auto elim: quiet_loop intro: tick_commit_quiet tick_progress_quiet)
  moreover have "quiet s s0" by (simp add: s0_def quiet_def qsame_def)
  ultimately show ?thesis using quiet_trans by blast
qed

lemma updateStatus_quiet: "updateStatus s = Inr s' \<Longrightarrow> quiet s s'"
  by (auto simp: updateStatus_def result_iffs quiet_def qsame_def split: if_splits)

lemma all_ready_quiet:
  assumes "all_ready s" "quiet s s'"
  shows "all_ready s'"
  unfolding all_ready_def
proof (intro allI impI)
  fix u assume u: "u < length (rs_threads s')"
  have q: "qsame (rs_threads s ! u) (rs_threads s' ! u)" using assms(2) by (simp add: quiet_def)
  have "ready u s" using assms u by (simp add: all_ready_def quiet_def)
  then show "ready u s'"
    using assms(2) u qsame_pending [OF q] qsame_queue_ok [OF q] by (simp add: ready_def quiet_def)
qed

subsection \<open>Program order\<close>

lemma rn_tick_all:
  assumes tick: "rn_tick isa fx inp s = Inr s'" and "all_ready s" "squashes_older inp (rs_activeThreads s) s"
    "distinct (rs_activeThreads s)"
  shows "all_ready s' \<and> (\<forall>u < length (rs_threads s). \<not> cm_squash (in_commit inp ! u) \<longrightarrow>
    (\<exists>xs. pending (rs_threads s ! u) @ filter (of_thread (rs_heap s) u) (in_fromDecode inp) = xs @ pending (rs_threads s' ! u) \<and>
       filter (of_thread (rs_heap s) u) (rs_toIEW s') = filter (alive (rs_heap s)) xs))"
proof -
  let ?s = "s\<lparr>rs_wroteToTimeBuffer := False, rs_blockThisCycle := False, rs_toIEW := []\<rparr>"
  let ?ps = "in_fromDecode inp"
  from tick obtain s1 d s2 s3 where 1: "foldE sort_inst ?ps ?s = Inr s1"
    and 2: "foldE (tick_thread isa fx inp) (rs_activeThreads s1) (False, s1) = Inr (d, s2)"
    and 3: "(if d then updateStatus s2 else Inr s2) = Inr s3" and 4: "tick_finish inp s3 = Inr s'"
    by (auto simp: rn_tick_def sortInsts_def ebind_Inr_iff)
  note so = sort_loop [OF 1, simplified]
  have p1: "pending (rs_threads s1 ! u) = pending (rs_threads s ! u) @ filter (of_thread (rs_heap s) u) ?ps"
    and q1: "queue_ok (rs_threads s1 ! u) = queue_ok (rs_threads s ! u)" if "u < length (rs_threads s)" for u
    using so that by (auto simp: pending_def queue_ok_def)
  have "ready u s1" if "u < length (rs_threads s1)" for u
    using that so assms(2) p1 [of u] q1 [of u] by (auto simp: all_ready_def ready_def list_all_iff)
  then have r1: "all_ready s1" by (simp add: all_ready_def)
  have o1: "squashes_older inp (rs_activeThreads s1) s1"
    using assms(3) so by (auto simp: squashes_older_def list_all_iff squash_older_def)
  have "distinct (rs_activeThreads s1)" using so assms(4) by simp
  note all = tick_threads_all [OF 2 r1 o1 this]
  have "quiet s2 s3" using 3 updateStatus_quiet by (cases d) auto
  then have q: "quiet s2 s'" using tick_finish_quiet [OF 4] quiet_trans by blast
  have "\<exists>xs. pending (rs_threads s ! u) @ filter (of_thread (rs_heap s) u) ?ps = xs @ pending (rs_threads s' ! u) \<and>
       filter (of_thread (rs_heap s) u) (rs_toIEW s') = filter (alive (rs_heap s)) xs"
    if u: "u < length (rs_threads s)" "\<not> cm_squash (in_commit inp ! u)" for u
  proof -
    obtain xs where xs: "leaves u xs s1 s2" using all u(2) by blast
    have "pending (rs_threads s' ! u) = pending (rs_threads s2 ! u)" using q qsame_pending by (auto simp: quiet_def)
    then show ?thesis using xs p1 [OF u(1)] so q by (auto simp: leaves_def quiet_def intro!: exI [of _ xs])
  qed
  then show ?thesis using all all_ready_quiet [OF _ q] by blast
qed

text \<open>The cycles of the stage, with squashes that come from older instructions. Between cycles other
  stages may change instructions, but not the thread they belong to.\<close>

inductive ord_step :: "isa_regs \<Rightarrow> rename_stage \<Rightarrow> rename_stage \<Rightarrow> bool" where
  ord_tick: "rn_tick isa fx inp s = Inr s' \<Longrightarrow> squashes_older inp (rs_activeThreads s) s \<Longrightarrow> distinct (rs_activeThreads s) \<Longrightarrow>
    ord_step isa s s'"
| ord_env: "(\<And>u p. of_thread (rs_heap s) u p \<Longrightarrow> of_thread h u p) \<Longrightarrow>
    ord_step isa s (clear_wires (s\<lparr>rs_heap := h, rs_activeThreads := ts\<rparr>))"

interpretation rno: machine "rn_init isa" "ord_step isa" all_ready for isa
proof
  fix s assume "rn_init isa s"
  then show "all_ready s"
    by cases (auto simp: new_rename_def resetStage_def reset_thread_def all_ready_def ready_def queue_ok_def pending_def
        split: if_splits prod.splits)
next
  fix s s' assume r: "all_ready s" and "ord_step isa s s'"
  from this(2) show "all_ready s'"
  proof cases
    case (ord_tick fx inp)
    then show ?thesis using rn_tick_all r by blast
  next
    case (ord_env h ts)
    then show ?thesis using r
      by (auto simp: all_ready_def ready_def clear_wires_def queue_ok_def pending_def list_all_iff split: option.splits)
  qed
qed

text \<open>C6. Program order: in a cycle without a squash of the thread, the instructions that waited in a
  thread followed by those that decode delivers for it are the instructions that leave, in order,
  followed by those that wait afterwards; what the stage sends on for the thread are exactly the
  leaving instructions that are not squashed, in the same order. None is lost, sent twice or
  overtaken, whether the thread runs, blocks, unblocks or serializes.\<close>

theorem rename_in_order:
  assumes "reach (rn_init isa) (ord_step isa) s" "rn_tick isa fx inp s = Inr s'"
    and "squashes_older inp (rs_activeThreads s) s" "distinct (rs_activeThreads s)"
    and "tid < length (rs_threads s)" "\<not> cm_squash (in_commit inp ! tid)"
  shows "\<exists>gone. pending (rs_threads s ! tid) @ filter (of_thread (rs_heap s) tid) (in_fromDecode inp) =
      gone @ pending (rs_threads s' ! tid) \<and>
    filter (of_thread (rs_heap s) tid) (rs_toIEW s') = filter (alive (rs_heap s)) gone"
  using rn_tick_all [OF assms(2) rno.reach_inv [OF assms(1)] assms(3,4)] assms(5,6) by blast

theorem rename_in_order_witness:
  "\<exists>gone. pending (rs_threads demo_stage ! 0) @ filter (of_thread (rs_heap demo_stage) 0) (in_fromDecode demo_in) =
      gone @ pending (rs_threads demo_after ! 0) \<and>
    filter (of_thread (rs_heap demo_stage) 0) (rs_toIEW demo_after) = filter (alive (rs_heap demo_stage)) gone"
proof (rule rename_in_order [OF _ demo_tick])
  show "reach (rn_init demo_isa) (ord_step demo_isa) demo_stage"
    by (rule reach_init) (rule demo_init)
  show "squashes_older demo_in (rs_activeThreads demo_stage) demo_stage" "distinct (rs_activeThreads demo_stage)"
    "0 < length (rs_threads demo_stage)" "\<not> cm_squash (in_commit demo_in ! 0)"
    by code_simp+
qed

end
