(* ===== verification/Tags.thy ===== *)
theory Tags
  imports CacheBlk Intmath
begin

text \<open>
  Set-associative cache tags: \<^verbatim>\<open>mem/cache/tags/{cacheset.hh,base,base_set_assoc,lru,random_repl}\<close>.
  Blocks live in one array and a set is the list of its block indices, most recently used first.
  The clock of the cache, the number of requestors and random numbers are arguments.
\<close>

record tags =
  tg_blkSize :: nat
  accessLatency :: "64 word"
  warmupBound :: nat
  warmedUp :: bool
  numBlocks :: nat
  replacements :: nat
  tagsInUse :: int
  totalRefs :: nat
  sampledRefs :: nat
  warmupCycle :: tick
  occupancies :: "16 word \<Rightarrow> int"
  tagAccesses :: nat
  dataAccesses :: nat
  assoc :: nat
  allocAssoc :: nat
  numSets :: nat
  sequentialAccess :: bool
  sets :: "nat list list"
  blks :: "cache_blk list"
  setShift :: nat
  tagShift :: nat
  setMask :: "32 word"
  blkMask :: "32 word"

abbreviation blk_at :: "tags \<Rightarrow> nat \<Rightarrow> cache_blk" where
  "blk_at t p \<equiv> blks t ! p"

definition upd_blk :: "nat \<Rightarrow> (cache_blk \<Rightarrow> cache_blk) \<Rightarrow> tags \<Rightarrow> tags" where
  "upd_blk p f t = t\<lparr>blks := (blks t)[p := f (blks t ! p)]\<rparr>"

subsection \<open>Construction\<close>

definition init_blk :: "nat \<Rightarrow> nat \<Rightarrow> nat \<Rightarrow> cache_blk" where
  "init_blk blkSize asc k = (blk_invalidate new_blk)\<lparr>blk_data := blkSize * k, blk_tag := of_nat (k mod asc),
     whenReady := 0, isTouched := False, blk_size := of_nat blkSize,
     blk_set := int (k div asc), way := int (k mod asc)\<rparr>"

text \<open>The number of sets is computed by a division in the initializer list, before any check.\<close>

definition new_tags :: "nat \<Rightarrow> nat \<Rightarrow> nat \<Rightarrow> 64 word \<Rightarrow> bool \<Rightarrow> tags result" where
  "new_tags cap blkSize asc lat sequential =
     (if blkSize * asc = 0 then Inl (Panic ''division by zero'')
      else let nsets = cap div (blkSize * asc) in
      if blkSize < 4 \<or> \<not> isPowerOf2 (of_nat blkSize)
      then Inl (Fatal ''Block size must be at least 4 and a power of 2'')
      else if nsets \<le> 0 \<or> \<not> isPowerOf2 (of_nat nsets)
      then Inl (Fatal ''# of sets must be non-zero and a power of 2'')
      else if asc \<le> 0 then Inl (Fatal ''associativity must be greater than zero'')
      else ebind (floorLog2 (of_nat blkSize)) (\<lambda>shift. ebind (floorLog2 (of_nat nsets)) (\<lambda>setbits.
        Inr \<lparr>tg_blkSize = blkSize, accessLatency = lat, warmupBound = nsets * asc, warmedUp = False,
             numBlocks = nsets * asc, replacements = 0, tagsInUse = 0, totalRefs = 0, sampledRefs = 0,
             warmupCycle = 0, occupancies = (\<lambda>_. 0), tagAccesses = 0, dataAccesses = 0,
             assoc = asc, allocAssoc = asc, numSets = nsets, sequentialAccess = sequential,
             sets = map (\<lambda>i. [i * asc ..< Suc i * asc]) [0..<nsets],
             blks = map (init_blk blkSize asc) [0..<nsets * asc],
             setShift = shift, tagShift = shift + setbits,
             setMask = of_nat nsets - 1, blkMask = of_nat blkSize - 1\<rparr>)))"

subsection \<open>Addresses\<close>

definition extractTag :: "tags \<Rightarrow> addr \<Rightarrow> addr" where
  "extractTag t a = drop_bit (tagShift t) a"

definition extractSet :: "tags \<Rightarrow> addr \<Rightarrow> nat" where
  "extractSet t a = unat (drop_bit (setShift t) a AND ucast (setMask t))"

definition blkAlign :: "tags \<Rightarrow> addr \<Rightarrow> addr" where
  "blkAlign t a = a AND NOT (ucast (blkMask t))"

definition extractBlkOffset :: "tags \<Rightarrow> addr \<Rightarrow> nat" where
  "extractBlkOffset t a = unat (a AND of_nat (tg_blkSize t - 1))"

definition regenerateBlkAddr :: "tags \<Rightarrow> addr \<Rightarrow> nat \<Rightarrow> addr" where
  "regenerateBlkAddr t tag s = push_bit (tagShift t) tag OR push_bit (setShift t) (of_nat s)"

subsection \<open>Sets\<close>

text \<open>\<^verbatim>\<open>findBlk\<close> returns the block, if any, and the way, which is the associativity if there is none.\<close>

fun findBlk :: "cache_blk list \<Rightarrow> addr \<Rightarrow> bool \<Rightarrow> nat list \<Rightarrow> nat option \<times> nat" where
  "findBlk bs tag is_secure [] = (None, 0)"
| "findBlk bs tag is_secure (p # ps) =
     (if blk_tag (bs ! p) = tag \<and> blk_isValid (bs ! p) \<and> blk_isSecure (bs ! p) = is_secure
      then (Some p, 0)
      else let (r, i) = findBlk bs tag is_secure ps in (r, Suc i))"

text \<open>The do-while loops of \<^verbatim>\<open>moveToHead\<close> and \<^verbatim>\<open>moveToTail\<close>: \<^verbatim>\<open>next\<close> is written into the current
  position and replaced by what was there, until that is the block moved.\<close>

fun shift_in :: "nat \<Rightarrow> nat \<Rightarrow> nat list \<Rightarrow> nat list result" where
  "shift_in blk nxt [] = Inl (AssertFail ''i < assoc'')"
| "shift_in blk nxt (b # bs) =
     (if b = blk then Inr (nxt # bs) else ebind (shift_in blk b bs) (\<lambda>bs'. Inr (nxt # bs')))"

definition moveToHead :: "nat \<Rightarrow> nat list \<Rightarrow> nat list result" where
  "moveToHead blk ps =
     (case ps of
        [] \<Rightarrow> Inl OutOfRange
      | p # _ \<Rightarrow> if p = blk then Inr ps else shift_in blk blk ps)"

definition moveToTail :: "nat \<Rightarrow> nat list \<Rightarrow> nat list result" where
  "moveToTail blk ps =
     (case rev ps of
        [] \<Rightarrow> Inl OutOfRange
      | p # _ \<Rightarrow> if p = blk then Inr ps else ebind (shift_in blk blk (rev ps)) (\<lambda>r. Inr (rev r)))"

definition upd_set :: "nat \<Rightarrow> (nat list \<Rightarrow> nat list result) \<Rightarrow> tags \<Rightarrow> tags result" where
  "upd_set s f t =
     (if s < length (sets t)
      then ebind (f (sets t ! s)) (\<lambda>ps. Inr (t\<lparr>sets := (sets t)[s := ps]\<rparr>)) else Inl OutOfRange)"

subsection \<open>Operations\<close>

definition findBlock :: "tags \<Rightarrow> addr \<Rightarrow> bool \<Rightarrow> nat option" where
  "findBlock t a is_secure =
     fst (findBlk (blks t) (extractTag t a) is_secure (sets t ! extractSet t a))"

definition findBlockBySetAndWay :: "tags \<Rightarrow> nat \<Rightarrow> nat \<Rightarrow> nat" where
  "findBlockBySetAndWay t s w = sets t ! s ! w"

definition base_invalidate :: "nat \<Rightarrow> tick \<Rightarrow> nat \<Rightarrow> tags \<Rightarrow> tags result" where
  "base_invalidate maxMasters now p t =
     assert_that ''blk->isValid()'' (blk_isValid (blk_at t p))
     (assert_that ''blk->srcMasterId < maxMasters()'' (unat (srcMasterId (blk_at t p)) < maxMasters)
      (let m = srcMasterId (blk_at t p) in
       Inr (upd_blk p (\<lambda>b. b\<lparr>srcMasterId := invldMasterId, task_id := unknownTaskId, tickInserted := now\<rparr>)
         (t\<lparr>tagsInUse := tagsInUse t - 1, occupancies := (occupancies t)(m := occupancies t m - 1)\<rparr>))))"

definition base_accessBlock ::
  "(tick \<Rightarrow> 64 word) \<Rightarrow> tick \<Rightarrow> addr \<Rightarrow> bool \<Rightarrow> tags \<Rightarrow> nat option \<times> 64 word \<times> tags" where
  "base_accessBlock ticksToCycles now a is_secure t =
     (let blk = findBlock t a is_secure;
          t1 = t\<lparr>tagAccesses := tagAccesses t + allocAssoc t\<rparr>;
          t2 = (if sequentialAccess t
                then (if blk \<noteq> None then t1\<lparr>dataAccesses := dataAccesses t1 + 1\<rparr> else t1)
                else t1\<lparr>dataAccesses := dataAccesses t1 + allocAssoc t\<rparr>)
      in case blk of
           None \<Rightarrow> (None, accessLatency t, t2)
         | Some p \<Rightarrow>
             let b = blk_at t p;
                 lat = (if whenReady b > now \<and> ticksToCycles (whenReady b - now) > accessLatency t
                        then ticksToCycles (whenReady b - now) else accessLatency t)
             in (Some p, lat, upd_blk p (\<lambda>b. b\<lparr>refCount := refCount b + 1\<rparr>) t2))"

text \<open>The scan of the base class, which stops at an invalid block.\<close>

fun scan_victim :: "cache_blk list \<Rightarrow> nat option \<Rightarrow> nat \<Rightarrow> nat list \<Rightarrow> nat option result" where
  "scan_victim bs blk 0 ps = Inr blk"
| "scan_victim bs blk (Suc k) [] = Inl OutOfRange"
| "scan_victim bs blk (Suc k) (p # ps) =
     (if \<not> blk_isValid (bs ! p) then Inr (Some p) else scan_victim bs (Some p) k ps)"

definition base_findVictim :: "addr \<Rightarrow> tags \<Rightarrow> nat option result" where
  "base_findVictim a t = scan_victim (blks t) None (allocAssoc t) (sets t ! extractSet t a)"

definition base_insertBlock :: "nat \<Rightarrow> tick \<Rightarrow> packet \<Rightarrow> nat \<Rightarrow> tags \<Rightarrow> tags result" where
  "base_insertBlock maxMasters now pkt p t =
     ebind (getAddr pkt) (\<lambda>a.
     let master_id = rq_masterId (pk_req pkt); tid = rq_taskId (pk_req pkt);
         t1 = (if \<not> isTouched (blk_at t p) then
                 let u = upd_blk p (\<lambda>b. b\<lparr>isTouched := True\<rparr>) (t\<lparr>tagsInUse := tagsInUse t + 1\<rparr>)
                 in if \<not> warmedUp u \<and> tagsInUse u \<ge> int (warmupBound u)
                    then u\<lparr>warmedUp := True, warmupCycle := now\<rparr> else u
               else t)
     in ebind (if blk_isValid (blk_at t1 p) then
                 let m = srcMasterId (blk_at t1 p);
                     u = upd_blk p (\<lambda>b. b\<lparr>refCount := 0\<rparr>)
                       (t1\<lparr>replacements := replacements t1 + 1,
                           totalRefs := totalRefs t1 + unat (refCount (blk_at t1 p)),
                           sampledRefs := sampledRefs t1 + 1\<rparr>)
                 in assert_that ''blk->srcMasterId < maxMasters()'' (unat m < maxMasters)
                      (Inr (upd_blk p blk_invalidate (u\<lparr>occupancies := (occupancies u)(m := occupancies u m - 1)\<rparr>)))
               else Inr t1) (\<lambda>t2.
        assert_that ''master_id < maxMasters()'' (unat master_id < maxMasters)
        (let t3 = upd_blk p (\<lambda>b. b\<lparr>isTouched := True, blk_tag := extractTag t2 a, srcMasterId := master_id,
                    task_id := tid, tickInserted := now\<rparr>)
                  (t2\<lparr>occupancies := (occupancies t2)(master_id := occupancies t2 master_id + 1)\<rparr>)
         in Inr (t3\<lparr>tagAccesses := tagAccesses t3 + 1, dataAccesses := dataAccesses t3 + 1\<rparr>))))"

definition setWayAllocationMax :: "int \<Rightarrow> tags \<Rightarrow> tags result" where
  "setWayAllocationMax ways t =
     (if ways < 1 then Inl (Fatal ''Allocation limit must be greater than zero'')
      else Inr (t\<lparr>allocAssoc := nat ways\<rparr>))"

definition cleanupRefs :: "tags \<Rightarrow> tags" where
  "cleanupRefs t = fold (\<lambda>b t. if blk_isValid b
     then t\<lparr>totalRefs := totalRefs t + unat (refCount b), sampledRefs := sampledRefs t + 1\<rparr> else t) (blks t) t"

text \<open>\<^verbatim>\<open>forEachBlk\<close> with a visitor that may change the block and says whether to go on.\<close>

fun visit_blks :: "(cache_blk \<Rightarrow> bool \<times> cache_blk) \<Rightarrow> cache_blk list \<Rightarrow> cache_blk list" where
  "visit_blks visitor [] = []"
| "visit_blks visitor (b # bs) =
     (let (go, b') = visitor b in b' # (if go then visit_blks visitor bs else bs))"

definition forEachBlk :: "(cache_blk \<Rightarrow> bool \<times> cache_blk) \<Rightarrow> tags \<Rightarrow> tags" where
  "forEachBlk visitor t = t\<lparr>blks := visit_blks visitor (blks t)\<rparr>"

subsection \<open>Least recently used replacement\<close>

definition lru_accessBlock ::
  "(tick \<Rightarrow> 64 word) \<Rightarrow> tick \<Rightarrow> addr \<Rightarrow> bool \<Rightarrow> tags \<Rightarrow> (nat option \<times> 64 word \<times> tags) result" where
  "lru_accessBlock t2c now a is_secure t =
     (let (blk, lat, t1) = base_accessBlock t2c now a is_secure t in
      case blk of
        None \<Rightarrow> Inr (None, lat, t1)
      | Some p \<Rightarrow> ebind (upd_set (nat (blk_set (blk_at t1 p))) (moveToHead p) t1) (\<lambda>t2. Inr (Some p, lat, t2)))"

definition lru_findVictim :: "addr \<Rightarrow> tags \<Rightarrow> nat option" where
  "lru_findVictim a t =
     find (\<lambda>p. way (blk_at t p) < int (allocAssoc t)) (rev (sets t ! extractSet t a))"

definition lru_insertBlock :: "nat \<Rightarrow> tick \<Rightarrow> packet \<Rightarrow> nat \<Rightarrow> tags \<Rightarrow> tags result" where
  "lru_insertBlock maxMasters now pkt p t =
     ebind (base_insertBlock maxMasters now pkt p t) (\<lambda>t1.
     ebind (getAddr pkt) (\<lambda>a. upd_set (extractSet t1 a) (moveToHead p) t1))"

definition lru_invalidate :: "nat \<Rightarrow> tick \<Rightarrow> nat \<Rightarrow> tags \<Rightarrow> tags result" where
  "lru_invalidate maxMasters now p t =
     ebind (base_invalidate maxMasters now p t) (\<lambda>t1.
       upd_set (nat (blk_set (blk_at t1 p))) (moveToTail p) t1)"

subsection \<open>Random replacement\<close>

partial_function (option) next_allowed :: "cache_blk list \<Rightarrow> nat \<Rightarrow> nat list \<Rightarrow> nat \<Rightarrow> nat option result option" where
  "next_allowed bs alloc ps idx =
     (if way (bs ! (ps ! idx)) \<ge> int alloc
      then next_allowed bs alloc ps ((idx + 1) mod length ps) else Some (Inr (Some (ps ! idx))))"

definition rnd_findVictim :: "nat \<Rightarrow> addr \<Rightarrow> tags \<Rightarrow> nat option result" where
  "rnd_findVictim rnd a t =
     ebind (base_findVictim a t) (\<lambda>blk. case blk of
        None \<Rightarrow> Inr None
      | Some p \<Rightarrow>
          if blk_isValid (blk_at t p)
          then from_loop (next_allowed (blks t) (allocAssoc t) (sets t ! extractSet t a) rnd)
          else Inr (Some p))"

subsection \<open>Order of a set\<close>

lemma shift_in_eq: "blk \<in> set ps \<Longrightarrow> shift_in blk nxt ps = Inr (nxt # remove1 blk ps)"
  by (induction ps arbitrary: nxt) auto

lemma moveToHead_eq: "blk \<in> set ps \<Longrightarrow> moveToHead blk ps = Inr (blk # remove1 blk ps)"
  by (cases ps) (auto simp: moveToHead_def shift_in_eq)

lemma rev_remove1_distinct: "distinct ps \<Longrightarrow> rev (remove1 x ps) = remove1 x (rev ps)"
  by (simp add: distinct_remove1_removeAll removeAll_filter_not_eq rev_filter)

lemma moveToTail_eq:
  assumes "blk \<in> set ps" "distinct ps"
  shows "moveToTail blk ps = Inr (remove1 blk ps @ [blk])"
proof (cases "rev ps")
  case (Cons q qs)
  then have ps: "ps = rev qs @ [q]" by (simp add: rev_eq_Cons_iff)
  show ?thesis
  proof (cases "q = blk")
    case True
    then have "blk \<notin> set qs" using assms(2) ps by auto
    then show ?thesis using True ps by (simp add: moveToTail_def remove1_append remove1_idem)
  next
    case False
    have "blk \<in> set (q # qs)" using assms(1) Cons by (metis set_rev)
    then have "shift_in blk blk (q # qs) = Inr (blk # remove1 blk (rev ps))"
      unfolding Cons by (rule shift_in_eq)
    then have "moveToTail blk ps = Inr (rev (blk # remove1 blk (rev ps)))"
      using False unfolding moveToTail_def Cons by simp
    then show ?thesis using rev_remove1_distinct [OF assms(2), of blk]
      by (metis rev.simps(2) rev_rev_ident)
  qed
qed (use assms in simp)

subsection \<open>Invariant\<close>

definition tags_ok :: "tags \<Rightarrow> bool" where
  "tags_ok t \<longleftrightarrow> 0 < assoc t \<and> length (sets t) = numSets t \<and> length (blks t) = numSets t * assoc t \<and>
     (\<forall>s < numSets t. distinct (sets t ! s) \<and> set (sets t ! s) = {s * assoc t ..< Suc s * assoc t}) \<and>
     (\<forall>p < numSets t * assoc t. blk_set (blk_at t p) = int (p div assoc t) \<and> way (blk_at t p) = int (p mod assoc t))"

lemma div_in_set: "p < n * asc \<Longrightarrow> 0 < asc \<Longrightarrow> p div asc < n \<and> p \<in> {p div asc * asc ..< Suc (p div asc) * asc}"
  using dividend_less_div_times [of asc p] by (auto simp: div_less_iff_less_mult add.commute)

lemma tags_ok_blk:
  assumes "tags_ok t" "p < length (blks t)"
  shows "nat (blk_set (blk_at t p)) < numSets t" "p \<in> set (sets t ! nat (blk_set (blk_at t p)))"
    "distinct (sets t ! nat (blk_set (blk_at t p)))"
proof -
  have p: "p < numSets t * assoc t" "0 < assoc t" and s: "nat (blk_set (blk_at t p)) = p div assoc t"
    using assms by (auto simp: tags_ok_def)
  note D = div_in_set [OF p]
  show "nat (blk_set (blk_at t p)) < numSets t" using D s by simp
  moreover have "\<forall>s < numSets t. distinct (sets t ! s) \<and> set (sets t ! s) = {s * assoc t ..< Suc s * assoc t}"
    using assms(1) by (simp add: tags_ok_def)
  ultimately show "p \<in> set (sets t ! nat (blk_set (blk_at t p)))" "distinct (sets t ! nat (blk_set (blk_at t p)))"
    using D s by auto
qed

lemma tags_ok_set_member:
  assumes "tags_ok t" "s < numSets t" "p \<in> set (sets t ! s)"
  shows "p < length (blks t)" "nat (blk_set (blk_at t p)) = s"
proof -
  have p: "s * assoc t \<le> p" "p < Suc s * assoc t" and a: "0 < assoc t" using assms by (auto simp: tags_ok_def)
  have "Suc s * assoc t \<le> numSets t * assoc t" using assms(2) by (intro mult_right_mono) auto
  then have lt: "p < numSets t * assoc t" using p(2) by linarith
  then show "p < length (blks t)" using assms(1) by (simp add: tags_ok_def)
  have "p div assoc t = s" using p a by (simp add: div_nat_eqI mult.commute)
  then show "nat (blk_set (blk_at t p)) = s" using assms(1) lt by (simp add: tags_ok_def)
qed

definition keeps_place :: "(cache_blk \<Rightarrow> cache_blk) \<Rightarrow> bool" where
  "keeps_place f \<longleftrightarrow> (\<forall>b. blk_set (f b) = blk_set b \<and> way (f b) = way b)"

text \<open>The fields an operation may change without touching the invariant.\<close>

definition same_shape :: "tags \<Rightarrow> tags \<Rightarrow> bool" where
  "same_shape t t' \<longleftrightarrow> assoc t' = assoc t \<and> numSets t' = numSets t \<and> sets t' = sets t \<and>
     map blk_set (blks t') = map blk_set (blks t) \<and> map way (blks t') = map way (blks t) \<and>
     tg_blkSize t' = tg_blkSize t \<and> setShift t' = setShift t \<and> tagShift t' = tagShift t \<and>
     setMask t' = setMask t \<and> blkMask t' = blkMask t \<and> allocAssoc t' = allocAssoc t"

lemma same_shape_ok:
  assumes "same_shape t t'" "tags_ok t"
  shows "tags_ok t'"
proof -
  have l: "length (blks t') = length (blks t)" using assms(1) by (metis same_shape_def length_map)
  have "blk_set (blk_at t' p) = blk_set (blk_at t p) \<and> way (blk_at t' p) = way (blk_at t p)"
    if "p < length (blks t)" for p
    using assms(1) that l nth_map [of p "blks t"] nth_map [of p "blks t'"] unfolding same_shape_def by metis
  then show ?thesis using assms l by (auto simp: tags_ok_def same_shape_def)
qed

lemma same_shape_upd_blk: "keeps_place f \<Longrightarrow> same_shape t (upd_blk p f t)"
proof -
  assume f: "keeps_place f"
  have "map g ((blks t)[p := f (blk_at t p)]) = map g (blks t)" if "\<And>b. g (f b) = g b" for g :: "cache_blk \<Rightarrow> int"
    by (cases "p < length (blks t)") (auto simp: map_update that list_update_same_conv list_update_beyond)
  then show ?thesis using f by (simp add: same_shape_def upd_blk_def keeps_place_def)
qed

lemma same_shape_trans: "same_shape t t' \<Longrightarrow> same_shape t' t'' \<Longrightarrow> same_shape t t''"
  by (simp add: same_shape_def)

lemma same_shape_refl [simp]: "same_shape t t"
  by (simp add: same_shape_def)

lemma upd_set_ok:
  assumes "tags_ok t" "s < numSets t" "f (sets t ! s) = Inr ps" "distinct ps" "set ps = set (sets t ! s)"
  shows "\<exists>t'. upd_set s f t = Inr t' \<and> tags_ok t' \<and> t' = t\<lparr>sets := (sets t)[s := ps]\<rparr>"
  using assms by (auto simp: upd_set_def tags_ok_def nth_list_update)

subsection \<open>Geometry\<close>

definition geom :: "tags \<Rightarrow> nat \<Rightarrow> nat \<Rightarrow> bool" where
  "geom t b n \<longleftrightarrow> tg_blkSize t = 2 ^ b \<and> numSets t = 2 ^ n \<and> b < 32 \<and> n < 32 \<and> setShift t = b \<and>
     tagShift t = b + n \<and> setMask t = mask n \<and> blkMask t = mask b"

lemma pow2_log:
  assumes "isPowerOf2 (of_nat m)" "m < 2 ^ 32"
  shows "\<exists>k < 32. m = 2 ^ k \<and> floorLog2 (of_nat m) = Inr k"
proof -
  have m: "unat (of_nat m :: 64 word) = m"
    using assms(2) unfolding unsigned_of_nat by (simp add: take_bit_nat_eq_self)
  obtain k where k: "k < 64" "(of_nat m :: 64 word) = 2 ^ k" using assms(1) isPowerOf2_iff by blast
  then have mk: "m = 2 ^ k" using m by simp
  then have "k < 32" using assms(2) by (metis power_strict_increasing_iff one_less_numeral_iff semiring_norm(76))
  have "(of_nat m :: 64 word) \<noteq> 0" using pow2_nonzero [OF k(1)] k(2) by simp
  from floorLog2_spec [OF this] obtain y where
    y: "floorLog2 (of_nat m) = Inr y" "2 ^ y \<le> m" "m < 2 ^ Suc y" unfolding m by blast
  have "y \<le> k" using y(2) mk power_increasing_iff [of "2 :: nat" y k] by simp
  moreover have "k < Suc y" using y(3) mk power_strict_increasing_iff [of "2 :: nat" k "Suc y"] by simp
  ultimately show ?thesis using y(1) mk \<open>k < 32\<close> by (intro exI [of _ k]) simp
qed

lemma new_tags_Inr:
  assumes "new_tags cap blkSize asc lat sq = Inr t" "cap < 2 ^ 32" "blkSize < 2 ^ 32"
  shows "(\<exists>b n. geom t b n) \<and> tags_ok t"
proof -
  let ?ns = "cap div (blkSize * asc)"
  have pos: "0 < asc" "0 < blkSize" "isPowerOf2 (of_nat blkSize)" "isPowerOf2 (of_nat ?ns)"
    using assms(1) by (auto simp: new_tags_def Let_def split: if_splits)
  have "?ns < 2 ^ 32" using assms(2) by (meson div_le_dividend le_less_trans)
  with pow2_log pos(4) obtain n where n: "n < 32" "?ns = 2 ^ n" "floorLog2 (of_nat ?ns) = Inr n" by blast
  from pow2_log [OF pos(3) assms(3)] obtain b where b: "b < 32" "blkSize = 2 ^ b" "floorLog2 (of_nat blkSize) = Inr b"
    by blast
  have t: "numSets t = ?ns" "assoc t = asc" "setShift t = b" "tagShift t = b + n" "tg_blkSize t = blkSize"
    "setMask t = of_nat ?ns - 1" "blkMask t = of_nat blkSize - 1"
    "sets t = map (\<lambda>i. [i * asc ..< Suc i * asc]) [0..<?ns]" "blks t = map (init_blk blkSize asc) [0..<?ns * asc]"
    using assms(1) n b by (auto simp: new_tags_def Let_def split: if_splits)
  have "geom t b n" using t n b by (simp add: geom_def mask_eq_exp_minus_1)
  moreover have "tags_ok t" using t pos(1) by (simp add: tags_ok_def init_blk_def atLeastLessThan_upt [symmetric])
  ultimately show ?thesis by blast
qed

lemma ucast_mask32: "n \<le> 32 \<Longrightarrow> (ucast (mask n :: 32 word) :: 64 word) = mask n"
  by (rule bit_word_eqI) (auto simp: bit_ucast_iff bit_mask_iff)

lemma extractSet_eq: "geom t b n \<Longrightarrow> extractSet t a = unat (take_bit n (drop_bit b a))"
  by (simp add: extractSet_def geom_def ucast_mask32 take_bit_eq_mask)

lemma extractSet_less: "geom t b n \<Longrightarrow> extractSet t a < numSets t"
  by (simp only: extractSet_eq unsigned_take_bit_eq) (simp add: geom_def)

lemma regenerate_addr:
  assumes "geom t b n"
  shows "regenerateBlkAddr t (extractTag t a) (extractSet t a) = blkAlign t a"
proof -
  have "regenerateBlkAddr t (extractTag t a) (extractSet t a) =
      push_bit (b + n) (drop_bit (b + n) a) OR push_bit b (take_bit n (drop_bit b a))"
    unfolding regenerateBlkAddr_def extractTag_def extractSet_eq [OF assms]
    using assms by (simp add: geom_def)
  also have "\<dots> = a AND NOT (mask b)"
  proof (rule bit_word_eqI)
    fix i
    assume "i < LENGTH(64)"
    then show "bit (push_bit (b + n) (drop_bit (b + n) a) OR push_bit b (take_bit n (drop_bit b a))) i =
        bit (a AND NOT (mask b)) i"
      by (cases "b + n \<le> i")
        (auto simp: bit_or_iff bit_and_iff bit_not_iff bit_push_bit_iff bit_take_bit_iff bit_drop_bit_eq bit_mask_iff)
  qed
  finally show ?thesis using assms by (simp add: blkAlign_def geom_def ucast_mask32)
qed

subsection \<open>The operations keep the invariant\<close>

lemma same_shape_fields [simp]:
  "same_shape t (t'\<lparr>tagAccesses := x1\<rparr>) = same_shape t t'" "same_shape t (t'\<lparr>dataAccesses := x1\<rparr>) = same_shape t t'"
  "same_shape t (t'\<lparr>tagsInUse := x2\<rparr>) = same_shape t t'" "same_shape t (t'\<lparr>occupancies := x3\<rparr>) = same_shape t t'"
  "same_shape t (t'\<lparr>warmedUp := x4\<rparr>) = same_shape t t'" "same_shape t (t'\<lparr>warmupCycle := x5\<rparr>) = same_shape t t'"
  "same_shape t (t'\<lparr>replacements := x1\<rparr>) = same_shape t t'" "same_shape t (t'\<lparr>totalRefs := x1\<rparr>) = same_shape t t'"
  "same_shape t (t'\<lparr>sampledRefs := x1\<rparr>) = same_shape t t'"
  by (simp_all add: same_shape_def)

lemma same_shape_upd [simp]: "keeps_place f \<Longrightarrow> same_shape t t' \<Longrightarrow> same_shape t (upd_blk p f t')"
  using same_shape_upd_blk same_shape_trans by blast

lemma keeps_place_upds [simp]:
  "keeps_place blk_invalidate" "keeps_place (\<lambda>b. b\<lparr>refCount := g1 b\<rparr>)" "keeps_place (\<lambda>b. b\<lparr>isTouched := x1\<rparr>)"
  "keeps_place (\<lambda>b. b\<lparr>srcMasterId := x2, task_id := x3, tickInserted := x4\<rparr>)"
  "keeps_place (\<lambda>b. b\<lparr>isTouched := x1, blk_tag := x5, srcMasterId := x2, task_id := x3, tickInserted := x4\<rparr>)"
  by (simp_all add: keeps_place_def blk_invalidate_def)

lemma base_shapes:
  "base_invalidate mm now p t = Inr t' \<Longrightarrow> same_shape t t'"
  "same_shape t (snd (snd (base_accessBlock t2c now a sec t)))"
  "base_insertBlock mm now pkt p t = Inr t' \<Longrightarrow> same_shape t t'"
proof -
  show "base_invalidate mm now p t = Inr t' \<Longrightarrow> same_shape t t'"
    by (auto simp: base_invalidate_def result_iffs Let_def)
  show "same_shape t (snd (snd (base_accessBlock t2c now a sec t)))"
    by (auto simp: base_accessBlock_def Let_def split: option.splits)
  show "base_insertBlock mm now pkt p t = Inr t' \<Longrightarrow> same_shape t t'"
    by (auto simp: base_insertBlock_def result_iffs Let_def split: if_splits)
qed

text \<open>What an operation that also reorders one set keeps.\<close>

definition reordered :: "nat \<Rightarrow> nat list \<Rightarrow> tags \<Rightarrow> tags \<Rightarrow> bool" where
  "reordered s ps t t' \<longleftrightarrow> same_shape (t\<lparr>sets := (sets t)[s := ps]\<rparr>) t'"

lemma same_shape_geom: "same_shape t t' \<Longrightarrow> geom t' b n = geom t b n"
  by (simp add: same_shape_def geom_def)

lemma same_shape_extract:
  "same_shape t t' \<Longrightarrow> extractSet t' a = extractSet t a" "same_shape t t' \<Longrightarrow> extractTag t' a = extractTag t a"
  by (simp_all add: same_shape_def extractSet_def extractTag_def)

lemma same_shape_set_of: "same_shape t t' \<Longrightarrow> p < length (blks t) \<Longrightarrow> blk_set (blk_at t' p) = blk_set (blk_at t p)"
  by (metis same_shape_def length_map nth_map)

lemma same_shape_length: "same_shape t t' \<Longrightarrow> length (blks t') = length (blks t)"
  by (metis same_shape_def length_map)

lemma move_shape:
  assumes "same_shape t t1" "tags_ok t" "s < numSets t" "f (sets t ! s) = Inr ps" "distinct ps"
    "set ps = set (sets t ! s)"
  shows "upd_set s f t1 = Inr (t1\<lparr>sets := (sets t)[s := ps]\<rparr>) \<and> tags_ok (t1\<lparr>sets := (sets t)[s := ps]\<rparr>) \<and>
    reordered s ps t (t1\<lparr>sets := (sets t)[s := ps]\<rparr>)"
proof -
  have s: "sets t1 = sets t" "numSets t1 = numSets t" using assms(1) by (auto simp: same_shape_def)
  have "tags_ok t1" using same_shape_ok assms by blast
  from upd_set_ok [OF this, of s f ps] show ?thesis
    using assms s by (auto simp: reordered_def same_shape_def)
qed

lemma reordered_geom: "reordered s ps t t' \<Longrightarrow> geom t' b n = geom t b n"
  by (simp add: reordered_def same_shape_def geom_def)

lemma tags_ok_distinct: "tags_ok t \<Longrightarrow> s < numSets t \<Longrightarrow> distinct (sets t ! s)"
  by (simp add: tags_ok_def)

lemma move_perm:
  assumes "p \<in> set ps" "distinct ps"
  shows "distinct (p # remove1 p ps)" "set (p # remove1 p ps) = set ps"
    "distinct (remove1 p ps @ [p])" "set (remove1 p ps @ [p]) = set ps"
  using assms by auto

lemma findBlk_Some:
  "fst (findBlk bs tg sec ps) = Some p \<Longrightarrow>
   p \<in> set ps \<and> blk_tag (bs ! p) = tg \<and> blk_isValid (bs ! p) \<and> blk_isSecure (bs ! p) = sec"
  by (induction ps) (auto split: if_splits prod.splits)

lemma findBlock_Some:
  assumes "findBlock t a sec = Some p" "tags_ok t" "geom t b n"
  shows "p \<in> set (sets t ! extractSet t a)" "p < length (blks t)" "nat (blk_set (blk_at t p)) = extractSet t a"
  using findBlk_Some assms tags_ok_set_member [OF assms(2) extractSet_less [OF assms(3)]]
  unfolding findBlock_def by blast+

text \<open>An access that hits moves the block to the head of its set; one that misses keeps the order.\<close>

lemma lru_access_cases:
  assumes "tags_ok t" "geom t b n"
  shows "\<exists>lat t'. lru_accessBlock t2c now a sec t = Inr (findBlock t a sec, lat, t') \<and> tags_ok t' \<and> geom t' b n \<and>
    (case findBlock t a sec of
       None \<Rightarrow> same_shape t t'
     | Some p \<Rightarrow> reordered (extractSet t a) (p # remove1 p (sets t ! extractSet t a)) t t')"
proof -
  have "fst (base_accessBlock t2c now a sec t) = findBlock t a sec"
    by (simp add: base_accessBlock_def Let_def split: option.splits)
  then obtain lat t1 where base: "base_accessBlock t2c now a sec t = (findBlock t a sec, lat, t1)"
    by (metis prod.collapse)
  then have ss: "same_shape t t1" using base_shapes(2) [of t t2c now a sec] by simp
  show ?thesis
  proof (cases "findBlock t a sec")
    case None
    then show ?thesis using base ss same_shape_ok [OF ss assms(1)] same_shape_geom [OF ss] assms(2)
      by (simp add: lru_accessBlock_def)
  next
    case (Some p)
    note P = findBlock_Some [OF Some assms]
    note D = tags_ok_distinct [OF assms(1) extractSet_less [OF assms(2)], of a]
    have "nat (blk_set (blk_at t1 p)) = extractSet t a" using same_shape_set_of [OF ss P(2)] P(3) by simp
    then show ?thesis
      using move_shape [where f = "moveToHead p", OF ss assms(1) extractSet_less [OF assms(2)] moveToHead_eq [OF P(1)] move_perm(1,2) [OF P(1) D]]
        reordered_geom assms(2) base Some
      by (auto simp: lru_accessBlock_def)
  qed
qed

lemma moveToHead_Inr: "moveToHead p ps = Inr qs \<Longrightarrow> p \<in> set ps"
proof -
  have "shift_in p x ps = Inr qs \<Longrightarrow> p \<in> set ps" for x
    by (induction ps arbitrary: x qs) (auto simp: result_iffs split: if_splits)
  then show "moveToHead p ps = Inr qs \<Longrightarrow> p \<in> set ps"
    by (cases ps) (auto simp: moveToHead_def split: if_splits)
qed

lemma lru_insert_cases:
  assumes "tags_ok t" "geom t b n" "lru_insertBlock mm now pkt p t = Inr t'" "getAddr pkt = Inr a"
  shows "tags_ok t' \<and> geom t' b n \<and> p \<in> set (sets t ! extractSet t a) \<and> p < length (blks t) \<and>
    reordered (extractSet t a) (p # remove1 p (sets t ! extractSet t a)) t t' \<and>
    blk_tag (blk_at t' p) = extractTag t a"
proof -
  obtain t1 where t1: "base_insertBlock mm now pkt p t = Inr t1" "upd_set (extractSet t1 a) (moveToHead p) t1 = Inr t'"
    using assms(3,4) by (auto simp: lru_insertBlock_def result_iffs)
  have ss: "same_shape t t1" using base_shapes(3) t1(1) by blast
  let ?s = "extractSet t a"
  have s: "extractSet t1 a = ?s" "sets t1 = sets t" using same_shape_extract [OF ss] ss by (auto simp: same_shape_def)
  have p: "p \<in> set (sets t ! ?s)" using t1(2) s moveToHead_Inr by (auto simp: upd_set_def result_iffs split: if_splits)
  note L = extractSet_less [OF assms(2), of a]
  note M = move_shape [where f = "moveToHead p", OF ss assms(1) L moveToHead_eq [OF p] move_perm(1,2) [OF p tags_ok_distinct [OF assms(1) L]]]
  have t': "t' = t1\<lparr>sets := (sets t)[?s := p # remove1 p (sets t ! ?s)]\<rparr>" using M t1(2) s by simp
  have len: "p < length (blks t)" using tags_ok_set_member(1) [OF assms(1) L p] .
  have "blk_tag (blk_at t1 p) = extractTag t a"
    using t1(1) assms(4) len
    by (auto simp: base_insertBlock_def result_iffs Let_def upd_blk_def extractTag_def split: if_splits)
  then show ?thesis using M t' reordered_geom assms(2) p len by auto
qed

lemma lru_invalidate_cases:
  assumes "tags_ok t" "geom t b n" "p < length (blks t)" "lru_invalidate mm now p t = Inr t'"
  shows "tags_ok t' \<and> geom t' b n \<and>
    (let s = nat (blk_set (blk_at t p)) in reordered s (remove1 p (sets t ! s) @ [p]) t t')"
proof -
  obtain t1 where t1: "base_invalidate mm now p t = Inr t1"
    "upd_set (nat (blk_set (blk_at t1 p))) (moveToTail p) t1 = Inr t'"
    using assms(4) by (auto simp: lru_invalidate_def result_iffs)
  have ss: "same_shape t t1" using base_shapes(1) t1(1) by blast
  note B = tags_ok_blk [OF assms(1,3)]
  show ?thesis
    using move_shape [where f = "moveToTail p", OF ss assms(1) B(1) moveToTail_eq [OF B(2,3)] move_perm(3,4) [OF B(2,3)]]
      t1(2) same_shape_set_of [OF ss assms(3)] reordered_geom assms(2)
    by (auto simp: Let_def)
qed

end
