(* ===== verification/Tags_Props.thy ===== *)
theory Tags_Props
  imports Tags
begin

text \<open>
  Properties of the set-associative tags: the decomposition of addresses, the invariant of the
  least-recently-used tags along every sequence of operations, the victim of a full set and
  what a lookup returns after an insertion.
\<close>

subsection \<open>The tags as a state machine\<close>

text \<open>What the cache does with its tags: lookups, insertions, invalidations, changes of the status
  of a block by the coherence protocol and the limit on the ways.\<close>

inductive lru_step :: "nat \<Rightarrow> (tick \<Rightarrow> 64 word) \<Rightarrow> tags \<Rightarrow> tags \<Rightarrow> bool" for mm t2c where
  st_access: "lru_accessBlock t2c now a sec t = Inr (r, lat, t') \<Longrightarrow> lru_step mm t2c t t'"
| st_insert: "lru_insertBlock mm now pkt p t = Inr t' \<Longrightarrow> lru_step mm t2c t t'"
| st_invalidate: "p < length (blks t) \<Longrightarrow> lru_invalidate mm now p t = Inr t' \<Longrightarrow> lru_step mm t2c t t'"
| st_status: "lru_step mm t2c t (upd_blk p (\<lambda>b. b\<lparr>status := st\<rparr>) t)"
| st_limit: "setWayAllocationMax w t = Inr t' \<Longrightarrow> lru_step mm t2c t t'"
| st_cleanup: "lru_step mm t2c t (cleanupRefs t)"

definition lru_init :: "tags \<Rightarrow> bool" where
  "lru_init t \<longleftrightarrow> (\<exists>cap blkSize asc lat sq. new_tags cap blkSize asc lat sq = Inr t \<and>
     cap < 2 ^ 32 \<and> blkSize < 2 ^ 32)"

definition lru_inv :: "tags \<Rightarrow> bool" where
  "lru_inv t \<longleftrightarrow> tags_ok t \<and> (\<exists>b n. geom t b n) \<and> 0 < allocAssoc t"

lemma new_tags_alloc: "new_tags cap blkSize asc lat sq = Inr t \<Longrightarrow> 0 < allocAssoc t"
  by (auto simp: new_tags_def Let_def result_iffs split: if_splits)

lemma lru_init_inv: "lru_init t \<Longrightarrow> lru_inv t"
  using new_tags_Inr new_tags_alloc unfolding lru_init_def lru_inv_def by blast

lemma inv_same_shape: "lru_inv t \<Longrightarrow> same_shape t t' \<Longrightarrow> lru_inv t'"
  unfolding lru_inv_def using same_shape_ok same_shape_geom by (metis same_shape_def)

lemma reordered_alloc: "reordered s ps t t' \<Longrightarrow> allocAssoc t' = allocAssoc t"
  by (simp add: reordered_def same_shape_def)

lemma cleanup_shape: "same_shape t (cleanupRefs t)"
proof -
  have "same_shape t u \<Longrightarrow> same_shape t (fold (\<lambda>b t. if blk_isValid b
     then t\<lparr>totalRefs := totalRefs t + unat (refCount b), sampledRefs := sampledRefs t + 1\<rparr> else t) bs u)" for bs u
    by (induction bs arbitrary: u) simp_all
  then show ?thesis by (simp add: cleanupRefs_def)
qed

lemma lru_step_inv:
  assumes "lru_inv t" "lru_step mm t2c t t'"
  shows "lru_inv t'"
proof -
  obtain b n where ok: "tags_ok t" "geom t b n" "0 < allocAssoc t" using assms(1) by (auto simp: lru_inv_def)
  from assms(2) show ?thesis
  proof cases
    case (st_access now a sec r lat)
    with lru_access_cases [OF ok(1,2), of t2c now a sec] show ?thesis
      using inv_same_shape [OF assms(1)] reordered_alloc ok(3)
      by (auto simp: lru_inv_def split: option.splits)
  next
    case (st_insert now pkt p)
    then obtain a where "getAddr pkt = Inr a" by (auto simp: lru_insertBlock_def base_insertBlock_def result_iffs)
    with lru_insert_cases [OF ok(1,2) st_insert] show ?thesis
      using reordered_alloc ok(3) by (metis lru_inv_def)
  next
    case (st_invalidate p now)
    with lru_invalidate_cases [OF ok(1,2) st_invalidate] show ?thesis
      using reordered_alloc ok(3) by (metis lru_inv_def)
  next
    case (st_status p st)
    then show ?thesis using inv_same_shape [OF assms(1)] by (simp add: keeps_place_def)
  next
    case (st_limit w)
    then show ?thesis using ok
      by (auto simp: lru_inv_def setWayAllocationMax_def tags_ok_def geom_def split: if_splits)
  next
    case st_cleanup
    then show ?thesis using inv_same_shape [OF assms(1)] cleanup_shape by blast
  qed
qed

interpretation lru: machine lru_init "lru_step mm t2c" lru_inv for mm t2c
  by unfold_locales (blast intro: lru_init_inv lru_step_inv)+

subsection \<open>Addresses\<close>

lemma drop_align: "b \<le> k \<Longrightarrow> drop_bit k (a AND NOT (mask b)) = drop_bit k (a :: addr)"
  by (rule bit_word_eqI) (auto simp: bit_drop_bit_eq bit_and_iff bit_not_iff bit_mask_iff bit_imp_le_length dest: bit_imp_le_length)

lemma extract_align:
  assumes "geom t b n"
  shows "extractTag t (blkAlign t a) = extractTag t a" "extractSet t (blkAlign t a) = extractSet t a"
  using assms drop_align [of b "b + n" a] drop_align [of b b a]
  by (simp_all add: extractSet_eq [OF assms]) (simp_all add: extractTag_def blkAlign_def geom_def ucast_mask32)

lemma split_offset:
  assumes "geom t b n"
  shows "unat a = unat (blkAlign t a) + extractBlkOffset t a"
proof -
  have "of_nat (2 ^ b - 1) = (mask b :: addr)" by (simp add: mask_eq_exp_minus_1 of_nat_diff)
  then have "extractBlkOffset t a = unat (take_bit b a)"
    using assms by (simp add: extractBlkOffset_def geom_def take_bit_eq_mask)
  then have "extractBlkOffset t a = unat a mod 2 ^ b"
    unfolding unsigned_take_bit_eq by (simp add: take_bit_eq_mod)
  moreover have "unat (blkAlign t a) = unat a div 2 ^ b * 2 ^ b"
    using assms by (simp add: blkAlign_def geom_def ucast_mask32 unat_and_not_mask)
  ultimately show ?thesis by (metis div_mult_mod_eq)
qed

subsection \<open>The order of a set after a series of accesses\<close>

fun lru_accesses :: "(tick \<Rightarrow> 64 word) \<Rightarrow> (tick \<times> addr \<times> bool) list \<Rightarrow> tags \<Rightarrow> (nat list \<times> tags) result" where
  "lru_accesses t2c [] t = Inr ([], t)"
| "lru_accesses t2c ((now, a, sec) # as) t =
     ebind (lru_accessBlock t2c now a sec t) (\<lambda>(r, lat, t1).
     ebind (lru_accesses t2c as t1) (\<lambda>(ps, t2).
       Inr ((case r of None \<Rightarrow> ps | Some p \<Rightarrow> p # ps), t2)))"

lemma find_append: "find P (xs @ ys) = (case find P xs of None \<Rightarrow> find P ys | Some v \<Rightarrow> Some v)"
  by (induction xs) auto

lemma find_exists: "q \<in> set xs \<Longrightarrow> P q \<Longrightarrow> \<exists>v. find P xs = Some v \<and> v \<in> set xs \<and> P v"
  by (induction xs) auto

lemma same_shape_way: "same_shape t t' \<Longrightarrow> map way (blks t') = map way (blks t)"
  by (simp add: same_shape_def)

lemma filter_move: "distinct l \<Longrightarrow> p \<in> set l \<Longrightarrow>
  filter (\<lambda>x. x \<notin> A) (p # remove1 p l) = (if p \<in> A then [] else [p]) @ filter (\<lambda>x. x \<notin> insert p A) l"
  by (induction l) (auto simp: remove1_idem intro: filter_cong)

lemma accesses_order:
  assumes "lru_accesses t2c as t = Inr (ps, t')" "tags_ok t" "geom t b n"
  shows "tags_ok t' \<and> geom t' b n \<and> allocAssoc t' = allocAssoc t \<and> map way (blks t') = map way (blks t) \<and>
    (\<forall>s < numSets t. \<exists>front. set front \<subseteq> set ps \<and> sets t' ! s = front @ filter (\<lambda>p. p \<notin> set ps) (sets t ! s))"
  using assms
proof (induction t2c as t arbitrary: ps t' rule: lru_accesses.induct)
  case (2 t2c now a sec as t)
  then obtain lat t1 qs where t1: "lru_accessBlock t2c now a sec t = Inr (findBlock t a sec, lat, t1)"
    "tags_ok t1" "geom t1 b n" "lru_accesses t2c as t1 = Inr (qs, t')"
    "ps = (case findBlock t a sec of None \<Rightarrow> qs | Some p \<Rightarrow> p # qs)"
    and c: "case findBlock t a sec of None \<Rightarrow> same_shape t t1
      | Some p \<Rightarrow> reordered (extractSet t a) (p # remove1 p (sets t ! extractSet t a)) t t1"
    using lru_access_cases [OF 2(3,4), of t2c now a sec] by (auto simp: result_iffs)
  note IH = 2(1) [OF t1(4,2,3)]
  show ?case
  proof (cases "findBlock t a sec")
    case None
    then show ?thesis using IH c t1(5) by (auto simp: same_shape_def)
  next
    case (Some p)
    let ?s = "extractSet t a"
    note P = findBlock_Some [OF Some 2(3,4)]
    have r: "sets t1 = (sets t)[?s := p # remove1 p (sets t ! ?s)]" "numSets t1 = numSets t"
      "allocAssoc t1 = allocAssoc t" "map way (blks t1) = map way (blks t)"
      using c Some by (auto simp: reordered_def same_shape_def)
    have L: "?s < numSets t" "length (sets t) = numSets t" "distinct (sets t ! ?s)"
      using extractSet_less [OF 2(4)] 2(3) tags_ok_distinct by (auto simp: tags_ok_def)
    have "\<exists>front. set front \<subseteq> set ps \<and> sets t' ! s = front @ filter (\<lambda>p. p \<notin> set ps) (sets t ! s)"
      if s: "s < numSets t" for s
    proof -
      obtain f where f: "set f \<subseteq> set qs" "sets t' ! s = f @ filter (\<lambda>p. p \<notin> set qs) (sets t1 ! s)"
        using IH s r(2) by auto
      show ?thesis
      proof (cases "s = ?s")
        case True
        then show ?thesis using f filter_move [OF L(3) P(1), of "set qs"] r(1) L t1(5) Some
          by (intro exI [of _ "f @ (if p \<in> set qs then [] else [p])"]) auto
      next
        case False
        have "p \<notin> set (sets t ! s)" using tags_ok_set_member(2) [OF 2(3) s] P(3) False by blast
        then have "filter (\<lambda>x. x \<notin> set qs) (sets t ! s) = filter (\<lambda>x. x \<notin> set ps) (sets t ! s)"
          using t1(5) Some by (intro filter_cong) auto
        then show ?thesis using f r(1) False t1(5) Some by (intro exI [of _ f]) auto
      qed
    qed
    then show ?thesis using IH r by auto
  qed
qed auto

subsection \<open>Properties\<close>

lemma victim_exists:
  assumes "lru_inv t"
  shows "tags_ok t \<and> extractSet t a < numSets t \<and>
    (\<exists>v. lru_findVictim a t = Some v \<and> v \<in> set (sets t ! extractSet t a) \<and> way (blk_at t v) < int (allocAssoc t))"
proof -
  obtain b n where ok: "tags_ok t" "geom t b n" "0 < allocAssoc t"
    using assms by (auto simp: lru_inv_def)
  let ?s = "extractSet t a"
  note L = extractSet_less [OF ok(2), of a]
  have q: "?s * assoc t \<in> set (sets t ! ?s)" "?s * assoc t < numSets t * assoc t" using ok(1) L by (auto simp: tags_ok_def)
  then have "way (blk_at t (?s * assoc t)) = 0" using ok(1) by (simp add: tags_ok_def)
  then have "\<exists>v. lru_findVictim a t = Some v \<and> v \<in> set (sets t ! ?s) \<and> way (blk_at t v) < int (allocAssoc t)"
    using find_exists [of "?s * assoc t" "rev (sets t ! ?s)" "\<lambda>p. way (blk_at t p) < int (allocAssoc t)"] q ok(3)
    by (simp add: lru_findVictim_def)
  then show ?thesis using ok L by blast
qed

text \<open>C13. Tags of a cache of less than 4 GiB stay consistent through every sequence of lookups,
  insertions, invalidations, status changes and changes of the way limit: each set holds exactly
  its own blocks, each once, every address selects an existing set, a lookup never runs past a
  set, and there is always a victim in the set of an address, in a way that may be allocated.\<close>

theorem lru_consistent:
  assumes "reach lru_init (lru_step mm t2c) t"
  shows "tags_ok t \<and> extractSet t a < numSets t \<and>
    (\<exists>lat t'. lru_accessBlock t2c now a sec t = Inr (findBlock t a sec, lat, t')) \<and>
    (\<exists>v. lru_findVictim a t = Some v \<and> v \<in> set (sets t ! extractSet t a) \<and> way (blk_at t v) < int (allocAssoc t))"
proof -
  have inv: "lru_inv t" by (rule lru.reach_inv [OF assms])
  then obtain b n where "tags_ok t" "geom t b n" by (auto simp: lru_inv_def)
  from lru_access_cases [OF this, of t2c now a sec] show ?thesis using victim_exists [OF inv, of a] by blast
qed

definition demo_tags :: tags where
  "demo_tags = (case new_tags 1024 64 2 1 False of Inr t \<Rightarrow> t)"

lemma demo_tags_new: "new_tags 1024 64 2 1 False = Inr demo_tags"
proof -
  have "isPowerOf2 64" "isPowerOf2 8" unfolding isPowerOf2_iff
    by (rule exI [of _ 6], simp, rule exI [of _ 3], simp)
  moreover obtain s n where "floorLog2 64 = Inr s" "floorLog2 8 = Inr n"
    using floorLog2_spec [of 64] floorLog2_spec [of 8] by auto
  ultimately show ?thesis by (simp add: demo_tags_def new_tags_def)
qed

lemma new_tags_fields:
  assumes "new_tags cap blkSize asc lat sq = Inr t"
  shows "sets t = map (\<lambda>i. [i * asc ..< Suc i * asc]) [0..<cap div (blkSize * asc)]"
    "blks t = map (init_blk blkSize asc) [0..<cap div (blkSize * asc) * asc]" "allocAssoc t = asc"
    "assoc t = asc" "tagsInUse t = 0" "warmupBound t = cap div (blkSize * asc) * asc"
  using assms by (auto simp: new_tags_def Let_def result_iffs split: if_splits)

lemma demo_tags_fields:
  "sets demo_tags ! 0 = [0, 1]" "blks demo_tags = map (init_blk 64 2) [0..<16]" "allocAssoc demo_tags = 2"
proof -
  have "[0..<2] = [0, 1 :: nat]" by (simp add: upt_rec)
  then show "sets demo_tags ! 0 = [0, 1]" unfolding new_tags_fields(1) [OF demo_tags_new] by simp
qed (use new_tags_fields(2,3) [OF demo_tags_new] in simp_all)

lemma demo_addr0: "extractSet demo_tags 0 = 0" "extractTag demo_tags 0 = 0"
  by (simp_all add: extractSet_def extractTag_def)

lemma demo_tags_init: "lru_init demo_tags"
  unfolding lru_init_def
  by (rule exI [of _ 1024], rule exI [of _ 64], rule exI [of _ 2], rule exI [of _ 1], rule exI [of _ False])
    (simp add: demo_tags_new)

lemma demo_reach: "reach lru_init (lru_step mm t2c) demo_tags"
  using demo_tags_init by (rule reach_init [where init = lru_init])

theorem lru_consistent_witness: "\<exists>v. lru_findVictim 0x1040 demo_tags = Some v"
  using lru_consistent [OF demo_reach, where a = "0x1040"] by blast

text \<open>C28. Tag, set and offset decompose an address without loss: the block address is regenerated
  from tag and set, two addresses agree on both exactly if they lie in the same block, and an
  address is its block address plus its offset.\<close>

theorem address_decomposition:
  assumes "reach lru_init (lru_step mm t2c) t"
  shows "regenerateBlkAddr t (extractTag t a) (extractSet t a) = blkAlign t a \<and>
    (extractTag t a = extractTag t c \<and> extractSet t a = extractSet t c \<longleftrightarrow> blkAlign t a = blkAlign t c) \<and>
    unat a = unat (blkAlign t a) + extractBlkOffset t a"
proof -
  obtain b n where g: "geom t b n" using lru.reach_inv [OF assms] by (auto simp: lru_inv_def)
  show ?thesis
    using regenerate_addr [OF g] split_offset [OF g] extract_align [OF g] by metis
qed

theorem address_decomposition_witness: "regenerateBlkAddr demo_tags (extractTag demo_tags 0x1234) (extractSet demo_tags 0x1234) = blkAlign demo_tags 0x1234"
  using address_decomposition [OF demo_reach, of "0x1234"] by blast

text \<open>C12. Least recently used: after any series of accesses, as long as some allocatable block of the
  set was not touched by them, the victim is a block of the set that was not touched.\<close>

theorem lru_victim_not_recent:
  assumes "reach lru_init (lru_step mm t2c) t" "lru_accesses t2c as t = Inr (ps, t')"
    "q \<in> set (sets t ! extractSet t a)" "way (blk_at t q) < int (allocAssoc t)" "q \<notin> set ps"
  shows "\<exists>v. lru_findVictim a t' = Some v \<and> v \<in> set (sets t ! extractSet t a) \<and> v \<notin> set ps"
proof -
  obtain b n where ok: "tags_ok t" "geom t b n" using lru.reach_inv [OF assms(1)] by (auto simp: lru_inv_def)
  let ?s = "extractSet t a"
  note A = accesses_order [OF assms(2) ok] and L = extractSet_less [OF ok(2), of a]
  then obtain f where f: "sets t' ! ?s = f @ filter (\<lambda>p. p \<notin> set ps) (sets t ! ?s)" by blast
  have s: "extractSet t' a = ?s" using A ok(2) extractSet_eq by metis
  have "q < length (blks t)" using tags_ok_set_member(1) [OF ok(1) L assms(3)] .
  then have "way (blk_at t' q) = way (blk_at t q)" using A by (metis length_map nth_map)
  then have "way (blk_at t' q) < int (allocAssoc t')" using assms(4) A by simp
  then have "\<exists>v. find (\<lambda>p. way (blk_at t' p) < int (allocAssoc t')) (rev (filter (\<lambda>p. p \<notin> set ps) (sets t ! ?s))) = Some v \<and>
      v \<in> set (rev (filter (\<lambda>p. p \<notin> set ps) (sets t ! ?s)))"
    using find_exists [of q "rev (filter (\<lambda>p. p \<notin> set ps) (sets t ! ?s))"] assms(3,5) by fastforce
  then show ?thesis unfolding lru_findVictim_def s f by (auto simp: find_append)
qed

definition warm_tags :: tags where
  "warm_tags = upd_blk 0 (\<lambda>b. b\<lparr>status := BlkValid\<rparr>) demo_tags"

lemma warm_tags_reach: "reach lru_init (lru_step mm t2c) warm_tags"
  unfolding warm_tags_def by (rule reach_step [OF demo_reach]) (rule st_status)

lemma warm_hit: "findBlock warm_tags 0 False = Some 0"
  using demo_tags_fields demo_addr0
  by (simp add: findBlock_def warm_tags_def upd_blk_def extractSet_def extractTag_def blk_isValid_def
      blk_isSecure_def blk_status_bits init_blk_def nth_list_update)

theorem lru_victim_not_recent_witness:
  "\<exists>t'. lru_accesses (\<lambda>c. c) [(0, 0, False)] warm_tags = Inr ([0], t') \<and> lru_findVictim 0 t' = Some 1"
proof -
  have s: "sets warm_tags ! extractSet warm_tags 0 = [0, 1]" "way (blk_at warm_tags 1) < int (allocAssoc warm_tags)"
    using demo_tags_fields by (simp_all add: warm_tags_def upd_blk_def extractSet_def init_blk_def)
  obtain lat t' where t': "lru_accesses (\<lambda>c. c) [(0, 0, False)] warm_tags = Inr ([0], t')"
    using lru.reach_inv [OF warm_tags_reach] lru_access_cases [of warm_tags _ _ "\<lambda>c. c" 0 0 False] warm_hit
    by (fastforce simp: lru_inv_def)
  from lru_victim_not_recent [OF warm_tags_reach this, of 1 0] s show ?thesis using t' by auto
qed

lemma blk_at_upd: "p < length (blks t) \<Longrightarrow> blk_at (upd_blk p f t) p = f (blk_at t p)"
  by (simp add: upd_blk_def)

text \<open>C24. A block that is inserted for the address of a packet and then marked valid is found under
  every address of the block, in the security space it was marked for, and under no address of
  any other block.\<close>

theorem insert_then_lookup:
  assumes "reach lru_init (lru_step mm t2c) t" "getAddr pkt = Inr a" "lru_insertBlock mm now pkt p t = Inr t1"
    "st AND BlkValid \<noteq> 0"
  shows "let t2 = upd_blk p (\<lambda>b. b\<lparr>status := st\<rparr>) t1 in
    (\<forall>c. blkAlign t c = blkAlign t a \<longrightarrow> findBlock t2 c (st AND BlkSecure \<noteq> 0) = Some p) \<and>
    (\<forall>c sec. blkAlign t c \<noteq> blkAlign t a \<longrightarrow> findBlock t2 c sec \<noteq> Some p)"
proof -
  obtain b n where ok: "tags_ok t" "geom t b n" using lru.reach_inv [OF assms(1)] by (auto simp: lru_inv_def)
  note I = lru_insert_cases [OF ok assms(3,2)] and L = extractSet_less [OF ok(2)]
  define t2 where "t2 = upd_blk p (\<lambda>b. b\<lparr>status := st\<rparr>) t1"
  let ?s = "extractSet t a"
  have r2: "same_shape t1 t2" by (simp add: t2_def keeps_place_def)
  have r: "sets t1 = (sets t)[?s := p # remove1 p (sets t ! ?s)]" "length (blks t1) = length (blks t)"
    "setShift t1 = setShift t" "setMask t1 = setMask t" "tagShift t1 = tagShift t"
    using I by (auto simp: reordered_def same_shape_def dest: map_eq_imp_length_eq)
  have x: "extractSet t2 c = extractSet t c" "extractTag t2 c = extractTag t c" for c
    unfolding same_shape_extract [OF r2] using r(3-5) by (simp_all add: extractSet_def extractTag_def)
  have blk: "blk_tag (blk_at t2 p) = extractTag t a" "blk_isValid (blk_at t2 p)" "blk_isSecure (blk_at t2 p) = (st AND BlkSecure \<noteq> 0)"
    using I r(2) assms(4) by (simp_all add: t2_def blk_at_upd blk_isValid_def blk_isSecure_def)
  have s2: "sets t2 ! ?s = p # remove1 p (sets t ! ?s)"
    using r(1) r2 L [of a] ok(1) by (simp add: same_shape_def tags_ok_def)
  have same: "extractTag t c = extractTag t a \<and> extractSet t c = ?s \<longleftrightarrow> blkAlign t c = blkAlign t a" for c
    using regenerate_addr [OF ok(2)] extract_align [OF ok(2)] by metis
  have hit: "findBlock t2 c (st AND BlkSecure \<noteq> 0) = Some p" if "blkAlign t c = blkAlign t a" for c
    using that same [of c] blk s2 by (simp add: findBlock_def x)
  have "blkAlign t c = blkAlign t a" if f: "findBlock t2 c sec = Some p" for c sec
  proof -
    have ok2: "tags_ok t2" "geom t2 b n" using I same_shape_ok [OF r2] same_shape_geom [OF r2] by auto
    have "nat (blk_set (blk_at t2 p)) = ?s"
      using tags_ok_set_member(2) [OF ok2(1), of ?s p] s2 extractSet_less [OF ok2(2), of a] by (simp add: x)
    then show ?thesis using findBlock_Some [OF f ok2] findBlk_Some f blk(1) same [of c] by (simp add: findBlock_def x)
  qed
  then show ?thesis using hit by (auto simp: t2_def [symmetric] Let_def)
qed

lemma next_allowed_ends:
  assumes "idx < length ps" "way (bs ! (ps ! 0)) < int alloc"
  shows "\<exists>k < length ps. next_allowed bs alloc ps idx = Some (Inr (Some (ps ! k))) \<and> way (bs ! (ps ! k)) < int alloc"
  using assms(1)
proof (induction "length ps - idx" arbitrary: idx rule: less_induct)
  case less
  show ?case
  proof (cases "way (bs ! (ps ! idx)) < int alloc")
    case True
    then show ?thesis using less(2) by (subst next_allowed.simps) auto
  next
    case False
    then have step: "next_allowed bs alloc ps idx = next_allowed bs alloc ps ((idx + 1) mod length ps)"
      by (subst next_allowed.simps) simp
    show ?thesis
    proof (cases "idx + 1 < length ps")
      case True
      then show ?thesis unfolding step using less(1) [of "idx + 1"] by simp
    next
      case last: False
      then have "(idx + 1) mod length ps = 0" using less(2) by (metis Suc_eq_plus1 less_SucE mod_self not_less_eq)
      then have "next_allowed bs alloc ps ((idx + 1) mod length ps) = Some (Inr (Some (ps ! 0)))"
        using assms(2) by (subst next_allowed.simps) simp
      then show ?thesis unfolding step using assms(2) less(2) by (intro exI [of _ 0]) auto
    qed
  qed
qed

lemma scan_victim_spec:
  "0 < k \<Longrightarrow> k \<le> length ps \<Longrightarrow> \<exists>v. scan_victim bs blk k ps = Inr (Some v) \<and> v \<in> set (take k ps) \<and>
    (\<not> blk_isValid (bs ! v) \<or> (\<forall>q \<in> set (take k ps). blk_isValid (bs ! q)))"
proof (induction bs blk k ps rule: scan_victim.induct)
  case (3 bs blk k p ps)
  then show ?case by (cases k) auto
qed auto

text \<open>C27. Random replacement: whatever number is drawn, the search for a victim ends with a block of
  the set in a way that may be allocated, and with an invalid one if the set has one in those
  ways.\<close>

theorem random_victim:
  assumes "tags_ok t" "geom t b n" "0 < allocAssoc t" "allocAssoc t \<le> assoc t" "rnd < assoc t"
    "sets t ! extractSet t a = [extractSet t a * assoc t ..< Suc (extractSet t a) * assoc t]"
  shows "\<exists>v. rnd_findVictim rnd a t = Inr (Some v) \<and> v \<in> set (sets t ! extractSet t a) \<and>
    way (blk_at t v) < int (allocAssoc t) \<and>
    (\<not> blk_isValid (blk_at t v) \<or> (\<forall>q \<in> set (sets t ! extractSet t a).
       way (blk_at t q) < int (allocAssoc t) \<longrightarrow> blk_isValid (blk_at t q)))"
proof -
  let ?s = "extractSet t a" and ?ps = "sets t ! extractSet t a"
  have len: "length ?ps = assoc t" unfolding assms(6) by simp
  have lt: "?s * assoc t + i < numSets t * assoc t" if "i < assoc t" for i
    using extractSet_less [OF assms(2), of a] that
    by (metis add.commute add_mult_distrib2 less_le_trans mult.commute mult_Suc mult_le_mono1 nat_add_left_cancel_less Suc_leI)
  have nth: "?ps ! i = ?s * assoc t + i" "way (blk_at t (?ps ! i)) = int i" if "i < assoc t" for i
    using that lt [OF that] assms(1) unfolding assms(6) by (auto simp: tags_ok_def)
  have allowed: "set (take (allocAssoc t) ?ps) = {q \<in> set ?ps. way (blk_at t q) < int (allocAssoc t)}"
  proof -
    have "set (take (allocAssoc t) ?ps) = nth ?ps ` {0..<allocAssoc t}" "set ?ps = nth ?ps ` {0..<assoc t}"
      using nth_image [of "allocAssoc t" ?ps] nth_image [of "assoc t" ?ps] assms(4) len by simp_all
    then show ?thesis using nth(2) assms(4) by fastforce
  qed
  obtain v where v: "base_findVictim a t = Inr (Some v)" "v \<in> set (take (allocAssoc t) ?ps)"
    "\<not> blk_isValid (blk_at t v) \<or> (\<forall>q \<in> set (take (allocAssoc t) ?ps). blk_isValid (blk_at t q))"
    using scan_victim_spec [of "allocAssoc t" ?ps "blks t" None] assms(3,4) len by (auto simp: base_findVictim_def)
  obtain k where "k < length ?ps"
    "next_allowed (blks t) (allocAssoc t) ?ps rnd = Some (Inr (Some (?ps ! k)))" "way (blk_at t (?ps ! k)) < int (allocAssoc t)"
    using next_allowed_ends [of rnd ?ps "blks t" "allocAssoc t"] nth(2) [of 0] assms(3,5) len by fastforce
  then show ?thesis using v unfolding allowed by (auto simp: rnd_findVictim_def)
qed

lemma demo_tags_geom: "\<exists>b n. geom demo_tags b n"
  using lru_init_inv [OF demo_tags_init] by (simp add: lru_inv_def)

theorem random_victim_witness: "\<exists>v. rnd_findVictim 1 0 demo_tags = Inr (Some v)"
proof -
  have t: "tags_ok demo_tags" "0 < allocAssoc demo_tags" "allocAssoc demo_tags \<le> assoc demo_tags" "1 < assoc demo_tags"
    "sets demo_tags ! extractSet demo_tags 0 =
       [extractSet demo_tags 0 * assoc demo_tags ..< Suc (extractSet demo_tags 0) * assoc demo_tags]"
    using lru_init_inv [OF demo_tags_init] new_tags_fields(3,4) [OF demo_tags_new] demo_tags_fields(1)
    by (simp_all add: lru_inv_def demo_addr0 upt_rec)
  obtain b n where "geom demo_tags b n" using demo_tags_geom by blast
  from random_victim [OF t(1) this t(2-5)] show ?thesis by blast
qed

definition demo_pkt :: packet where
  "demo_pkt = new_packet (new_request 0 8 0 0 0) ReadReq"

lemma demo_pkt_fields: "getAddr demo_pkt = Inr 0" "rq_masterId (pk_req demo_pkt) = 0"
  by (simp_all add: demo_pkt_def getAddr_def new_packet_def new_request_def setPhys_def empty_request_def Let_def
      hasPaddr_def hasSize_def flags_isSet_def flags_set_def flags_clear_def req_valid_consts PKT_VALID_ADDR_def PKT_VALID_SIZE_def)

theorem insert_then_lookup_witness:
  "\<exists>t1. lru_insertBlock 4 0 demo_pkt 0 demo_tags = Inr t1 \<and>
    findBlock (upd_blk 0 (\<lambda>b. b\<lparr>status := BlkValid\<rparr>) t1) 0 False = Some 0"
proof -
  have "sets demo_tags \<noteq> []" "\<not> blk_isValid (init_blk 64 2 0)"
    using new_tags_fields(1) [OF demo_tags_new] by (simp_all add: init_blk_def blk_isValid_def blk_invalidate_def)
  then obtain t1 where t1: "lru_insertBlock 4 0 demo_pkt 0 demo_tags = Inr t1"
    using demo_tags_fields(1,2) demo_pkt_fields new_tags_fields(5,6) [OF demo_tags_new]
    by (auto simp: lru_insertBlock_def base_insertBlock_def upd_set_def upd_blk_def Let_def extractSet_def moveToHead_def
        blk_isValid_def init_blk_def blk_invalidate_def)
  have "BlkValid AND BlkValid \<noteq> 0" "BlkValid AND BlkSecure = 0" by (simp_all add: blk_status_bits)
  then show ?thesis
    using insert_then_lookup [OF demo_reach demo_pkt_fields(1) t1, of BlkValid] t1 by (auto simp: Let_def)
qed

end
