(* ===== verification/StackDist.thy ===== *)
theory StackDist
  imports Intmath
begin

text \<open>
  The stack distance calculator, \<^verbatim>\<open>mem/stack_dist_calc.{hh,cc}\<close>: a tree of partial sums over the
  accesses, updated from the leaf to the root, and the naive stack that the class keeps to check
  itself.

  The layers of the tree are maps from indices to nodes. Every node is entered into its layer when
  it is created and is deleted together with its entry, so a pointer to a node is the pair of layer
  and index, and a pointer to a deleted node is one without an entry. Counters are natural numbers:
  the sums never exceed the number of accesses, and before that number could leave 64 bits the
  source shifts an \<^verbatim>\<open>int\<close> out of its range, which the model reports as an error.
\<close>

subsection \<open>State\<close>

type_synonym node_ptr = "nat \<times> nat"

record sd_node =
  sumLeft :: nat
  sumRight :: nat
  discardLeft :: bool
  discardRight :: bool
  nodeIndex :: nat
  nd_parent :: "node_ptr option"
  isLeftNode :: bool
  isMarked :: bool

definition new_node :: sd_node where
  "new_node = \<lparr>sumLeft = 0, sumRight = 0, discardLeft = False, discardRight = False, nodeIndex = 0,
               nd_parent = None, isLeftNode = True, isMarked = False\<rparr>"

record stack_dist_calc =
  sd_index :: nat
  sd_tree :: "(nat \<rightharpoonup> sd_node) list"
  sd_aiMap :: "64 word \<rightharpoonup> nat"
  sd_nextIndex :: "nat list"
  sd_stack :: "64 word list"
  sd_verify :: bool

definition Infinity :: nat where
  "Infinity = 2 ^ 64 - 1"

definition new_calc :: "bool \<Rightarrow> stack_dist_calc" where
  "new_calc verify_stack =
     \<lparr>sd_index = 0, sd_tree = [Map.empty, [0 \<mapsto> new_node]], sd_aiMap = Map.empty, sd_nextIndex = [0, 1],
      sd_stack = [], sd_verify = verify_stack\<rparr>"

definition getTreeDepth :: "stack_dist_calc \<Rightarrow> nat" where
  "getTreeDepth st = length (sd_tree st) - 1"

definition get_node :: "node_ptr \<Rightarrow> stack_dist_calc \<Rightarrow> sd_node result" where
  "get_node p st = ebind (nthE (sd_tree st) (fst p)) (\<lambda>layer. deref layer (snd p))"

definition put_node :: "node_ptr \<Rightarrow> sd_node \<Rightarrow> stack_dist_calc \<Rightarrow> stack_dist_calc result" where
  "put_node p nd st =
     ebind (updE (fst p) (\<lambda>layer. layer(snd p \<mapsto> nd)) (sd_tree st)) (\<lambda>t. Inr (st\<lparr>sd_tree := t\<rparr>))"

definition erase_node :: "node_ptr \<Rightarrow> stack_dist_calc \<Rightarrow> stack_dist_calc result" where
  "erase_node p st =
     ebind (updE (fst p) (\<lambda>layer. layer(snd p := None)) (sd_tree st)) (\<lambda>t. Inr (st\<lparr>sd_tree := t\<rparr>))"

text \<open>Reading a key that a layer does not have yields the null pointer.\<close>

definition node_at :: "node_ptr \<Rightarrow> stack_dist_calc \<Rightarrow> node_ptr option result" where
  "node_at p st =
     ebind (nthE (sd_tree st) (fst p)) (\<lambda>layer. Inr (case layer (snd p) of None \<Rightarrow> None | Some _ \<Rightarrow> Some p))"

text \<open>The shift \<^verbatim>\<open>1 << k\<close> of a 32-bit signed integer.\<close>

definition int_shl :: "nat \<Rightarrow> nat result" where
  "int_shl k = (if k < 31 then Inr (2 ^ k) else Inl OutOfRange)"

subsection \<open>Sums from a leaf to the root\<close>

definition check_sums :: "nat \<Rightarrow> sd_node \<Rightarrow> stack_dist_calc \<Rightarrow> unit result" where
  "check_sums level nd st =
     (if sd_verify st
      then ebind (int_shl (level - 1)) (\<lambda>m.
             if m < sumLeft nd then Inl (Panic ''Error in sum left'')
             else if m < sumRight nd then Inl (Panic ''Error in sum right'') else Inr ())
      else Inr ())"

text \<open>The recursion follows the parent pointers; its first argument bounds the number of nodes it may
  visit, for which the number of layers suffices.\<close>

fun updateSum ::
  "nat \<Rightarrow> node_ptr \<Rightarrow> bool \<Rightarrow> nat \<Rightarrow> nat \<Rightarrow> nat \<Rightarrow> bool \<Rightarrow> stack_dist_calc \<Rightarrow> (nat \<times> stack_dist_calc) result" where
  "updateSum 0 p from_left sum_from_below level stack_dist discard_node st = Inl Diverge"
| "updateSum (Suc k) p from_left sum_from_below level stack_dist discard_node st =
     ebind (get_node p st) (\<lambda>nd.
     ebind (check_sums (level + 1) nd st) (\<lambda>_.
       let discard = discard_node \<and> sum_from_below = 0;
           nd1 = nd\<lparr>sumLeft := (if from_left then sum_from_below else sumLeft nd),
                    sumRight := (if from_left then sumRight nd else sum_from_below),
                    discardLeft := discardLeft nd \<or> discard \<and> from_left,
                    discardRight := discardRight nd \<or> discard \<and> \<not> from_left\<rparr>;
           dist = (if from_left then stack_dist + sumRight nd else stack_dist);
           gone = (discardLeft nd1 \<and> discardRight nd1 \<and> discard \<and> nd_parent nd \<noteq> None) in
       ebind (if gone then ebind (erase_node p st) (erase_node (level + 1, nodeIndex nd)) else put_node p nd1 st) (\<lambda>st1.
         case nd_parent nd of None \<Rightarrow> Inr (dist, st1)
         | Some q \<Rightarrow> updateSum k q (isLeftNode nd) (sumLeft nd1 + sumRight nd1) (level + 1) dist gone st1)))"

definition updateSumsLeavesToRoot :: "node_ptr \<Rightarrow> bool \<Rightarrow> stack_dist_calc \<Rightarrow> (nat \<times> stack_dist_calc) result" where
  "updateSumsLeavesToRoot p is_new_leaf st =
     ebind (get_node p st) (\<lambda>nd.
     ebind (put_node p (nd\<lparr>sumLeft := (if is_new_leaf then 1 else 0)\<rparr>) st) (\<lambda>st1.
       case nd_parent nd of None \<Rightarrow> Inl NullDeref
       | Some q \<Rightarrow>
           ebind (updateSum (length (sd_tree st)) q (isLeftNode nd) (if is_new_leaf then 1 else 0) 0 0 (\<not> is_new_leaf) st1)
             (\<lambda>(dist, st2). Inr (if is_new_leaf then Infinity else dist, st2))))"

text \<open>The recursion without updates; the arguments that it only passes on are left out.\<close>

fun getSum :: "nat \<Rightarrow> node_ptr \<Rightarrow> bool \<Rightarrow> nat \<Rightarrow> stack_dist_calc \<Rightarrow> nat result" where
  "getSum 0 p from_left stack_dist st = Inl Diverge"
| "getSum (Suc k) p from_left stack_dist st =
     ebind (get_node p st) (\<lambda>nd.
       let dist = (if from_left then stack_dist + sumRight nd else stack_dist) in
       case nd_parent nd of None \<Rightarrow> Inr dist | Some q \<Rightarrow> getSum k q (isLeftNode nd) dist st)"

definition getSumsLeavesToRoot :: "node_ptr \<Rightarrow> stack_dist_calc \<Rightarrow> nat result" where
  "getSumsLeavesToRoot p st =
     ebind (get_node p st) (\<lambda>nd.
       case nd_parent nd of None \<Rightarrow> Inl NullDeref
       | Some q \<Rightarrow> getSum (length (sd_tree st)) q (isLeftNode nd) 0 st)"

subsection \<open>Growth of the tree\<close>

definition add_inode :: "nat \<Rightarrow> stack_dist_calc \<Rightarrow> stack_dist_calc result" where
  "add_inode i st =
     ebind (nthE (sd_nextIndex st) i) (\<lambda>j.
     ebind (nthE (sd_nextIndex st) (i + 1)) (\<lambda>m.
     ebind (node_at (i + 1, m - 1) st) (\<lambda>par.
       put_node (i, j) (new_node\<lparr>isLeftNode := even j, nd_parent := par, nodeIndex := j\<rparr>)
         (st\<lparr>sd_nextIndex := (sd_nextIndex st)[i := j + 1]\<rparr>))))"

definition new_root :: "stack_dist_calc \<Rightarrow> stack_dist_calc result" where
  "new_root st =
     (let d = getTreeDepth st in
      ebind (get_node (d, 0) st) (\<lambda>old.
        put_node (d, 0) (old\<lparr>nd_parent := Some (d + 1, 0)\<rparr>)
          (st\<lparr>sd_tree := sd_tree st @ [[0 \<mapsto> new_node\<lparr>sumLeft := sumRight old + sumLeft old,
                                                 discardLeft := discardLeft old \<and> discardRight old\<rparr>]],
              sd_nextIndex := sd_nextIndex st @ [1]\<rparr>)))"

definition add_if_due :: "nat \<Rightarrow> stack_dist_calc \<Rightarrow> stack_dist_calc result" where
  "add_if_due i st = ebind (int_shl i) (\<lambda>m. if sd_index st mod m = 0 then add_inode i st else Inr st)"

definition updateTree :: "stack_dist_calc \<Rightarrow> stack_dist_calc result" where
  "updateTree st =
     (if isPowerOf2 (of_nat (sd_index st))
      then ebind (new_root st) (\<lambda>st1. foldE add_inode (rev [1..<getTreeDepth st1]) st1)
      else foldE add_if_due (rev [1..<getTreeDepth st]) st)"

subsection \<open>Self check\<close>

fun from_top :: "64 word \<Rightarrow> 64 word list \<Rightarrow> nat \<Rightarrow> nat option" where
  "from_top a [] d = None"
| "from_top a (b # bs) d = (if b = a then Some d else from_top a bs (d + 1))"

text \<open>The last element of the list is the top of the stack.\<close>

definition verifyStackDist :: "64 word \<Rightarrow> bool \<Rightarrow> 64 word list \<Rightarrow> nat \<times> 64 word list" where
  "verifyStackDist a update_stack stack =
     (case from_top a (rev stack) 0 of
        Some d \<Rightarrow> (d, if update_stack
                      then take (length stack - 1 - d) stack @ drop (length stack - d) stack @ [a] else stack)
      | None \<Rightarrow> (Infinity, if update_stack then stack @ [a] else stack))"

definition sanity_up :: "stack_dist_calc \<Rightarrow> nat \<Rightarrow> node_ptr option \<Rightarrow> node_ptr option result" where
  "sanity_up st i next_up =
     (case next_up of None \<Rightarrow> Inl NullDeref
      | Some q \<Rightarrow> ebind (get_node q st) (\<lambda>nd.
          if nd_parent nd = None then Inl (Panic ''Sanity check failed'') else Inr (nd_parent nd)))"

definition sanityCheckTree :: "node_ptr \<Rightarrow> stack_dist_calc \<Rightarrow> unit result" where
  "sanityCheckTree p st =
     ebind (get_node p st) (\<lambda>nd.
     ebind (foldE (sanity_up st) [1..<getTreeDepth st] (nd_parent nd)) (\<lambda>next_up.
       case next_up of None \<Rightarrow> Inl NullDeref
       | Some q \<Rightarrow> ebind (get_node q st) (\<lambda>top_nd.
           if nd_parent top_nd \<noteq> None then Inl (Panic ''Sanity check failed'') else Inr ())))"

definition verify_access :: "64 word \<Rightarrow> nat \<Rightarrow> stack_dist_calc \<Rightarrow> stack_dist_calc result" where
  "verify_access a dist st =
     (if sd_verify st
      then ebind (sanityCheckTree (0, sd_index st) st) (\<lambda>_.
             let (v, stack) = verifyStackDist a True (sd_stack st) in
             if v \<noteq> dist then Inl (Panic ''Expected stack-distance'') else Inr (st\<lparr>sd_stack := stack\<rparr>))
      else Inr st)"

subsection \<open>Accesses\<close>

text \<open>The leaf of the last access is removed with its sums.\<close>

definition remove_leaf :: "nat \<Rightarrow> stack_dist_calc \<Rightarrow> ((nat \<times> bool) \<times> stack_dist_calc) result" where
  "remove_leaf r st =
     ebind (updateSumsLeavesToRoot (0, r) False st) (\<lambda>(dist, st1).
     ebind (get_node (0, r) st1) (\<lambda>leaf.
     ebind (erase_node (0, r) st1) (\<lambda>st2. Inr ((dist, isMarked leaf), st2))))"

definition add_leaf :: "64 word \<Rightarrow> nat \<Rightarrow> stack_dist_calc \<Rightarrow> stack_dist_calc result" where
  "add_leaf a dist st =
     ebind (if even (sd_index st) then updateTree st else Inr st) (\<lambda>st1.
     ebind (updE 0 Suc (sd_nextIndex st1)) (\<lambda>next.
     ebind (nthE next 1) (\<lambda>m.
     ebind (node_at (1, m - 1) st1) (\<lambda>par.
     ebind (put_node (0, sd_index st1)
              (new_node\<lparr>nodeIndex := sd_index st1, isLeftNode := even (sd_index st1), nd_parent := par\<rparr>)
              (st1\<lparr>sd_nextIndex := next\<rparr>)) (\<lambda>st2.
     ebind (updateSumsLeavesToRoot (0, sd_index st2) True st2) (\<lambda>(_, st3).
     ebind (verify_access a dist st3) (\<lambda>st4. Inr (st4\<lparr>sd_index := sd_index st4 + 1\<rparr>))))))))"

definition calcStackDistAndUpdate ::
  "64 word \<Rightarrow> bool \<Rightarrow> stack_dist_calc \<Rightarrow> ((nat \<times> bool) \<times> stack_dist_calc) result" where
  "calcStackDistAndUpdate a addNewNode st =
     (let ai = (if addNewNode then (sd_aiMap st)(a \<mapsto> sd_index st) else (sd_aiMap st)(a := None)) in
      ebind (case sd_aiMap st a of
               Some r \<Rightarrow> remove_leaf r (st\<lparr>sd_aiMap := ai\<rparr>)
             | None \<Rightarrow> Inr ((Infinity, False), st\<lparr>sd_aiMap := ai\<rparr>)) (\<lambda>(res, st1).
        if addNewNode then ebind (add_leaf a (fst res) st1) (\<lambda>st2. Inr (res, st2)) else Inr (res, st1)))"

definition calcStackDist :: "64 word \<Rightarrow> bool \<Rightarrow> stack_dist_calc \<Rightarrow> ((nat \<times> bool) \<times> stack_dist_calc) result" where
  "calcStackDist a mark st =
     ebind (case sd_aiMap st a of
              Some r \<Rightarrow> ebind (get_node (0, r) st) (\<lambda>leaf.
                        ebind (put_node (0, r) (leaf\<lparr>isMarked := mark\<rparr>) st) (\<lambda>st1.
                        ebind (getSumsLeavesToRoot (0, r) st1) (\<lambda>dist. Inr ((dist, isMarked leaf), st1))))
            | None \<Rightarrow> Inr ((Infinity, False), st)) (\<lambda>(res, st1).
       if sd_verify st1 \<and> fst (verifyStackDist a False (sd_stack st1)) \<noteq> fst res
       then Inl (Panic ''Expected stack-distance'') else Inr (res, st1))"

end
