(* ===== verification/StackDist_Inv.thy ===== *)
theory StackDist_Inv
  imports StackDist
begin

text \<open>
  The invariant of the stack distance tree: a node of layer \<open>i\<close> and index \<open>j\<close> stands for the accesses
  from \<open>j * 2 ^ i\<close> on, \<open>2 ^ i\<close> of them; its sums count the accesses of its halves that are the last ones
  to their address, and a half is discarded only when all its accesses lie in the past and none of
  them is the last one to its address.
\<close>

subsection \<open>Spans and counts\<close>

definition span :: "nat \<Rightarrow> nat \<Rightarrow> nat set" where
  "span i j = {x. x div 2 ^ i = j}"

definition cnt :: "nat set \<Rightarrow> nat \<Rightarrow> nat \<Rightarrow> nat" where
  "cnt L i j = card (L \<inter> span i j)"

definition past :: "nat \<Rightarrow> nat set \<Rightarrow> nat \<Rightarrow> nat \<Rightarrow> bool" where
  "past n L i j \<longleftrightarrow> span i j \<subseteq> {..<n} \<and> L \<inter> span i j = {}"

definition right_of :: "nat set \<Rightarrow> nat \<Rightarrow> nat \<Rightarrow> nat" where
  "right_of L i l = card {x \<in> L. l div 2 ^ i < x div 2 ^ i}"

lemma in_span [simp]: "x \<in> span i j \<longleftrightarrow> x div 2 ^ i = j"
  by (simp add: span_def)

lemma div_pow_Suc: "(x :: nat) div 2 ^ Suc i = x div 2 ^ i div 2"
  by (simp add: div_mult2_eq [symmetric] mult.commute)

lemma span_Suc: "span (Suc i) j = span i (2 * j) \<union> span i (2 * j + 1)"
  unfolding span_def div_pow_Suc by auto

lemma div_eq_iff:
  assumes "0 < (m :: nat)"
  shows "x div m = j \<longleftrightarrow> j * m \<le> x \<and> x < (j + 1) * m"
proof
  assume "x div m = j"
  then show "j * m \<le> x \<and> x < (j + 1) * m"
    using div_times_less_eq_dividend [of x m] dividend_less_div_times [OF assms, of x] by simp
next
  assume "j * m \<le> x \<and> x < (j + 1) * m"
  then show "x div m = j" by (intro div_nat_eqI) (simp_all add: mult.commute)
qed

lemma span_atLeast: "span i j = {j * 2 ^ i..<(j + 1) * 2 ^ i}"
  using div_eq_iff [of "2 ^ i"] by (simp add: span_def atLeastLessThan_def atLeast_def lessThan_def Collect_conj_eq)

lemma cnt_Suc: "finite L \<Longrightarrow> cnt L (Suc i) j = cnt L i (2 * j) + cnt L i (2 * j + 1)"
  unfolding cnt_def span_Suc by (subst card_Un_disjoint [symmetric]) (auto intro!: arg_cong [of _ _ card])

lemma past_Suc: "past n L (Suc i) j \<longleftrightarrow> past n L i (2 * j) \<and> past n L i (2 * j + 1)"
  by (auto simp: past_def span_Suc)

lemma cnt_le: "cnt L i j \<le> 2 ^ i"
proof -
  have "card (L \<inter> span i j) \<le> card (span i j)" by (rule card_mono) (auto simp: span_atLeast)
  then show ?thesis by (simp add: cnt_def span_atLeast)
qed

lemma half_less:
  "even (b :: nat) \<Longrightarrow> b < y \<longleftrightarrow> b div 2 < y div 2 \<or> y = b + 1"
  "odd b \<Longrightarrow> b < y \<longleftrightarrow> b div 2 < y div 2"
  "even b \<Longrightarrow> (b + 1) div 2 = b div 2"
  by presburger+

lemma right_of_Suc:
  assumes "finite L"
  shows "right_of L i l = right_of L (Suc i) l + (if even (l div 2 ^ i) then cnt L i (l div 2 ^ i + 1) else 0)"
proof -
  let ?b = "\<lambda>x. x div 2 ^ i"
  show ?thesis
  proof (cases "even (?b l)")
    case True
    have "{x \<in> L. ?b l < ?b x} = {x \<in> L. ?b l div 2 < ?b x div 2} \<union> (L \<inter> span i (?b l + 1))"
      unfolding half_less(1) [OF True] span_def by blast
    moreover have "{x \<in> L. ?b l div 2 < ?b x div 2} \<inter> (L \<inter> span i (?b l + 1)) = {}" using half_less(3) [OF True] unfolding span_def by fastforce
    ultimately show ?thesis using True assms by (simp add: right_of_def cnt_def div_pow_Suc card_Un_disjoint del: power_Suc)
  next
    case False
    have "{x \<in> L. ?b l < ?b x} = {x \<in> L. ?b l div 2 < ?b x div 2}" using half_less(2) [OF False] by blast
    then show ?thesis using False by (simp add: right_of_def div_pow_Suc del: power_Suc)
  qed
qed

subsection \<open>Nodes and layers\<close>

definition node_ok :: "nat \<Rightarrow> nat \<Rightarrow> nat set \<Rightarrow> nat \<Rightarrow> nat \<Rightarrow> sd_node \<Rightarrow> bool" where
  "node_ok D n L i j nd \<longleftrightarrow>
     nodeIndex nd = j \<and> nd_parent nd = (if i < D then Some (Suc i, j div 2) else None) \<and> isLeftNode nd = even j \<and>
     (0 < i \<longrightarrow> sumLeft nd = cnt L (i - 1) (2 * j) \<and> sumRight nd = cnt L (i - 1) (2 * j + 1) \<and>
       (discardLeft nd \<longrightarrow> past n L (i - 1) (2 * j)) \<and> (discardRight nd \<longrightarrow> past n L (i - 1) (2 * j + 1)))"

definition layer_ok :: "nat \<Rightarrow> nat list \<Rightarrow> nat \<Rightarrow> nat set \<Rightarrow> nat \<Rightarrow> (nat \<rightharpoonup> sd_node) \<Rightarrow> bool" where
  "layer_ok D N n L i layer \<longleftrightarrow>
     (\<forall>j nd. layer j = Some nd \<longrightarrow> node_ok D n L i j nd) \<and>
     (\<forall>j < N ! i. \<not> past n L i j \<longrightarrow> layer j \<noteq> None) \<and> (i = D \<longrightarrow> dom layer = {0})"

text \<open>While the sums are updated from a leaf upwards, the layers below \<open>k\<close> are up to date.\<close>

definition part_ok ::
  "nat \<Rightarrow> nat list \<Rightarrow> nat \<times> nat set \<Rightarrow> nat \<times> nat set \<Rightarrow> nat \<Rightarrow> (nat \<rightharpoonup> sd_node) list \<Rightarrow> bool" where
  "part_ok D N new old k T \<longleftrightarrow>
     length T = Suc D \<and>
     (\<forall>i \<le> D. layer_ok D N (fst (if i < k then new else old)) (snd (if i < k then new else old)) i (T ! i))"

text \<open>What a change at the access \<open>l\<close> means for the counts.\<close>

definition changes_at :: "nat \<Rightarrow> nat \<Rightarrow> nat list \<Rightarrow> nat \<times> nat set \<Rightarrow> nat \<times> nat set \<Rightarrow> bool" where
  "changes_at D l N new old \<longleftrightarrow>
     finite (snd new) \<and> finite (snd old) \<and> l < 2 ^ D \<and> snd old \<subseteq> {..<2 ^ D} \<and>
     snd new - {l} = snd old - {l} \<and> fst old \<le> fst new \<and>
     (\<forall>i j. past (fst old) (snd old) i j \<longrightarrow> past (fst new) (snd new) i j) \<and>
     (\<forall>i \<le> D. l div 2 ^ i < N ! i \<and> \<not> past (fst old) (snd old) i (l div 2 ^ i))"

lemma changes_cnt:
  assumes "changes_at D l N new old" "l div 2 ^ i \<noteq> j"
  shows "cnt (snd new) i j = cnt (snd old) i j"
proof -
  have "snd new \<inter> span i j = snd old \<inter> span i j" using assms by (auto simp: changes_at_def)
  then show ?thesis by (simp add: cnt_def)
qed

lemma node_ok_other:
  assumes "changes_at D l N new old" "node_ok D (fst old) (snd old) i j nd" "l div 2 ^ i \<noteq> j"
  shows "node_ok D (fst new) (snd new) i j nd"
proof (cases i)
  case (Suc m)
  have "l div 2 ^ m \<noteq> 2 * j" "l div 2 ^ m \<noteq> 2 * j + 1" using assms(3) unfolding Suc div_pow_Suc by auto
  then have "cnt (snd new) m (2 * j) = cnt (snd old) m (2 * j)" "cnt (snd new) m (2 * j + 1) = cnt (snd old) m (2 * j + 1)"
    using changes_cnt [OF assms(1)] by blast+
  then show ?thesis using assms(1,2) Suc by (simp add: node_ok_def changes_at_def)
qed (use assms in \<open>simp add: node_ok_def\<close>)

lemma layer_ok_put:
  assumes "changes_at D l N new old" "layer_ok D N (fst old) (snd old) i layer"
    and "node_ok D (fst new) (snd new) i (l div 2 ^ i) nd"
  shows "layer_ok D N (fst new) (snd new) i (layer(l div 2 ^ i \<mapsto> nd))"
  using assms node_ok_other [OF assms(1)] by (auto simp: layer_ok_def changes_at_def)

lemma layer_ok_erase:
  assumes "changes_at D l N new old" "layer_ok D N (fst old) (snd old) i layer"
    and "past (fst new) (snd new) i (l div 2 ^ i)" "i \<noteq> D"
  shows "layer_ok D N (fst new) (snd new) i (layer(l div 2 ^ i := None))"
  using assms node_ok_other [OF assms(1)] by (auto simp: layer_ok_def changes_at_def)

lemma part_ok_step:
  assumes "part_ok D N new old i T" "layer_ok D N (fst new) (snd new) i layer"
  shows "part_ok D N new old (Suc i) (T[i := layer])"
  unfolding part_ok_def
proof (intro conjI allI impI)
  fix m assume m: "m \<le> D"
  have "m \<noteq> i \<Longrightarrow> m < Suc i \<longleftrightarrow> m < i" by auto
  then show "layer_ok D N (fst (if m < Suc i then new else old)) (snd (if m < Suc i then new else old)) m (T[i := layer] ! m)"
    using assms m by (cases "m = i") (simp_all add: part_ok_def)
qed (use assms in \<open>simp add: part_ok_def\<close>)

lemma part_ok_layer: "part_ok D N new old k T \<Longrightarrow> k \<le> i \<Longrightarrow> i \<le> D \<Longrightarrow> layer_ok D N (fst old) (snd old) i (T ! i)"
  by (auto simp: part_ok_def)

lemma path_node:
  assumes "changes_at D l N new old" "part_ok D N new old k T" "k \<le> i" "i \<le> D"
  shows "\<exists>nd. (T ! i) (l div 2 ^ i) = Some nd \<and> node_ok D (fst old) (snd old) i (l div 2 ^ i) nd"
proof -
  have l: "layer_ok D N (fst old) (snd old) i (T ! i)" by (rule part_ok_layer [OF assms(2-4)])
  moreover have "l div 2 ^ i < N ! i" "\<not> past (fst old) (snd old) i (l div 2 ^ i)" using assms(1,4) by (auto simp: changes_at_def)
  ultimately have "(T ! i) (l div 2 ^ i) \<noteq> None" unfolding layer_ok_def by blast
  then show ?thesis using l unfolding layer_ok_def by blast
qed

subsection \<open>Updating the sums\<close>

definition stepped :: "bool \<Rightarrow> nat \<Rightarrow> bool \<Rightarrow> sd_node \<Rightarrow> sd_node" where
  "stepped from_left below discard nd =
     nd\<lparr>sumLeft := (if from_left then below else sumLeft nd), sumRight := (if from_left then sumRight nd else below),
        discardLeft := discardLeft nd \<or> discard \<and> from_left, discardRight := discardRight nd \<or> discard \<and> \<not> from_left\<rparr>"

lemma stepped_ok:
  assumes ch: "changes_at D l N new old" and nd: "node_ok D (fst old) (snd old) (Suc i) (l div 2 ^ Suc i) nd"
    and disc: "discard \<longrightarrow> past (fst new) (snd new) i (l div 2 ^ i)"
  defines "nd1 \<equiv> stepped (even (l div 2 ^ i)) (cnt (snd new) i (l div 2 ^ i)) discard nd"
  shows "node_ok D (fst new) (snd new) (Suc i) (l div 2 ^ Suc i) nd1"
    and "sumLeft nd1 + sumRight nd1 = cnt (snd new) (Suc i) (l div 2 ^ Suc i)"
    and "discardLeft nd1 \<Longrightarrow> discardRight nd1 \<Longrightarrow> past (fst new) (snd new) (Suc i) (l div 2 ^ Suc i)"
proof -
  let ?b = "l div 2 ^ i"
  have j: "l div 2 ^ Suc i = ?b div 2" by (rule div_pow_Suc)
  have m: "past (fst old) (snd old) i j \<Longrightarrow> past (fst new) (snd new) i j" for j using ch by (simp add: changes_at_def)
  show 1: "node_ok D (fst new) (snd new) (Suc i) (l div 2 ^ Suc i) nd1"
  proof (cases "even ?b")
    case True
    then obtain c where c: "?b = 2 * c" by blast
    have "cnt (snd new) i (2 * c + 1) = cnt (snd old) i (2 * c + 1)" using changes_cnt [OF ch] c by simp
    then show ?thesis using nd m disc unfolding j nd1_def by (auto simp: c node_ok_def stepped_def)
  next
    case False
    then obtain c where c: "?b = 2 * c + 1" using oddE by blast
    have "cnt (snd new) i (2 * c) = cnt (snd old) i (2 * c)" using changes_cnt [OF ch] c by simp
    then show ?thesis using nd m disc unfolding j nd1_def by (auto simp: c node_ok_def stepped_def)
  qed
  then show "sumLeft nd1 + sumRight nd1 = cnt (snd new) (Suc i) (l div 2 ^ Suc i)"
    "discardLeft nd1 \<Longrightarrow> discardRight nd1 \<Longrightarrow> past (fst new) (snd new) (Suc i) (l div 2 ^ Suc i)"
    using ch by (simp_all add: node_ok_def cnt_Suc past_Suc changes_at_def)
qed

lemma updateSum_step:
  assumes "get_node p st = Inr nd" "check_sums (level + 1) nd st = Inr ()"
    and "nd1 = stepped from_left below (discard \<and> below = 0) nd"
    and "gone = (discardLeft nd1 \<and> discardRight nd1 \<and> (discard \<and> below = 0) \<and> nd_parent nd \<noteq> None)"
    and "(if gone then ebind (erase_node p st) (erase_node (level + 1, nodeIndex nd)) else put_node p nd1 st) = Inr st1"
  shows "updateSum (Suc k) p from_left below level dist discard st =
    (let dist1 = (if from_left then dist + sumRight nd else dist) in
     case nd_parent nd of None \<Rightarrow> Inr (dist1, st1)
     | Some q \<Rightarrow> updateSum k q (isLeftNode nd) (sumLeft nd1 + sumRight nd1) (level + 1) dist1 gone st1)"
  by (simp only: updateSum.simps assms(1,2) ebind_simps Let_def stepped_def [symmetric] assms(3) [symmetric]
      assms(4) [symmetric] assms(5))

lemma node_access:
  "i < length (sd_tree st) \<Longrightarrow> (sd_tree st ! i) j = Some nd \<Longrightarrow> get_node (i, j) st = Inr nd"
  "i < length (sd_tree st) \<Longrightarrow> put_node (i, j) nd st = Inr (st\<lparr>sd_tree := (sd_tree st)[i := (sd_tree st ! i)(j \<mapsto> nd)]\<rparr>)"
  "i < length (sd_tree st) \<Longrightarrow> erase_node (i, j) st = Inr (st\<lparr>sd_tree := (sd_tree st)[i := (sd_tree st ! i)(j := None)]\<rparr>)"
  "i < length (sd_tree st) \<Longrightarrow> node_at (i, j) st = Inr (if (sd_tree st ! i) j = None then None else Some (i, j))"
  by (auto simp: get_node_def put_node_def erase_node_def node_at_def split: option.splits)

lemma check_sums_ok:
  assumes "node_ok D n L (Suc i) j nd" "sd_verify st \<longrightarrow> D \<le> 31" "Suc i \<le> D"
  shows "check_sums (Suc i) nd st = Inr ()"
  using assms cnt_le [of L i "2 * j"] cnt_le [of L i "2 * j + 1"] by (auto simp: check_sums_def int_shl_def node_ok_def)

lemma right_of_top: "L \<subseteq> {..<2 ^ D} \<Longrightarrow> right_of L D l = 0"
proof -
  assume "L \<subseteq> {..<2 ^ D}"
  then have "x div 2 ^ D = 0" if "x \<in> L" for x using that by auto
  then have "{x \<in> L. l div 2 ^ D < x div 2 ^ D} = {}" by auto
  then show ?thesis unfolding right_of_def by (simp only: card.empty)
qed

lemma updateSum_ok:
  assumes ch: "changes_at D l N new old" and v: "sd_verify st \<longrightarrow> D \<le> 31"
    and "part_ok D N new old (Suc i) (sd_tree st)" "Suc i \<le> D" "D < k + Suc i"
    and "discard \<Longrightarrow> past (fst new) (snd new) i (l div 2 ^ i)"
  shows "\<exists>T. updateSum k (Suc i, l div 2 ^ Suc i) (even (l div 2 ^ i)) (cnt (snd new) i (l div 2 ^ i)) i dist discard st =
      Inr (dist + right_of (snd old) i l, st\<lparr>sd_tree := T\<rparr>) \<and>
    part_ok D N new old (Suc D) T \<and> (\<forall>m \<le> i. T ! m = sd_tree st ! m)"
  using assms(2-)
proof (induction k arbitrary: i dist discard st)
  case (Suc k)
  let ?T = "sd_tree st" let ?j = "l div 2 ^ Suc i" let ?b = "l div 2 ^ i" let ?below = "cnt (snd new) i ?b"
  note part = Suc.prems(2) and iD = Suc.prems(3)
  have len: "length ?T = Suc D" using part by (simp add: part_ok_def)
  obtain nd where nd: "(?T ! Suc i) ?j = Some nd" "node_ok D (fst old) (snd old) (Suc i) ?j nd"
    using path_node [OF ch part order.refl iD] by blast
  define nd1 where "nd1 = stepped (even ?b) ?below (discard \<and> ?below = 0) nd"
  define gone where "gone \<longleftrightarrow> discardLeft nd1 \<and> discardRight nd1 \<and> (discard \<and> ?below = 0) \<and> nd_parent nd \<noteq> None"
  define T1 where "T1 = ?T[Suc i := (if gone then (?T ! Suc i)(?j := None) else (?T ! Suc i)(?j \<mapsto> nd1))]"
  have disc: "discard \<and> ?below = 0 \<longrightarrow> past (fst new) (snd new) i ?b" using Suc.prems(5) by blast
  note st = stepped_ok [OF ch nd(2) disc, folded nd1_def]
  have fin: "finite (snd old)" using ch by (simp add: changes_at_def)
  have d: "dist + right_of (snd old) i l = (if even ?b then dist + sumRight nd else dist) + right_of (snd old) (Suc i) l"
    using nd(2) by (auto simp: right_of_Suc [OF fin, of i] node_ok_def div_pow_Suc simp del: power_Suc)
  have "layer_ok D N (fst new) (snd new) (Suc i) (T1 ! Suc i)"
    using layer_ok_put [OF ch part_ok_layer [OF part order.refl iD] st(1)]
      layer_ok_erase [OF ch part_ok_layer [OF part order.refl iD] st(3)] iD len nd(2)
    by (cases gone) (simp_all add: T1_def gone_def node_ok_def del: power_Suc split: if_splits)
  from part_ok_step [OF part this] have p1: "part_ok D N new old (Suc (Suc i)) T1" using len iD by (simp add: T1_def)
  have "nodeIndex nd = ?j" using nd(2) by (simp add: node_ok_def)
  then have upd: "(if gone then ebind (erase_node (Suc i, ?j) st) (erase_node (i + 1, nodeIndex nd)) else put_node (Suc i, ?j) nd1 st) =
      Inr (st\<lparr>sd_tree := T1\<rparr>)"
    using iD len by (simp add: node_access T1_def del: power_Suc)
  have "get_node (Suc i, ?j) st = Inr nd" "check_sums (i + 1) nd st = Inr ()"
    using check_sums_ok [OF nd(2) Suc.prems(1) iD] iD len nd(1) by (auto simp: node_access simp del: power_Suc)
  note eq = updateSum_step [OF this nd1_def gone_def upd, unfolded Let_def]
  show ?case
  proof (cases "Suc i = D")
    case True
    then have "nd_parent nd = None" using nd(2) by (simp add: node_ok_def)
    moreover have "right_of (snd old) D l = 0" using ch by (intro right_of_top) (simp add: changes_at_def)
    ultimately show ?thesis using eq d p1 True by (auto simp: T1_def simp del: power_Suc)
  next
    case False
    then have par: "nd_parent nd = Some (Suc (Suc i), l div 2 ^ Suc (Suc i))" "isLeftNode nd = even ?j"
      using nd(2) iD by (auto simp: node_ok_def div_pow_Suc simp del: power_Suc)
    have g: "gone \<Longrightarrow> past (fst new) (snd new) (Suc i) ?j" using st(3) by (simp add: gone_def)
    have "\<exists>T. updateSum k (Suc (Suc i), l div 2 ^ Suc (Suc i)) (even ?j) (cnt (snd new) (Suc i) ?j) (Suc i)
          (if even ?b then dist + sumRight nd else dist) gone (st\<lparr>sd_tree := T1\<rparr>) =
        Inr ((if even ?b then dist + sumRight nd else dist) + right_of (snd old) (Suc i) l, (st\<lparr>sd_tree := T1\<rparr>)\<lparr>sd_tree := T\<rparr>) \<and>
      part_ok D N new old (Suc D) T \<and> (\<forall>m \<le> Suc i. T ! m = sd_tree (st\<lparr>sd_tree := T1\<rparr>) ! m)"
      using Suc.prems(1,4) p1 False iD g by (intro Suc.IH) auto
    then show ?thesis unfolding eq d par st(2) by (auto simp: T1_def simp del: power_Suc updateSum.simps)
  qed
qed simp

subsection \<open>From a leaf to the root\<close>

definition tree_ok :: "nat \<Rightarrow> nat list \<Rightarrow> nat \<Rightarrow> nat set \<Rightarrow> (nat \<rightharpoonup> sd_node) list \<Rightarrow> bool" where
  "tree_ok D N n L T \<longleftrightarrow> length T = Suc D \<and> (\<forall>i \<le> D. layer_ok D N n L i (T ! i))"

lemma part_ok_tree:
  "part_ok D N new old 0 T \<longleftrightarrow> tree_ok D N (fst old) (snd old) T"
  "part_ok D N new old (Suc D) T \<longleftrightarrow> tree_ok D N (fst new) (snd new) T"
  by (auto simp: part_ok_def tree_ok_def)

lemma getSum_ok:
  assumes ch: "changes_at D l N new old" and part: "part_ok D N new old 0 (sd_tree st)"
    and "Suc i \<le> D" "D < k + Suc i"
  shows "getSum k (Suc i, l div 2 ^ Suc i) (even (l div 2 ^ i)) dist st = Inr (dist + right_of (snd old) i l)"
  using assms(3-)
proof (induction k arbitrary: i dist)
  case (Suc k)
  let ?j = "l div 2 ^ Suc i"
  obtain nd where nd: "(sd_tree st ! Suc i) ?j = Some nd" "node_ok D (fst old) (snd old) (Suc i) ?j nd"
    using path_node [OF ch part le0 Suc.prems(1)] by blast
  have fin: "finite (snd old)" using ch by (simp add: changes_at_def)
  have d: "dist + right_of (snd old) i l = (if even (l div 2 ^ i) then dist + sumRight nd else dist) + right_of (snd old) (Suc i) l"
    using nd(2) by (auto simp: right_of_Suc [OF fin, of i] node_ok_def div_pow_Suc simp del: power_Suc)
  have "length (sd_tree st) = Suc D" using part by (simp add: part_ok_def)
  then have g: "get_node (Suc i, ?j) st = Inr nd" using Suc.prems(1) nd(1) by (intro node_access(1)) auto
  show ?case
  proof (cases "Suc i = D")
    case True
    then have "nd_parent nd = None" using nd(2) by (simp add: node_ok_def)
    moreover have "right_of (snd old) D l = 0" using ch by (intro right_of_top) (simp add: changes_at_def)
    ultimately show ?thesis using d g True by (simp del: power_Suc)
  next
    case False
    then have "nd_parent nd = Some (Suc (Suc i), l div 2 ^ Suc (Suc i))" "isLeftNode nd = even ?j"
      using nd(2) Suc.prems(1) by (auto simp: node_ok_def div_pow_Suc simp del: power_Suc)
    moreover have "Suc (Suc i) \<le> D" "D < k + Suc (Suc i)" using False Suc.prems by auto
    ultimately show ?thesis using Suc.IH d g by (simp add: Let_def del: power_Suc)
  qed
qed simp

lemma sanity_path:
  assumes ch: "changes_at D l N new old" and part: "part_ok D N new old 0 (sd_tree st)" and "m < D"
  shows "foldE (sanity_up st) [1..<Suc m] (Some (1, l div 2 ^ 1)) = Inr (Some (Suc m, l div 2 ^ Suc m))"
  using assms(3)
proof (induction m)
  case (Suc m)
  obtain nd where nd: "(sd_tree st ! Suc m) (l div 2 ^ Suc m) = Some nd" "node_ok D (fst old) (snd old) (Suc m) (l div 2 ^ Suc m) nd"
    using path_node [OF ch part le0, of "Suc m"] Suc.prems by auto
  have "length (sd_tree st) = Suc D" using part by (simp add: part_ok_def)
  then have "get_node (Suc m, l div 2 ^ Suc m) st = Inr nd" using Suc.prems nd(1) by (intro node_access(1)) auto
  moreover have "nd_parent nd = Some (Suc (Suc m), l div 2 ^ Suc (Suc m))"
    using nd(2) Suc.prems by (auto simp: node_ok_def div_pow_Suc simp del: power_Suc)
  ultimately have up: "sanity_up st (Suc m) (Some (Suc m, l div 2 ^ Suc m)) = Inr (Some (Suc (Suc m), l div 2 ^ Suc (Suc m)))"
    by (simp add: sanity_up_def del: power_Suc)
  have "[1..<Suc (Suc m)] = [1..<Suc m] @ [Suc m]" by simp
  then show ?case using Suc up by (simp only: foldE_append) simp
qed simp

lemma leaf_update:
  assumes ch: "changes_at D l N new old" and tr: "tree_ok D N (fst old) (snd old) (sd_tree st)"
    and "0 < D" "sd_verify st \<longrightarrow> D \<le> 31" "cnt (snd new) 0 l = (if b then 1 else 0)"
    and "\<not> b \<Longrightarrow> past (fst new) (snd new) 0 l"
  shows "\<exists>T nd. updateSumsLeavesToRoot (0, l) b st =
      Inr (if b then Infinity else right_of (snd old) 0 l, st\<lparr>sd_tree := T\<rparr>) \<and> tree_ok D N (fst new) (snd new) T \<and>
    (sd_tree st ! 0) l = Some nd \<and> T ! 0 = (sd_tree st ! 0)(l \<mapsto> nd\<lparr>sumLeft := (if b then 1 else 0)\<rparr>)"
proof -
  let ?T = "sd_tree st"
  have part: "part_ok D N new old 0 ?T" using tr by (simp add: part_ok_tree)
  have len: "length ?T = Suc D" using tr by (simp add: tree_ok_def)
  obtain nd where nd: "(?T ! 0) l = Some nd" "node_ok D (fst old) (snd old) 0 l nd"
    using path_node [OF ch part, of 0] by auto
  define T1 where "T1 = ?T[0 := (?T ! 0)(l \<mapsto> nd\<lparr>sumLeft := (if b then 1 else 0)\<rparr>)]"
  have "node_ok D (fst new) (snd new) 0 (l div 2 ^ 0) (nd\<lparr>sumLeft := (if b then 1 else 0)\<rparr>)"
    using nd(2) by (simp add: node_ok_def)
  from part_ok_step [OF part layer_ok_put [OF ch part_ok_layer [OF part] this]]
  have p1: "part_ok D N new old (Suc 0) (sd_tree (st\<lparr>sd_tree := T1\<rparr>))" by (simp add: T1_def)
  have "Suc 0 \<le> D" "D < length ?T + Suc 0" using assms(3) len by auto
  from updateSum_ok [OF ch _ p1 this, of "\<not> b" 0] assms(4,6) obtain T
    where T: "updateSum (length ?T) (Suc 0, l div 2 ^ Suc 0) (even (l div 2 ^ 0)) (cnt (snd new) 0 (l div 2 ^ 0)) 0 0 (\<not> b)
        (st\<lparr>sd_tree := T1\<rparr>) = Inr (0 + right_of (snd old) 0 l, st\<lparr>sd_tree := T\<rparr>)"
      "part_ok D N new old (Suc D) T" "T ! 0 = T1 ! 0" by auto
  have "nd_parent nd = Some (Suc 0, l div 2 ^ Suc 0)" "isLeftNode nd = even l" using nd(2) assms(3) by (auto simp: node_ok_def)
  then have "updateSumsLeavesToRoot (0, l) b st = Inr (if b then Infinity else right_of (snd old) 0 l, st\<lparr>sd_tree := T\<rparr>)"
    using T(1) nd(1) len assms(5) by (simp add: updateSumsLeavesToRoot_def node_access T1_def)
  moreover have "T1 ! 0 = (?T ! 0)(l \<mapsto> nd\<lparr>sumLeft := (if b then 1 else 0)\<rparr>)" using len by (simp add: T1_def)
  ultimately show ?thesis using T(2,3) nd(1) by (auto simp: part_ok_tree)
qed

end
