(* ===== verification/StackDist_Grow.thy ===== *)
theory StackDist_Grow
  imports StackDist_Inv
begin

text \<open>
  Growth of the stack distance tree: before the access number \<open>n\<close> is entered, every layer has the
  node that stands for it, and the counters of the layers tell how many nodes were created.
\<close>

subsection \<open>Counters of the layers\<close>

definition nexts :: "nat \<Rightarrow> nat \<Rightarrow> nat" where
  "nexts n i = (if n \<noteq> 0 \<and> 2 ^ i dvd n then n div 2 ^ i else n div 2 ^ i + 1)"

text \<open>The layers from \<open>k\<close> on are ready for the access \<open>n\<close>.\<close>

definition due :: "nat \<Rightarrow> nat \<Rightarrow> nat \<Rightarrow> nat list \<Rightarrow> bool" where
  "due k D n N \<longleftrightarrow>
     length N = Suc D \<and> N ! 0 = n \<and> (\<forall>i. 1 \<le> i \<and> i \<le> D \<longrightarrow> N ! i = (if i < k then nexts n i else n div 2 ^ i + 1))"

definition depth_ok :: "nat \<Rightarrow> nat \<Rightarrow> bool" where
  "depth_ok D n \<longleftrightarrow> 0 < D \<and> n \<le> 2 ^ D \<and> (D = 1 \<or> 2 ^ (D - 1) < n)"

lemma next_block: "(if (m::nat) dvd Suc n then Suc n div m else Suc n div m + 1) = n div m + 1"
  using div_Suc [of n m] by (simp add: dvd_eq_mod_eq_0)

lemma nexts_Suc: "nexts (Suc n) i = n div 2 ^ i + 1"
  unfolding nexts_def using next_block [of "2 ^ i" n] by (simp only: nat.distinct simp_thms if_True)

lemma depth_bound: "depth_ok D n \<Longrightarrow> n \<le> 2 ^ 31 \<Longrightarrow> D \<le> 31"
proof -
  assume d: "depth_ok D n" "n \<le> 2 ^ 31"
  then have "D = 1 \<or> (2::nat) ^ (D - 1) < 2 ^ 31" by (auto simp: depth_ok_def)
  then have "D = 1 \<or> D - 1 < 31" using power_less_imp_less_exp [of "2::nat" "D - 1" 31] by auto
  then show ?thesis by auto
qed

lemma not_past_now: "\<not> past n L i (n div 2 ^ i)"
  by (auto simp: past_def)

lemma nothing_ahead: "L \<subseteq> {..<n} \<Longrightarrow> 2 ^ i dvd n \<Longrightarrow> n div 2 ^ i \<le> j \<Longrightarrow> cnt L i j = 0"
proof -
  assume L: "L \<subseteq> {..<n}" "2 ^ i dvd n" "n div 2 ^ i \<le> j"
  have "x div 2 ^ i < n div 2 ^ i" if "x \<in> L" for x
    using that L(1) dvd_div_mult_self [OF L(2)] by (intro less_mult_imp_div_less) auto
  then have "L \<inter> span i j = {}" using L(3) by fastforce
  then show ?thesis by (simp add: cnt_def)
qed

subsection \<open>A new intermediate node\<close>

lemma layer_ok_next:
  "N' ! i = N ! i \<Longrightarrow> layer_ok D N' n L i layer \<longleftrightarrow> layer_ok D N n L i layer"
  by (simp add: layer_ok_def)

lemma add_inode_ok:
  assumes due: "due (Suc i) D n (sd_nextIndex st)" and tr: "tree_ok D (sd_nextIndex st) n L (sd_tree st)"
    and i: "1 \<le> i" "i < D" "2 ^ i dvd n" "n \<noteq> 0" and L: "L \<subseteq> {..<n}" and n: "n < 2 ^ D"
  shows "\<exists>N T. add_inode i st = Inr (st\<lparr>sd_nextIndex := N, sd_tree := T\<rparr>) \<and> due i D n N \<and> tree_ok D N n L T \<and>
    T ! 0 = sd_tree st ! 0"
proof -
  let ?N = "sd_nextIndex st" let ?T = "sd_tree st" let ?j = "n div 2 ^ i"
  let ?nd = "new_node\<lparr>isLeftNode := even ?j, nd_parent := Some (Suc i, ?j div 2), nodeIndex := ?j\<rparr>"
  let ?N1 = "?N[i := ?j + 1]" let ?T1 = "?T[i := (?T ! i)(?j \<mapsto> ?nd)]"
  have len: "length ?N = Suc D" "length ?T = Suc D" using due tr by (simp_all add: due_def tree_ok_def)
  have Ni: "?N ! i = ?j" "?N ! Suc i = ?j div 2 + 1"
    using due i by (auto simp: due_def nexts_def div_pow_Suc simp del: power_Suc)
  have up: "layer_ok D ?N n L (Suc i) (?T ! Suc i)" using tr i by (simp add: tree_ok_def)
  have "\<not> past n L (Suc i) (?j div 2)" using not_past_now [of n L "Suc i"] unfolding div_pow_Suc .
  then have "(?T ! Suc i) (?j div 2) \<noteq> None" using up Ni(2) unfolding layer_ok_def by auto
  then have "add_inode i st = Inr (st\<lparr>sd_nextIndex := ?N1, sd_tree := ?T1\<rparr>)"
    using len i Ni by (auto simp: add_inode_def node_access)
  moreover have "due i D n ?N1" using due i len by (auto simp: due_def nth_list_update less_Suc_eq)
  moreover have "node_ok D n L i ?j ?nd"
  proof -
    have "(2::nat) ^ (i - 1) dvd n" using i(3) by (rule dvd_trans [OF le_imp_power_dvd, rotated]) simp
    moreover have "n div 2 ^ (i - 1) = 2 * ?j" using i(1,3) by (cases i) (auto simp: div_mult2_eq elim!: dvdE)
    ultimately have "cnt L (i - 1) (2 * ?j) = 0" "cnt L (i - 1) (2 * ?j + 1) = 0" using nothing_ahead [OF L] by simp_all
    then show ?thesis using i by (simp add: node_ok_def new_node_def)
  qed
  moreover have "layer_ok D ?N n L i (?T ! i)" using tr i by (simp add: tree_ok_def)
  ultimately have "layer_ok D ?N1 n L i (?T1 ! i)" using len i Ni by (auto simp: layer_ok_def less_Suc_eq)
  moreover have "layer_ok D ?N1 n L m (?T1 ! m)" if "m \<le> D" "m \<noteq> i" for m
    using tr that layer_ok_next [of ?N1 m ?N] by (simp add: tree_ok_def)
  ultimately have "layer_ok D ?N1 n L m (?T1 ! m)" if "m \<le> D" for m using that by (cases "m = i") blast+
  then have "tree_ok D ?N1 n L ?T1" using len by (simp add: tree_ok_def)
  moreover have "?T1 ! 0 = ?T ! 0" using i by simp
  ultimately show ?thesis using \<open>due i D n ?N1\<close> \<open>add_inode i st = _\<close> by blast
qed

text \<open>One round of the loop over the layers.\<close>

definition add_round :: "nat \<Rightarrow> nat \<Rightarrow> stack_dist_calc \<Rightarrow> stack_dist_calc result" where
  "add_round n i st = (if 2 ^ i dvd n then add_inode i st else Inr st)"

lemma rounds_ok:
  assumes "due k D n (sd_nextIndex st)" "tree_ok D (sd_nextIndex st) n L (sd_tree st)"
    and "1 \<le> k" "k \<le> D" "n \<noteq> 0" "L \<subseteq> {..<n}" "n < 2 ^ D"
  shows "\<exists>N T. foldE (add_round n) (rev [1..<k]) st = Inr (st\<lparr>sd_nextIndex := N, sd_tree := T\<rparr>) \<and> due 1 D n N \<and>
    tree_ok D N n L T \<and> T ! 0 = sd_tree st ! 0"
  using assms(3,1,2,4-)
proof (induction k arbitrary: st rule: dec_induct)
  case base
  then show ?case by (intro exI [of _ "sd_nextIndex st"] exI [of _ "sd_tree st"]) simp
next
  case (step k)
  have r: "rev [1..<Suc k] = k # rev [1..<k]" using step.hyps by simp
  obtain N1 T1 where 1: "add_round n k st = Inr (st\<lparr>sd_nextIndex := N1, sd_tree := T1\<rparr>)" "due k D n N1" "tree_ok D N1 n L T1"
    "T1 ! 0 = sd_tree st ! 0"
  proof (cases "2 ^ k dvd n")
    case True
    then show ?thesis using add_inode_ok [OF step.prems(1,2)] step.hyps step.prems(3-) that by (auto simp: add_round_def)
  next
    case False
    then have "due k D n (sd_nextIndex st)" using step.prems(1) by (auto simp: due_def nexts_def less_Suc_eq)
    then show ?thesis using False step.prems(2) that [of "sd_tree st" "sd_nextIndex st"] by (simp add: add_round_def)
  qed
  from step.IH [of "st\<lparr>sd_nextIndex := N1, sd_tree := T1\<rparr>"] 1 step.prems(3-) obtain N T
    where "foldE (add_round n) (rev [1..<k]) (st\<lparr>sd_nextIndex := N1, sd_tree := T1\<rparr>) = Inr (st\<lparr>sd_nextIndex := N, sd_tree := T\<rparr>)"
      "due 1 D n N" "tree_ok D N n L T" "T ! 0 = T1 ! 0" by auto
  then show ?case using 1 unfolding r by auto
qed

subsection \<open>A new root\<close>

lemma new_root_ok:
  assumes tr: "tree_ok D (sd_nextIndex st) n L (sd_tree st)" and len: "length (sd_nextIndex st) = Suc D"
    and "0 < D" "L \<subseteq> {..<n}" "n = 2 ^ D"
  shows "\<exists>T. new_root st = Inr (st\<lparr>sd_nextIndex := sd_nextIndex st @ [1], sd_tree := T\<rparr>) \<and>
    tree_ok (Suc D) (sd_nextIndex st @ [1]) n L T \<and> T ! 0 = sd_tree st ! 0"
proof -
  let ?N = "sd_nextIndex st" let ?T = "sd_tree st"
  have lt: "length ?T = Suc D" using tr by (simp add: tree_ok_def)
  have top: "layer_ok D ?N n L D (?T ! D)" using tr by (simp add: tree_ok_def)
  then obtain old where dom: "dom (?T ! D) = {0}" and old: "(?T ! D) 0 = Some old" "node_ok D n L D 0 old"
    unfolding layer_ok_def by blast
  define root where "root = new_node\<lparr>sumLeft := sumRight old + sumLeft old, discardLeft := discardLeft old \<and> discardRight old\<rparr>"
  define T1 where "T1 = (?T @ [[0 \<mapsto> root]])[D := (?T ! D)(0 \<mapsto> old\<lparr>nd_parent := Some (Suc D, 0)\<rparr>)]"
  have eq: "new_root st = Inr (st\<lparr>sd_nextIndex := ?N @ [1], sd_tree := T1\<rparr>)"
    using lt old(1) by (simp add: new_root_def getTreeDepth_def node_access nth_append T1_def root_def)
  have layers: "T1 ! Suc D = [0 \<mapsto> root]" "T1 ! D = (?T ! D)(0 \<mapsto> old\<lparr>nd_parent := Some (Suc D, 0)\<rparr>)"
    "m < D \<Longrightarrow> T1 ! m = ?T ! m" for m using lt by (auto simp: T1_def nth_append)
  have fin: "finite L" using assms(4) finite_subset by blast
  have "layer_ok (Suc D) (?N @ [1]) n L m (T1 ! m)" if m: "m \<le> Suc D" for m
  proof -
    consider "m < D" | "m = D" | "m = Suc D" using m by linarith
    then show ?thesis
    proof cases
      case 1
      have "layer_ok D ?N n L m (?T ! m)" using tr 1 by (simp add: tree_ok_def)
      then show ?thesis using 1 len by (simp add: layer_ok_def node_ok_def layers(3) nth_append)
    next
      case 2
      have "node_ok (Suc D) n L D 0 (old\<lparr>nd_parent := Some (Suc D, 0)\<rparr>)" using old(2) by (simp add: node_ok_def)
      moreover have "(?T ! D) j = None" if "j \<noteq> 0" for j using dom that domIff [of j "?T ! D"] by simp
      moreover have "(?T ! D)(0 \<mapsto> old') = [0 \<mapsto> old']" for old'
        using calculation(2) by (intro ext) simp
      moreover have "past n L D j" if "0 < j" "j < ?N ! D" for j
        using top calculation(2) [of j] that unfolding layer_ok_def by blast
      ultimately show ?thesis using 2 top len by (simp add: layer_ok_def layers(2) nth_append)
    next
      case 3
      obtain d where d: "D = Suc d" using assms(3) by (cases D) auto
      have "cnt L D 1 = 0" using nothing_ahead [OF assms(4), of D 1] assms(5) by simp
      then have "node_ok (Suc D) n L (Suc D) 0 root" using old(2) d
        by (simp add: node_ok_def root_def new_node_def cnt_Suc [OF fin, of d 0] past_Suc del: power_Suc)
      then show ?thesis using 3 len by (auto simp: layer_ok_def layers(1) nth_append)
    qed
  qed
  then have "tree_ok (Suc D) (?N @ [1]) n L T1" using lt by (simp add: tree_ok_def T1_def)
  then show ?thesis using eq layers(3) assms(3) by auto
qed

subsection \<open>The whole update\<close>

lemma foldE_cong_inv:
  assumes "P s" "\<And>x s. x \<in> set xs \<Longrightarrow> P s \<Longrightarrow> f x s = g x s" "\<And>x s s'. P s \<Longrightarrow> g x s = Inr s' \<Longrightarrow> P s'"
  shows "foldE f xs s = foldE g xs s"
  using assms(1,2)
proof (induction xs arbitrary: s)
  case (Cons x xs)
  then show ?case using assms(3) by (cases "g x s") simp_all
qed simp

lemma add_inode_index: "add_inode i st = Inr st' \<Longrightarrow> sd_index st' = sd_index st"
  by (auto simp: add_inode_def put_node_def result_iffs)

lemma add_if_due_rounds:
  assumes "k \<le> 31"
  shows "foldE add_if_due (rev [1..<k]) st = foldE (add_round (sd_index st)) (rev [1..<k]) st"
  by (rule foldE_cong_inv [where P = "\<lambda>s. sd_index s = sd_index st"])
    (use assms add_inode_index in \<open>auto simp: add_if_due_def int_shl_def add_round_def dvd_eq_mod_eq_0 split: if_splits\<close>)

lemma add_inode_rounds:
  assumes "2 ^ k dvd n"
  shows "foldE add_inode (rev [1..<Suc k]) st = foldE (add_round n) (rev [1..<Suc k]) st"
proof (rule foldE_cong_inv [where P = "\<lambda>_. True"])
  fix i s assume "i \<in> set (rev [1..<Suc k])"
  then have "2 ^ i dvd n" using assms by (intro power_le_dvd [OF assms]) auto
  then show "add_inode i s = add_round n i s" by (simp add: add_round_def)
qed simp_all

lemma isPowerOf2_nat:
  assumes "n < 2 ^ 64"
  shows "isPowerOf2 (of_nat n) \<longleftrightarrow> (\<exists>k. n = 2 ^ k)"
proof -
  have "of_nat n = (2 ^ k :: 64 word) \<longleftrightarrow> n = 2 ^ k" if "k < 64" for k
    using that assms by (simp add: word_unat_eq_iff unat_of_nat take_bit_nat_eq_self)
  moreover have "k < 64" if "n = 2 ^ k" for k using that assms power_less_imp_less_exp [of "2::nat" k 64] by simp
  ultimately show ?thesis unfolding isPowerOf2_iff by auto
qed

end
