(* ===== verification/StackDist_Ops.thy ===== *)
theory StackDist_Ops
  imports StackDist_Grow
begin

text \<open>
  The operations of the stack distance calculator on the invariant of the tree: adding the leaf of an
  access, removing the leaf of an earlier one, reading the distance of a leaf.
\<close>

subsection \<open>The invariant between operations\<close>

definition calc_ok :: "nat \<Rightarrow> nat set \<Rightarrow> stack_dist_calc \<Rightarrow> bool" where
  "calc_ok D L st \<longleftrightarrow>
     depth_ok D (sd_index st) \<and> due (Suc D) D (sd_index st) (sd_nextIndex st) \<and> L \<subseteq> {..<sd_index st} \<and>
     tree_ok D (sd_nextIndex st) (sd_index st) L (sd_tree st)"

lemma calc_ok_new: "calc_ok 1 {} (new_calc v)"
proof -
  have "layer_ok 1 [0, 1] 0 {} i ([Map.empty, [0 \<mapsto> new_node]] ! i)" if "i \<le> 1" for i
    using that by (cases i) (auto simp: layer_ok_def node_ok_def new_node_def cnt_def)
  then show ?thesis by (auto simp: calc_ok_def new_calc_def depth_ok_def due_def nexts_def tree_ok_def le_Suc_eq)
qed

lemma depth_pow2: "depth_ok D (2 ^ k) \<Longrightarrow> 1 \<le> k \<Longrightarrow> D = k"
proof -
  assume d: "depth_ok D (2 ^ k)" "1 \<le> k"
  then have "k \<le> D" by (auto simp: depth_ok_def)
  moreover have "D = 1 \<or> D - 1 < k" using d(1) by (auto simp: depth_ok_def)
  ultimately show ?thesis using d(2) by linarith
qed

lemma updateTree_ok:
  assumes ok: "calc_ok D L st" and ev: "even (sd_index st)" and n: "sd_index st < 2 ^ 31"
  shows "\<exists>D' N T. updateTree st = Inr (st\<lparr>sd_nextIndex := N, sd_tree := T\<rparr>) \<and> depth_ok D' (Suc (sd_index st)) \<and>
    due 1 D' (sd_index st) N \<and> tree_ok D' N (sd_index st) L T \<and> T ! 0 = sd_tree st ! 0"
proof (cases "\<exists>k. sd_index st = 2 ^ k")
  case True
  let ?n = "sd_index st" let ?N = "sd_nextIndex st @ [1]"
  obtain k where k: "?n = 2 ^ k" using True by blast
  then have "1 \<le> k" using ev by (cases k) auto
  then have D: "?n = 2 ^ D" "0 < D" using ok k depth_pow2 [of D k] by (auto simp: calc_ok_def)
  have len: "length (sd_nextIndex st) = Suc D" using ok by (simp add: calc_ok_def due_def)
  obtain T where T: "new_root st = Inr (st\<lparr>sd_nextIndex := ?N, sd_tree := T\<rparr>)" "tree_ok (Suc D) ?N ?n L T" "T ! 0 = sd_tree st ! 0"
    using new_root_ok [OF _ len, of ?n L] ok D by (auto simp: calc_ok_def)
  have "due (Suc D) (Suc D) ?n ?N" using ok len D(1) by (auto simp: calc_ok_def due_def nth_append)
  then obtain N T' where 1: "foldE (add_round ?n) (rev [1..<Suc D]) (st\<lparr>sd_nextIndex := ?N, sd_tree := T\<rparr>) =
      Inr (st\<lparr>sd_nextIndex := N, sd_tree := T'\<rparr>)" "due 1 (Suc D) ?n N" "tree_ok (Suc D) N ?n L T'" "T' ! 0 = T ! 0"
    using rounds_ok [of "Suc D" "Suc D" ?n "st\<lparr>sd_nextIndex := ?N, sd_tree := T\<rparr>" L] T(2) ok D by (auto simp: calc_ok_def)
  have "length T = Suc (Suc D)" using T(2) by (simp add: tree_ok_def)
  moreover have "isPowerOf2 (of_nat ?n)" using True n isPowerOf2_nat [of ?n] by simp
  ultimately have "updateTree st = Inr (st\<lparr>sd_nextIndex := N, sd_tree := T'\<rparr>)"
    using T(1) 1(1) add_inode_rounds [of D ?n] D(1) by (simp add: updateTree_def getTreeDepth_def del: upt_Suc)
  moreover have "depth_ok (Suc D) (Suc ?n)" using D by (simp add: depth_ok_def)
  ultimately show ?thesis using 1 T(3) by auto
next
  case False
  let ?n = "sd_index st" let ?N = "sd_nextIndex st" let ?T = "sd_tree st"
  have len: "length ?T = Suc D" "length ?N = Suc D" using ok by (simp_all add: calc_ok_def tree_ok_def due_def)
  have lt: "?n < 2 ^ D" using ok False by (auto simp: calc_ok_def depth_ok_def le_less)
  have D: "D \<le> 31" "0 < D" using ok n depth_bound [of D ?n] by (auto simp: calc_ok_def depth_ok_def)
  have eq: "updateTree st = foldE (add_round ?n) (rev [1..<D]) st"
    using False n add_if_due_rounds [OF D(1)] len by (simp add: updateTree_def isPowerOf2_nat getTreeDepth_def)
  have dep: "depth_ok D (Suc ?n)" using ok lt by (auto simp: calc_ok_def depth_ok_def)
  show ?thesis
  proof (cases "?n = 0")
    case True
    then have "D = 1" using ok by (auto simp: calc_ok_def depth_ok_def)
    then have "due 1 D ?n ?N" using ok True by (auto simp: calc_ok_def due_def nexts_def)
    then show ?thesis using eq ok dep \<open>D = 1\<close>
      by (intro exI [of _ D] exI [of _ ?N] exI [of _ ?T]) (simp add: calc_ok_def)
  next
    case n0: False
    have "\<not> 2 ^ D dvd ?n" using lt n0 by (auto dest: dvd_imp_le)
    then have "due D D ?n ?N" using ok by (auto simp: calc_ok_def due_def nexts_def)
    then show ?thesis using rounds_ok [of D D ?n st L] ok n0 lt D(2) dep eq by (auto simp: calc_ok_def)
  qed
qed

lemma prepared:
  assumes ok: "calc_ok D L st" and n: "sd_index st < 2 ^ 31"
  shows "\<exists>D' N T. (if even (sd_index st) then updateTree st else Inr st) = Inr (st\<lparr>sd_nextIndex := N, sd_tree := T\<rparr>) \<and>
    depth_ok D' (Suc (sd_index st)) \<and> due 1 D' (sd_index st) N \<and> tree_ok D' N (sd_index st) L T \<and> T ! 0 = sd_tree st ! 0"
proof (cases "even (sd_index st)")
  case True
  then show ?thesis using updateTree_ok [OF ok _ n] by simp
next
  case False
  let ?n = "sd_index st"
  have "\<not> 2 ^ i dvd ?n" if "1 \<le> i" for i using that False dvd_trans [of 2 "2 ^ i" ?n] by (auto simp: dvd_power)
  then have "due 1 D ?n (sd_nextIndex st)" using ok by (auto simp: calc_ok_def due_def nexts_def)
  moreover have "?n \<noteq> 2 ^ D" using False ok by (auto simp: calc_ok_def depth_ok_def)
  ultimately show ?thesis using ok False
    by (intro exI [of _ D] exI [of _ "sd_nextIndex st"] exI [of _ "sd_tree st"]) (auto simp: calc_ok_def depth_ok_def)
qed

subsection \<open>Removing and reading a leaf\<close>

lemma below_next: "l < n \<Longrightarrow> l div 2 ^ i < nexts n i"
proof -
  assume l: "l < n"
  show ?thesis
  proof (cases "2 ^ i dvd n")
    case True
    have "l div 2 ^ i < n div 2 ^ i" using l dvd_div_mult_self [OF True] by (intro less_mult_imp_div_less) auto
    then show ?thesis using True l by (auto simp: nexts_def)
  next
    case False
    then show ?thesis using l by (simp add: nexts_def le_imp_less_Suc div_le_mono)
  qed
qed

lemma changes_remove:
  assumes "calc_ok D L st" "l \<in> L"
  shows "changes_at D l (sd_nextIndex st) (sd_index st, L - {l}) (sd_index st, L)"
proof -
  let ?n = "sd_index st"
  have L: "L \<subseteq> {..<?n}" "?n \<le> 2 ^ D" "l < ?n" using assms by (auto simp: calc_ok_def depth_ok_def)
  then have "finite L" "L \<subseteq> {..<2 ^ D}" using finite_subset by auto
  moreover have "l div 2 ^ i < sd_nextIndex st ! i" if "i \<le> D" for i
    using that assms(1) L(3) below_next [OF L(3), of i] by (cases i) (auto simp: calc_ok_def due_def)
  moreover have "\<not> past ?n L i (l div 2 ^ i)" for i using assms(2) by (auto simp: past_def)
  ultimately show ?thesis using L by (auto simp: changes_at_def past_def)
qed

lemma calc_ok_leaf:
  assumes "calc_ok D L st" "l \<in> L"
  shows "\<exists>nd. (sd_tree st ! 0) l = Some nd \<and> node_ok D (sd_index st) L 0 l nd"
  using path_node [OF changes_remove [OF assms], of 0 "sd_tree st" 0] assms(1) by (simp add: part_ok_tree calc_ok_def)

lemma remove_leaf_ok:
  assumes ok: "calc_ok D L st" and l: "l \<in> L" and v: "sd_verify st \<longrightarrow> sd_index st \<le> 2 ^ 31"
  shows "\<exists>T nd. remove_leaf l st = Inr ((right_of L 0 l, isMarked nd), st\<lparr>sd_tree := T\<rparr>) \<and>
    (sd_tree st ! 0) l = Some nd \<and> calc_ok D (L - {l}) (st\<lparr>sd_tree := T\<rparr>) \<and> T ! 0 = (sd_tree st ! 0)(l := None)"
proof -
  let ?n = "sd_index st" let ?N = "sd_nextIndex st"
  note ch = changes_remove [OF ok l]
  have D: "0 < D" "sd_verify st \<longrightarrow> D \<le> 31" using ok v depth_bound [of D ?n] by (auto simp: calc_ok_def depth_ok_def)
  have "l < ?n" using ok l by (auto simp: calc_ok_def)
  then have "past ?n (L - {l}) 0 l" by (auto simp: past_def)
  moreover from this have "cnt (L - {l}) 0 l = 0" by (simp add: past_def cnt_def)
  ultimately obtain T nd where 1: "updateSumsLeavesToRoot (0, l) False st = Inr (right_of L 0 l, st\<lparr>sd_tree := T\<rparr>)"
    "tree_ok D ?N ?n (L - {l}) T" "(sd_tree st ! 0) l = Some nd" "T ! 0 = (sd_tree st ! 0)(l \<mapsto> nd\<lparr>sumLeft := 0\<rparr>)"
    using leaf_update [OF ch _ D(1,2), of False] ok by (auto simp: calc_ok_def)
  let ?T1 = "T[0 := (T ! 0)(l := None)]"
  have len: "length T = Suc D" using 1(2) by (simp add: tree_ok_def)
  then have "remove_leaf l st = Inr ((right_of L 0 l, isMarked nd), st\<lparr>sd_tree := ?T1\<rparr>)"
    using 1 by (simp add: remove_leaf_def node_access)
  moreover have "layer_ok D ?N ?n (L - {l}) i (?T1 ! i)" if "i \<le> D" for i
  proof -
    have "layer_ok D ?N ?n (L - {l}) i (T ! i)" using 1(2) that by (simp add: tree_ok_def)
    then show ?thesis using len D(1) \<open>past ?n (L - {l}) 0 l\<close> by (cases "i = 0") (auto simp: layer_ok_def)
  qed
  then have "calc_ok D (L - {l}) (st\<lparr>sd_tree := ?T1\<rparr>)" using ok len by (auto simp: calc_ok_def tree_ok_def)
  moreover have "?T1 ! 0 = (sd_tree st ! 0)(l := None)" using len 1(4) by simp
  ultimately show ?thesis using 1(3) by blast
qed

lemma inspect_ok:
  assumes ok: "calc_ok D L st" and l: "l \<in> L"
  shows "getSumsLeavesToRoot (0, l) st = Inr (right_of L 0 l)"
proof -
  obtain nd where nd: "(sd_tree st ! 0) l = Some nd" "node_ok D (sd_index st) L 0 l nd" using calc_ok_leaf [OF assms] by blast
  have len: "length (sd_tree st) = Suc D" and D: "0 < D" using ok by (simp_all add: calc_ok_def tree_ok_def depth_ok_def)
  have "getSum (Suc D) (Suc 0, l div 2 ^ Suc 0) (even (l div 2 ^ 0)) 0 st = Inr (0 + right_of L 0 l)"
    using getSum_ok [OF changes_remove [OF assms], of st 0 "Suc D" 0] ok D by (simp add: calc_ok_def part_ok_tree)
  then show ?thesis using nd len D by (simp add: getSumsLeavesToRoot_def node_access node_ok_def)
qed

lemma sanity_ok:
  assumes ok: "calc_ok D L st" and l: "l \<in> L"
  shows "sanityCheckTree (0, l) st = Inr ()"
proof -
  note ch = changes_remove [OF assms]
  have len: "length (sd_tree st) = Suc D" and D: "0 < D" using ok by (simp_all add: calc_ok_def tree_ok_def depth_ok_def)
  obtain m where m: "D = Suc m" using D by (cases D) auto
  have part: "part_ok D (sd_nextIndex st) (sd_index st, L - {l}) (sd_index st, L) 0 (sd_tree st)"
    using ok by (simp add: part_ok_tree calc_ok_def)
  obtain nd where nd: "(sd_tree st ! 0) l = Some nd" "node_ok D (sd_index st) L 0 l nd" using calc_ok_leaf [OF assms] by blast
  obtain root where "(sd_tree st ! D) (l div 2 ^ D) = Some root" "node_ok D (sd_index st) L D (l div 2 ^ D) root"
    using path_node [OF ch part] by auto
  then have "get_node (D, l div 2 ^ D) st = Inr root" "nd_parent root = None" using len by (auto simp: node_access node_ok_def)
  moreover have "foldE (sanity_up st) [1..<D] (Some (1, l div 2 ^ 1)) = Inr (Some (D, l div 2 ^ D))"
    using sanity_path [OF ch part, of m] m by simp
  ultimately show ?thesis using nd len D by (simp add: sanityCheckTree_def node_access node_ok_def getTreeDepth_def)
qed

lemma mark_ok:
  assumes ok: "calc_ok D L st" and nd: "(sd_tree st ! 0) l = Some nd"
  shows "calc_ok D L (st\<lparr>sd_tree := (sd_tree st)[0 := (sd_tree st ! 0)(l \<mapsto> nd\<lparr>isMarked := m\<rparr>)]\<rparr>)"
proof -
  let ?T = "sd_tree st" let ?T1 = "?T[0 := (?T ! 0)(l \<mapsto> nd\<lparr>isMarked := m\<rparr>)]" let ?n = "sd_index st" let ?N = "sd_nextIndex st"
  have len: "length ?T = Suc D" and D: "0 < D" using ok by (simp_all add: calc_ok_def tree_ok_def depth_ok_def)
  have "layer_ok D ?N ?n L i (?T1 ! i)" if "i \<le> D" for i
  proof -
    have "layer_ok D ?N ?n L i (?T ! i)" using ok that by (simp add: calc_ok_def tree_ok_def)
    then show ?thesis using len D nd by (cases "i = 0") (auto simp: layer_ok_def node_ok_def)
  qed
  then show ?thesis using ok len by (auto simp: calc_ok_def tree_ok_def)
qed

subsection \<open>Adding a leaf\<close>

lemma changes_add:
  assumes "depth_ok D (Suc n)" "L \<subseteq> {..<n}" "due 1 D n N"
  shows "changes_at D n (N[0 := Suc n]) (Suc n, insert n L) (n, L)"
proof -
  have n: "n < 2 ^ D" using assms(1) by (simp add: depth_ok_def)
  then have "finite L" "L \<subseteq> {..<2 ^ D}" using assms(2) finite_subset by auto
  moreover have "n div 2 ^ i < N[0 := Suc n] ! i" if "i \<le> D" for i
    using that assms(3) by (cases i) (auto simp: due_def)
  moreover have "past (Suc n) (insert n L) i j" if "past n L i j" for i j using that by (fastforce simp: past_def)
  ultimately show ?thesis using n not_past_now by (simp add: changes_at_def)
qed

lemma leaf_placed:
  assumes tr: "tree_ok D N n L T" and due: "due 1 D n N" and D: "0 < D" and leaf: "node_ok D n L 0 n leaf"
  shows "tree_ok D (N[0 := Suc n]) n L (T[0 := (T ! 0)(n \<mapsto> leaf)])"
proof -
  have len: "length N = Suc D" "length T = Suc D" "N ! 0 = n" using assms by (simp_all add: tree_ok_def due_def)
  have "layer_ok D (N[0 := Suc n]) n L i (T[0 := (T ! 0)(n \<mapsto> leaf)] ! i)" if "i \<le> D" for i
  proof -
    have "layer_ok D N n L i (T ! i)" using tr that by (simp add: tree_ok_def)
    then show ?thesis using len D leaf by (cases "i = 0") (auto simp: layer_ok_def less_Suc_eq)
  qed
  then show ?thesis using len by (simp add: tree_ok_def)
qed

lemma sanity_index: "sanityCheckTree p (st\<lparr>sd_index := k\<rparr>) = sanityCheckTree p st"
proof -
  have g: "get_node q (st\<lparr>sd_index := k\<rparr>) = get_node q st" for q by (simp add: get_node_def)
  have "sanity_up (st\<lparr>sd_index := k\<rparr>) = sanity_up st" by (intro ext) (simp add: sanity_up_def g cong: option.case_cong)
  then show ?thesis by (simp add: sanityCheckTree_def getTreeDepth_def g cong: option.case_cong)
qed

lemma add_leaf_ok:
  assumes ok: "calc_ok D L st" and n: "sd_index st < 2 ^ 31"
  shows "\<exists>D' N T leaf.
    add_leaf a dist st =
      (if sd_verify st \<and> fst (verifyStackDist a True (sd_stack st)) \<noteq> dist then Inl (Panic ''Expected stack-distance'')
       else Inr (st\<lparr>sd_nextIndex := N, sd_tree := T,
                    sd_stack := (if sd_verify st then snd (verifyStackDist a True (sd_stack st)) else sd_stack st),
                    sd_index := Suc (sd_index st)\<rparr>)) \<and>
    calc_ok D' (insert (sd_index st) L) (st\<lparr>sd_nextIndex := N, sd_tree := T, sd_index := Suc (sd_index st)\<rparr>) \<and>
    \<not> isMarked leaf \<and> T ! 0 = (sd_tree st ! 0)(sd_index st \<mapsto> leaf)"
proof -
  let ?n = "sd_index st"
  have L: "L \<subseteq> {..<?n}" using ok by (simp add: calc_ok_def)
  obtain D' N T where pre: "(if even ?n then updateTree st else Inr st) = Inr (st\<lparr>sd_nextIndex := N, sd_tree := T\<rparr>)"
    and dep: "depth_ok D' (Suc ?n)" and due: "due 1 D' ?n N" and tr: "tree_ok D' N ?n L T" and T0: "T ! 0 = sd_tree st ! 0"
    using prepared [OF ok n] by blast
  have D: "0 < D'" "D' \<le> 31" using dep n depth_bound [OF dep] by (auto simp: depth_ok_def)
  have len: "length N = Suc D'" "length T = Suc D'" using due tr by (simp_all add: due_def tree_ok_def)
  have N1: "N ! 1 = ?n div 2 + 1" "N ! 0 = ?n" using due D(1) by (auto simp: due_def)
  have "layer_ok D' N ?n L 1 (T ! 1)" using tr D by (simp add: tree_ok_def)
  then obtain par where par: "(T ! 1) (?n div 2) = Some par" using not_past_now [of ?n L 1] N1(1) by (auto simp: layer_ok_def)
  define leaf where "leaf = new_node\<lparr>nodeIndex := ?n, isLeftNode := even ?n, nd_parent := Some (1, ?n div 2)\<rparr>"
  have lf: "node_ok D' ?n L 0 ?n leaf" using D by (simp add: node_ok_def leaf_def)
  let ?N1 = "N[0 := Suc ?n]" let ?T1 = "T[0 := (T ! 0)(?n \<mapsto> leaf)]"
  let ?st1 = "st\<lparr>sd_nextIndex := ?N1, sd_tree := ?T1\<rparr>"
  have "insert ?n L \<inter> span 0 ?n = {?n}" by auto
  then have "cnt (insert ?n L) 0 ?n = 1" unfolding cnt_def by (simp only:) simp
  then obtain T2 where 2: "updateSumsLeavesToRoot (0, ?n) True ?st1 = Inr (Infinity, ?st1\<lparr>sd_tree := T2\<rparr>)"
    "tree_ok D' ?N1 (Suc ?n) (insert ?n L) T2" "T2 ! 0 = (T ! 0)(?n \<mapsto> leaf\<lparr>sumLeft := 1\<rparr>)"
    using leaf_update [OF changes_add [OF dep L due], of ?st1 True] leaf_placed [OF tr due D(1) lf] D len by auto
  let ?st2 = "st\<lparr>sd_nextIndex := ?N1, sd_tree := T2\<rparr>"
  have "due (Suc D') D' (Suc ?n) ?N1" using due len by (auto simp: due_def nexts_Suc nth_list_update)
  then have ok2: "calc_ok D' (insert ?n L) (st\<lparr>sd_nextIndex := ?N1, sd_tree := T2, sd_index := Suc ?n\<rparr>)"
    using dep 2(2) L by (auto simp: calc_ok_def)
  have "sanityCheckTree (0, ?n) ?st2 = Inr ()"
    using sanity_ok [OF ok2, of ?n] sanity_index [of "(0, ?n)" "Suc ?n" ?st2] by simp
  then have ver: "verify_access a dist ?st2 =
      (if sd_verify st \<and> fst (verifyStackDist a True (sd_stack st)) \<noteq> dist then Inl (Panic ''Expected stack-distance'')
       else Inr (?st2\<lparr>sd_stack := (if sd_verify st then snd (verifyStackDist a True (sd_stack st)) else sd_stack st)\<rparr>))"
    by (simp add: verify_access_def split_beta Let_def)
  have "add_leaf a dist st = ebind (verify_access a dist ?st2) (\<lambda>st4. Inr (st4\<lparr>sd_index := sd_index st4 + 1\<rparr>))"
    using pre par N1 len 2(1) D by (simp add: add_leaf_def node_access leaf_def)
  then have "add_leaf a dist st =
      (if sd_verify st \<and> fst (verifyStackDist a True (sd_stack st)) \<noteq> dist then Inl (Panic ''Expected stack-distance'')
       else Inr (st\<lparr>sd_nextIndex := ?N1, sd_tree := T2,
                    sd_stack := (if sd_verify st then snd (verifyStackDist a True (sd_stack st)) else sd_stack st),
                    sd_index := Suc (sd_index st)\<rparr>))"
    by (simp add: ver)
  moreover have "\<not> isMarked (leaf\<lparr>sumLeft := 1\<rparr>)" by (simp add: leaf_def new_node_def)
  ultimately show ?thesis using ok2 2(3) unfolding T0 by blast
qed

end
