(* ===== verification/StackDist_Props.thy ===== *)
theory StackDist_Props
  imports StackDist_Ops
begin

text \<open>
  The stack distance calculator against the naive stack: on every sequence of operations the tree
  returns the distances that the search in the stack returns, and the self check of the class passes
  unless an address is removed.
\<close>

subsection \<open>The naive stack\<close>

datatype sd_op = Access "64 word" | Evict "64 word" | Inspect "64 word" bool

fun run_sd_op :: "sd_op \<Rightarrow> stack_dist_calc \<Rightarrow> ((nat \<times> bool) \<times> stack_dist_calc) result" where
  "run_sd_op (Access a) st = calcStackDistAndUpdate a True st"
| "run_sd_op (Evict a) st = calcStackDistAndUpdate a False st"
| "run_sd_op (Inspect a m) st = calcStackDist a m st"

text \<open>The reference keeps the addresses in a list, the most recent one last, and the marked ones.\<close>

fun naive_op :: "sd_op \<Rightarrow> 64 word list \<times> (64 word \<Rightarrow> bool) \<Rightarrow> (nat \<times> bool) \<times> 64 word list \<times> (64 word \<Rightarrow> bool)" where
  "naive_op (Access a) (stk, M) = ((fst (verifyStackDist a True stk), M a), snd (verifyStackDist a True stk), M(a := False))"
| "naive_op (Evict a) (stk, M) = ((fst (verifyStackDist a False stk), M a), filter (\<lambda>b. b \<noteq> a) stk, M(a := False))"
| "naive_op (Inspect a m) (stk, M) =
     ((fst (verifyStackDist a False stk), M a), stk, if a \<in> set stk then M(a := m) else M)"

lemma from_top_found: "a \<notin> set zs \<Longrightarrow> from_top a (zs @ a # ys) d = Some (d + length zs)"
  by (induction zs arbitrary: d) auto

lemma from_top_missing: "a \<notin> set zs \<Longrightarrow> from_top a zs d = None"
  by (induction zs arbitrary: d) auto

lemma verify_found:
  assumes "a \<notin> set zs"
  shows "verifyStackDist a u (ys @ a # zs) = (length zs, if u then ys @ zs @ [a] else ys @ a # zs)"
  using from_top_found [of a "rev zs" "rev ys" 0] assms by (simp add: verifyStackDist_def)

lemma verify_missing: "a \<notin> set stk \<Longrightarrow> verifyStackDist a u stk = (Infinity, if u then stk @ [a] else stk)"
  by (simp add: verifyStackDist_def from_top_missing)

lemma verify_set: "insert a (set stk) \<subseteq> set (snd (verifyStackDist a True stk))"
proof (cases "a \<in> set stk")
  case True
  then obtain ys zs where "stk = ys @ a # zs" "a \<notin> set zs" using split_list_last by metis
  then show ?thesis by (auto simp: verify_found)
qed (simp add: verify_missing)

subsection \<open>Simulation\<close>

definition position :: "stack_dist_calc \<Rightarrow> 64 word \<Rightarrow> nat" where
  "position st a = the (sd_aiMap st a)"

definition represents :: "stack_dist_calc \<Rightarrow> 64 word list \<Rightarrow> (64 word \<Rightarrow> bool) \<Rightarrow> bool" where
  "represents st stk M \<longleftrightarrow>
     (\<exists>D. calc_ok D (set (map (position st) stk)) st) \<and> set stk = dom (sd_aiMap st) \<and>
     sorted_wrt (<) (map (position st) stk) \<and>
     (\<forall>a. if a \<in> set stk then \<exists>nd. (sd_tree st ! 0) (position st a) = Some nd \<and> isMarked nd = M a else \<not> M a)"

lemma represents_new: "represents (new_calc v) [] (\<lambda>_. False)"
  using calc_ok_new [of v] by (auto simp: represents_def new_calc_def)

lemma position_right:
  assumes "sorted_wrt (<) (map f (ys @ a # zs))"
  shows "right_of (set (map f (ys @ a # zs))) 0 (f a) = length zs"
proof -
  have "{x \<in> set (map f (ys @ a # zs)). f a < x} = set (map f zs)"
    using assms by (auto simp: sorted_wrt_append dest: order.asym)
  moreover have "distinct (map f zs)" using assms strict_sorted_iff [of "map f (ys @ a # zs)"] by simp
  ultimately show ?thesis using distinct_card [of "map f zs"] by (simp add: right_of_def)
qed

lemma represents_split:
  assumes "represents st stk M" "a \<in> set stk"
  obtains ys zs where "stk = ys @ a # zs" "a \<notin> set ys" "a \<notin> set zs"
proof -
  have "distinct (map (position st) stk)" using assms(1) strict_sorted_iff by (auto simp: represents_def)
  then have "distinct stk" by (simp add: distinct_map)
  then show thesis using that split_list [OF assms(2)] by fastforce
qed

definition marks_ok :: "stack_dist_calc \<Rightarrow> 64 word list \<Rightarrow> (64 word \<Rightarrow> bool) \<Rightarrow> bool" where
  "marks_ok st stk M \<longleftrightarrow> (\<forall>a \<in> set stk. \<exists>nd. (sd_tree st ! 0) (position st a) = Some nd \<and> isMarked nd = M a)"

lemma add_represents:
  assumes ok: "calc_ok D (set (map (position st) stk)) st" and dom: "dom (sd_aiMap st) = insert a (set stk)" "a \<notin> set stk"
    and pos: "sd_aiMap st a = Some (sd_index st)" and so: "sorted_wrt (<) (map (position st) stk)"
    and marks: "marks_ok st stk M" "\<forall>b. b \<notin> set stk \<longrightarrow> b \<noteq> a \<longrightarrow> \<not> M b"
    and n: "sd_index st < 2 ^ 31" and v: "sd_verify st \<longrightarrow> fst (verifyStackDist a True (sd_stack st)) = dist"
  shows "\<exists>st'. add_leaf a dist st = Inr st' \<and> represents st' (stk @ [a]) (M(a := False)) \<and> sd_index st' = Suc (sd_index st) \<and>
    sd_verify st' = sd_verify st \<and> sd_stack st' = (if sd_verify st then snd (verifyStackDist a True (sd_stack st)) else sd_stack st)"
proof -
  let ?n = "sd_index st"
  obtain D' N T leaf where 1: "add_leaf a dist st = Inr (st\<lparr>sd_nextIndex := N, sd_tree := T,
      sd_stack := (if sd_verify st then snd (verifyStackDist a True (sd_stack st)) else sd_stack st), sd_index := Suc ?n\<rparr>)"
    "calc_ok D' (insert ?n (set (map (position st) stk))) (st\<lparr>sd_nextIndex := N, sd_tree := T, sd_index := Suc ?n\<rparr>)"
    "\<not> isMarked leaf" "T ! 0 = (sd_tree st ! 0)(?n \<mapsto> leaf)"
    using add_leaf_ok [OF ok n, of a dist] v by auto
  let ?S = "if sd_verify st then snd (verifyStackDist a True (sd_stack st)) else sd_stack st"
  let ?st = "st\<lparr>sd_nextIndex := N, sd_tree := T, sd_stack := ?S, sd_index := Suc ?n\<rparr>"
  have p: "position ?st = position st" "position st a = ?n" using pos by (auto simp: position_def)
  have lt: "position st b < ?n" if "b \<in> set stk" for b using ok that by (auto simp: calc_ok_def)
  have "calc_ok D' (set (map (position ?st) (stk @ [a]))) ?st" using 1(2) p by (simp add: calc_ok_def)
  moreover have "sorted_wrt (<) (map (position ?st) (stk @ [a]))" using so lt p by (simp add: sorted_wrt_append)
  moreover have "\<forall>b \<in> set stk. position st b \<noteq> ?n" using lt by fastforce
  ultimately have "represents ?st (stk @ [a]) (M(a := False))"
    using dom marks p 1(3,4) unfolding represents_def marks_ok_def by auto
  then show ?thesis using 1(1) by auto
qed

lemma remove_represents:
  assumes r: "represents st (ys @ a # zs) M" and n: "sd_verify st \<longrightarrow> sd_index st \<le> 2 ^ 31"
    and ai: "\<forall>b. b \<noteq> a \<longrightarrow> ai b = sd_aiMap st b"
  shows "\<exists>D T. remove_leaf (position st a) (st\<lparr>sd_aiMap := ai\<rparr>) = Inr ((length zs, M a), st\<lparr>sd_aiMap := ai, sd_tree := T\<rparr>) \<and>
    calc_ok D (set (map (position (st\<lparr>sd_aiMap := ai, sd_tree := T\<rparr>)) (ys @ zs))) (st\<lparr>sd_aiMap := ai, sd_tree := T\<rparr>) \<and>
    sorted_wrt (<) (map (position (st\<lparr>sd_aiMap := ai, sd_tree := T\<rparr>)) (ys @ zs)) \<and>
    marks_ok (st\<lparr>sd_aiMap := ai, sd_tree := T\<rparr>) (ys @ zs) M"
proof -
  let ?f = "position st" let ?L = "set (map ?f (ys @ a # zs))" let ?st = "st\<lparr>sd_aiMap := ai\<rparr>"
  have so: "sorted_wrt (<) (map ?f (ys @ a # zs))" using r by (simp add: represents_def)
  obtain D where ok: "calc_ok D ?L st" using r by (auto simp: represents_def)
  then have "calc_ok D ?L ?st" by (simp add: calc_ok_def)
  then obtain T nd where 1: "remove_leaf (?f a) ?st = Inr ((right_of ?L 0 (?f a), isMarked nd), ?st\<lparr>sd_tree := T\<rparr>)"
    "(sd_tree st ! 0) (?f a) = Some nd" "calc_ok D (?L - {?f a}) (?st\<lparr>sd_tree := T\<rparr>)" "T ! 0 = (sd_tree st ! 0)(?f a := None)"
    using remove_leaf_ok [of D ?L ?st "?f a"] n by auto
  have d: "\<forall>b \<in> set (ys @ zs). ?f b \<noteq> ?f a" using so by (auto simp: sorted_wrt_append)
  have na: "b \<noteq> a" if "b \<in> set (ys @ zs)" for b using that d by blast
  have f: "position (st\<lparr>sd_aiMap := ai, sd_tree := T\<rparr>) b = ?f b" if "b \<in> set (ys @ zs)" for b
    using ai na [OF that] by (simp add: position_def)
  then have m: "map (position (st\<lparr>sd_aiMap := ai, sd_tree := T\<rparr>)) (ys @ zs) = map ?f (ys @ zs)" by (intro map_cong) auto
  have "?L - {?f a} = set (map ?f (ys @ zs))" using d by auto
  moreover have "M a = isMarked nd" using r 1(2) by (auto simp: represents_def split: if_splits)
  moreover have "marks_ok (st\<lparr>sd_aiMap := ai, sd_tree := T\<rparr>) (ys @ zs) M"
    using r d f 1(4) unfolding marks_ok_def represents_def by (auto split: if_splits)
  moreover have "sorted_wrt (<) (map ?f (ys @ zs))" using so by (simp add: sorted_wrt_append)
  ultimately show ?thesis using 1(1,3) position_right [OF so] by (intro exI [of _ D] exI [of _ T]) (simp only: m)
qed

lemma represents_at: "represents st stk M \<Longrightarrow> a \<in> set stk \<Longrightarrow> sd_aiMap st a = Some (position st a)"
  by (auto simp: represents_def position_def)

lemma represents_none: "represents st stk M \<Longrightarrow> a \<notin> set stk \<Longrightarrow> sd_aiMap st a = None \<and> \<not> M a"
  by (auto simp: represents_def split: if_splits)

lemma represents_marks: "represents st stk M \<Longrightarrow> marks_ok st stk M"
  by (simp add: represents_def marks_ok_def split: if_splits)

lemma access_step:
  assumes r: "represents st stk M" and n: "sd_index st < 2 ^ 31" and v: "sd_verify st \<longrightarrow> sd_stack st = stk"
  shows "\<exists>st'. calcStackDistAndUpdate a True st = Inr ((fst (verifyStackDist a True stk), M a), st') \<and>
    represents st' (snd (verifyStackDist a True stk)) (M(a := False)) \<and> sd_index st' = Suc (sd_index st) \<and>
    sd_verify st' = sd_verify st \<and> (sd_verify st \<longrightarrow> sd_stack st' = snd (verifyStackDist a True stk))"
proof (cases "a \<in> set stk")
  case True
  obtain ys zs where stk: "stk = ys @ a # zs" "a \<notin> set ys" "a \<notin> set zs" using represents_split [OF r True] .
  let ?ai = "(sd_aiMap st)(a \<mapsto> sd_index st)"
  obtain D T where 1: "remove_leaf (position st a) (st\<lparr>sd_aiMap := ?ai\<rparr>) = Inr ((length zs, M a), st\<lparr>sd_aiMap := ?ai, sd_tree := T\<rparr>)"
    and st1: "calc_ok D (set (map (position (st\<lparr>sd_aiMap := ?ai, sd_tree := T\<rparr>)) (ys @ zs))) (st\<lparr>sd_aiMap := ?ai, sd_tree := T\<rparr>)"
    "sorted_wrt (<) (map (position (st\<lparr>sd_aiMap := ?ai, sd_tree := T\<rparr>)) (ys @ zs))"
    "marks_ok (st\<lparr>sd_aiMap := ?ai, sd_tree := T\<rparr>) (ys @ zs) M"
    using remove_represents [OF r [unfolded stk(1)], of ?ai] n by auto
  have "\<exists>st'. add_leaf a (length zs) (st\<lparr>sd_aiMap := ?ai, sd_tree := T\<rparr>) = Inr st' \<and> represents st' ((ys @ zs) @ [a]) (M(a := False)) \<and>
      sd_index st' = Suc (sd_index st) \<and> sd_verify st' = sd_verify st \<and>
      sd_stack st' = (if sd_verify st then snd (verifyStackDist a True (sd_stack st)) else sd_stack st)"
  proof -
    have "dom ?ai = insert a (set (ys @ zs))" using r stk by (auto simp: represents_def)
    moreover have "\<forall>b. b \<notin> set (ys @ zs) \<longrightarrow> b \<noteq> a \<longrightarrow> \<not> M b" using represents_none [OF r] stk(1) by auto
    ultimately show ?thesis using add_represents [OF st1(1) _ _ _ st1(2,3), of a "length zs"] n v stk
      by (cases "sd_verify st") (simp_all add: verify_found)
  qed
  then show ?thesis using 1 v stk represents_at [OF r True]
    by (auto simp: calcStackDistAndUpdate_def verify_found)
next
  case False
  let ?st = "st\<lparr>sd_aiMap := (sd_aiMap st)(a \<mapsto> sd_index st)\<rparr>"
  have p: "position ?st b = position st b" if "b \<in> set stk" for b using that False by (auto simp: position_def)
  then have m: "map (position ?st) stk = map (position st) stk" by simp
  obtain D where "calc_ok D (set (map (position st) stk)) st" "sorted_wrt (<) (map (position st) stk)" "set stk = dom (sd_aiMap st)"
    using r by (auto simp: represents_def)
  moreover have "marks_ok ?st stk M" using represents_marks [OF r] p by (simp add: marks_ok_def)
  moreover have "\<forall>b. b \<notin> set stk \<longrightarrow> b \<noteq> a \<longrightarrow> \<not> M b" using represents_none [OF r] by auto
  ultimately have "\<exists>st'. add_leaf a Infinity ?st = Inr st' \<and> represents st' (stk @ [a]) (M(a := False)) \<and>
      sd_index st' = Suc (sd_index st) \<and> sd_verify st' = sd_verify st \<and>
      sd_stack st' = (if sd_verify st then snd (verifyStackDist a True (sd_stack st)) else sd_stack st)"
    using add_represents [of D ?st stk a M Infinity] False n v unfolding m
    by (cases "sd_verify st") (simp_all add: calc_ok_def verify_missing)
  then show ?thesis using v False represents_none [OF r False] by (auto simp: calcStackDistAndUpdate_def verify_missing)
qed

lemma evict_step:
  assumes r: "represents st stk M" and n: "sd_index st \<le> 2 ^ 31"
  shows "\<exists>st'. calcStackDistAndUpdate a False st = Inr ((fst (verifyStackDist a False stk), M a), st') \<and>
    represents st' (filter (\<lambda>b. b \<noteq> a) stk) (M(a := False)) \<and> sd_index st' = sd_index st \<and>
    sd_verify st' = sd_verify st \<and> sd_stack st' = sd_stack st"
proof (cases "a \<in> set stk")
  case True
  obtain ys zs where stk: "stk = ys @ a # zs" "a \<notin> set ys" "a \<notin> set zs" using represents_split [OF r True] .
  let ?ai = "(sd_aiMap st)(a := None)"
  obtain D T where 1: "remove_leaf (position st a) (st\<lparr>sd_aiMap := ?ai\<rparr>) = Inr ((length zs, M a), st\<lparr>sd_aiMap := ?ai, sd_tree := T\<rparr>)"
    and st1: "calc_ok D (set (map (position (st\<lparr>sd_aiMap := ?ai, sd_tree := T\<rparr>)) (ys @ zs))) (st\<lparr>sd_aiMap := ?ai, sd_tree := T\<rparr>)"
    "sorted_wrt (<) (map (position (st\<lparr>sd_aiMap := ?ai, sd_tree := T\<rparr>)) (ys @ zs))"
    "marks_ok (st\<lparr>sd_aiMap := ?ai, sd_tree := T\<rparr>) (ys @ zs) M"
    using remove_represents [OF r [unfolded stk(1)], of ?ai] n by auto
  have "set (ys @ zs) = dom ?ai" using r stk by (auto simp: represents_def)
  moreover have "\<not> M b" if "b \<notin> set (ys @ zs)" "b \<noteq> a" for b using represents_none [OF r] that stk(1) by auto
  moreover have "filter (\<lambda>b. b \<noteq> a) stk = ys @ zs"
  proof -
    have "filter (\<lambda>b. b \<noteq> a) ys = ys" "filter (\<lambda>b. b \<noteq> a) zs = zs" using stk(2,3) by (auto simp: filter_id_conv)
    then show ?thesis using stk(1) by simp
  qed
  moreover have "represents (st\<lparr>sd_aiMap := ?ai, sd_tree := T\<rparr>) (ys @ zs) (M(a := False))"
    using st1 calculation(1,2) stk unfolding represents_def marks_ok_def by (auto simp: fun_upd_other)
  ultimately show ?thesis using 1 stk represents_at [OF r True] by (auto simp: calcStackDistAndUpdate_def verify_found)
next
  case False
  have "filter (\<lambda>b. b \<noteq> a) stk = stk" using False by (auto simp: filter_id_conv)
  moreover have "(sd_aiMap st)(a := None) = sd_aiMap st" "M(a := False) = M" using represents_none [OF r False] by (auto simp: fun_upd_idem)
  ultimately show ?thesis using r represents_none [OF r False] False by (simp add: calcStackDistAndUpdate_def verify_missing)
qed

lemma inspect_step:
  assumes r: "represents st stk M"
  shows "\<exists>st'. represents st' stk (if a \<in> set stk then M(a := m) else M) \<and> sd_index st' = sd_index st \<and>
    sd_verify st' = sd_verify st \<and> sd_stack st' = sd_stack st \<and>
    calcStackDist a m st =
      (if sd_verify st \<and> fst (verifyStackDist a False (sd_stack st)) \<noteq> fst (verifyStackDist a False stk)
       then Inl (Panic ''Expected stack-distance'') else Inr ((fst (verifyStackDist a False stk), M a), st'))"
proof (cases "a \<in> set stk")
  case True
  obtain ys zs where stk: "stk = ys @ a # zs" "a \<notin> set ys" "a \<notin> set zs" using represents_split [OF r True] .
  let ?f = "position st" let ?L = "set (map ?f stk)"
  obtain D where ok: "calc_ok D ?L st" and so: "sorted_wrt (<) (map ?f stk)" using r by (auto simp: represents_def)
  obtain nd where nd: "(sd_tree st ! 0) (?f a) = Some nd" "isMarked nd = M a"
    using represents_marks [OF r] True by (auto simp: marks_ok_def)
  let ?st = "st\<lparr>sd_tree := (sd_tree st)[0 := (sd_tree st ! 0)(?f a \<mapsto> nd\<lparr>isMarked := m\<rparr>)]\<rparr>"
  have ok2: "calc_ok D ?L ?st" by (rule mark_ok [OF ok nd(1)])
  have len: "0 < length (sd_tree st)" using ok by (simp add: calc_ok_def tree_ok_def)
  have d: "?f b \<noteq> ?f a" if "b \<in> set stk" "b \<noteq> a" for b using so that stk by (auto simp: sorted_wrt_append)
  have "position ?st = ?f" by (auto simp: position_def)
  then have "represents ?st stk (M(a := m))"
    using r ok2 so d len True unfolding represents_def by (auto split: if_splits)
  moreover have "getSumsLeavesToRoot (0, ?f a) ?st = Inr (length zs)"
    using inspect_ok [OF ok2, of "?f a"] position_right [of ?f ys a zs] so stk True by simp
  ultimately show ?thesis using stk True nd len represents_at [OF r True]
    by (intro exI [of _ ?st]) (simp add: calcStackDist_def node_access verify_found)
next
  case False
  then show ?thesis using r represents_none [OF r False] by (intro exI [of _ st]) (simp add: calcStackDist_def verify_missing)
qed

subsection \<open>Sequences of operations\<close>

fun keeps :: "sd_op \<Rightarrow> bool" where
  "keeps (Evict a) = False"
| "keeps x = True"

text \<open>With the self check on, the stack of the class is the one of the reference as long as no address
  is removed.\<close>

definition simulated :: "bool \<Rightarrow> nat \<Rightarrow> stack_dist_calc \<Rightarrow> 64 word list \<times> (64 word \<Rightarrow> bool) \<Rightarrow> bool" where
  "simulated v k st s \<longleftrightarrow>
     represents st (fst s) (snd s) \<and> sd_index st + k \<le> 2 ^ 31 \<and> sd_verify st = v \<and> (v \<longrightarrow> sd_stack st = fst s)"

interpretation sdc: simulation run_sd_op naive_op "\<lambda>x. v \<longrightarrow> keeps x" "simulated v" for v
proof
  fix k st s x
  assume sim: "simulated v (Suc k) st s" and x: "v \<longrightarrow> keeps x"
  obtain stk M where s: "s = (stk, M)" by (cases s)
  have r: "represents st stk M" and n: "sd_index st < 2 ^ 31" "sd_index st + Suc k \<le> 2 ^ 31"
    and v: "sd_verify st = v" "sd_verify st \<longrightarrow> sd_stack st = stk" using sim s by (auto simp: simulated_def)
  show "\<exists>st'. run_sd_op x st = Inr (fst (naive_op x s), st') \<and> simulated v k st' (snd (naive_op x s))"
  proof (cases x)
    case (Access a)
    then show ?thesis using access_step [OF r n(1) v(2), of a] n(2) v s by (auto simp: simulated_def)
  next
    case (Evict a)
    then show ?thesis using evict_step [OF r, of a] n v x s by (auto simp: simulated_def)
  next
    case (Inspect a m)
    obtain st' where "represents st' stk (if a \<in> set stk then M(a := m) else M)" "sd_index st' = sd_index st"
      "sd_verify st' = sd_verify st" "sd_stack st' = sd_stack st"
      "calcStackDist a m st = Inr ((fst (verifyStackDist a False stk), M a), st')"
      using inspect_step [OF r, of a m] v by auto
    then show ?thesis using n(2) v Inspect s by (auto simp: simulated_def)
  qed
qed

lemma simulated_new: "k \<le> 2 ^ 31 \<Longrightarrow> simulated v k (new_calc v) ([], \<lambda>_. False)"
  using represents_new [of v] by (simp add: simulated_def new_calc_def)

lemma naive_keeps:
  "list_all keeps ops \<Longrightarrow> set (fst s) \<union> {a. Access a \<in> set ops} \<subseteq> set (fst (snd (run_spec naive_op ops s)))"
proof (induction ops arbitrary: s)
  case (Cons x ops)
  have "set (fst s) \<union> {a. x = Access a} \<subseteq> set (fst (snd (naive_op x s)))"
    using verify_set Cons.prems by (cases x; cases s) auto
  then show ?case using Cons.IH [of "snd (naive_op x s)"] Cons.prems by (auto simp: split_beta Let_def)
qed simp

lemma represents_length:
  assumes "represents st stk M"
  shows "length stk \<le> sd_index st"
proof -
  obtain D where "calc_ok D (set (map (position st) stk)) st" "sorted_wrt (<) (map (position st) stk)"
    using assms by (auto simp: represents_def)
  then have "set (map (position st) stk) \<subseteq> {..<sd_index st}" "distinct (map (position st) stk)"
    by (auto simp: calc_ok_def strict_sorted_iff)
  then show ?thesis
    using card_mono [of "{..<sd_index st}" "set (map (position st) stk)"] distinct_card [of "map (position st) stk"] by simp
qed

text \<open>C1. The tree of partial sums is equivalent to the naive stack: on every sequence of at most
  \<open>2 ^ 31\<close> accesses, removals and inspections the calculator returns, and its distances and marks are
  those of the search in the list of addresses. With the self check switched on the same holds for
  every sequence without removals, so the check never fails there.\<close>

theorem stack_distance_equivalence:
  assumes "length ops \<le> 2 ^ 31" "v \<longrightarrow> list_all keeps ops"
  shows "\<exists>st. runE run_sd_op ops (new_calc v) = Inr (fst (run_spec naive_op ops ([], \<lambda>_. False)), st)"
proof -
  have "list_all (\<lambda>x. v \<longrightarrow> keeps x) ops" using assms(2) by (cases v) (auto simp: list_all_iff)
  then show ?thesis using sdc.runs [OF simulated_new [of "0 + length ops" v]] assms(1) by auto
qed

theorem stack_distance_equivalence_witness:
  "\<exists>st. runE run_sd_op [Access 0, Access 64, Access 0, Inspect 64 True, Access 64] (new_calc True) =
     Inr ([(Infinity, False), (Infinity, False), (1, False), (1, False), (1, True)], st)"
proof -
  have "fst (run_spec naive_op [Access 0, Access 64, Access 0, Inspect 64 True, Access 64] ([], \<lambda>_. False)) =
      [(Infinity, False), (Infinity, False), (1, False), (1, False), (1, True)]"
    by (simp add: verifyStackDist_def Let_def)
  then show ?thesis
    using stack_distance_equivalence [of "[Access 0, Access 64, Access 0, Inspect 64 True, Access 64]" True] by simp
qed

text \<open>C37. A removal leaves the address on the stack of the self check: after accesses and inspections
  that include the address, removing it succeeds and the next inspection of it ends in the panic of
  the self check, although the distance of the tree is right.\<close>

theorem removal_trips_self_check:
  assumes "length ops < 2 ^ 31" "list_all keeps ops" "Access a \<in> set ops"
  shows "(\<exists>st. runE run_sd_op (ops @ [Evict a]) (new_calc True) = Inr st) \<and>
    runE run_sd_op (ops @ [Evict a, Inspect a m]) (new_calc True) = Inl (Panic ''Expected stack-distance'')"
proof -
  obtain rs stk M where n: "run_spec naive_op ops ([], \<lambda>_. False) = (rs, stk, M)" by (metis prod.exhaust)
  obtain st where "runE run_sd_op ops (new_calc True) = Inr (rs, st)" "simulated True 1 st (stk, M)"
    using sdc.runs [OF simulated_new [of "1 + length ops" True]] assms n by auto
  then have 1: "runE run_sd_op ops (new_calc True) = Inr (rs, st)" "represents st stk M" "sd_index st < 2 ^ 31"
    "sd_verify st" "sd_stack st = stk" by (auto simp: simulated_def)
  have in_stk: "a \<in> set stk" using naive_keeps [OF assms(2), of "([], \<lambda>_. False)"] assms(3) n by auto
  obtain st1 where 2: "calcStackDistAndUpdate a False st = Inr ((fst (verifyStackDist a False stk), M a), st1)"
    "represents st1 (filter (\<lambda>b. b \<noteq> a) stk) (M(a := False))" "sd_verify st1" "sd_stack st1 = stk"
    using evict_step [OF 1(2), of a] 1(3-5) by auto
  obtain ys zs where stk: "stk = ys @ a # zs" "a \<notin> set zs" using represents_split [OF 1(2) in_stk] .
  have "length zs < 2 ^ 31" using represents_length [OF 1(2)] 1(3) stk(1) by simp
  then have "length zs \<noteq> Infinity" by (simp add: Infinity_def)
  moreover have "fst (verifyStackDist a False (filter (\<lambda>b. b \<noteq> a) stk)) = Infinity" by (simp add: verify_missing)
  ultimately have "calcStackDist a m st1 = Inl (Panic ''Expected stack-distance'')"
    using inspect_step [OF 2(2), of a m] 2(3,4) stk by (auto simp: verify_found)
  then show ?thesis using 1(1) 2(1) by (simp add: runE_append)
qed

theorem removal_trips_self_check_witness:
  "runE run_sd_op [Access 64, Evict 64, Inspect 64 False] (new_calc True) = Inl (Panic ''Expected stack-distance'')"
  using removal_trips_self_check [of "[Access 64]" 64 False] by simp

end
