(* ===== verification/StackDist_Probe.thy ===== *)
theory StackDist_Probe
  imports StackDist_Props Packet
begin

text \<open>
  The stack distance probe of \<^verbatim>\<open>mem/probes/stack_dist.{hh,cc}\<close> and the summary of a packet that a
  probe point sends it (\<^verbatim>\<open>sim/probe/mem.hh\<close>). A histogram is the list of the values that were
  sampled, in order; the bins are not modelled.
\<close>

record packet_info =
  pi_cmd :: mem_cmd
  pi_addr :: addr
  pi_size :: "32 word"
  pi_flags :: "32 word"
  pi_pc :: addr

definition new_packet_info :: "packet \<Rightarrow> packet_info result" where
  "new_packet_info pkt =
     ebind (getAddr pkt) (\<lambda>a. ebind (getSize pkt) (\<lambda>sz.
       Inr \<lparr>pi_cmd = pk_cmd pkt, pi_addr = a, pi_size = sz, pi_flags = rq_flags (pk_req pkt),
            pi_pc = if flags_isSet (rq_privateFlags (pk_req pkt)) VALID_PC then rq_pc (pk_req pkt) else 0\<rparr>))"

record stack_dist_probe =
  lineSize :: "32 word"
  disableLinearHists :: bool
  disableLogHists :: bool
  readLinearHist :: "nat list"
  readLogHist :: "nat list"
  writeLinearHist :: "nat list"
  writeLogHist :: "nat list"
  infiniteSD :: nat
  pb_calc :: stack_dist_calc

definition new_probe :: "32 word \<Rightarrow> 32 word \<Rightarrow> bool \<Rightarrow> bool \<Rightarrow> bool \<Rightarrow> stack_dist_probe result" where
  "new_probe cacheLineSize line_size noLinear noLog verify =
     (if cacheLineSize > line_size then Inl (Fatal ''cache line size'')
      else Inr \<lparr>lineSize = line_size, disableLinearHists = noLinear, disableLogHists = noLog,
                readLinearHist = [], readLogHist = [], writeLinearHist = [], writeLogHist = [],
                infiniteSD = 0, pb_calc = new_calc verify\<rparr>)"

definition handleRequest :: "packet_info \<Rightarrow> stack_dist_probe \<Rightarrow> stack_dist_probe result" where
  "handleRequest info pr =
     (if \<not> cmd_isRead (pi_cmd info) \<and> \<not> cmd_isWrite (pi_cmd info) then Inr pr
      else ebind (calcStackDistAndUpdate (roundDown (pi_addr info) (ucast (lineSize pr))) True (pb_calc pr))
        (\<lambda>((sd, _), calc). let pr = pr\<lparr>pb_calc := calc\<rparr> in
         if sd = Infinity then Inr (pr\<lparr>infiniteSD := infiniteSD pr + 1\<rparr>)
         else let pr = (if disableLinearHists pr then pr
                        else if cmd_isRead (pi_cmd info) then pr\<lparr>readLinearHist := readLinearHist pr @ [sd]\<rparr>
                        else pr\<lparr>writeLinearHist := writeLinearHist pr @ [sd]\<rparr>)
         in if disableLogHists pr then Inr pr
            else ebind (if sd = 0 then Inr 1 else floorLog2 (of_nat sd)) (\<lambda>sd_lg2.
              Inr (if cmd_isRead (pi_cmd info) then pr\<lparr>readLogHist := readLogHist pr @ [sd_lg2]\<rparr>
                   else pr\<lparr>writeLogHist := writeLogHist pr @ [sd_lg2]\<rparr>))))"

subsection \<open>The samples of a probe\<close>

definition is_access :: "mem_cmd \<Rightarrow> bool" where
  "is_access c \<longleftrightarrow> cmd_isRead c \<or> cmd_isWrite c"

definition line_addr :: "stack_dist_probe \<Rightarrow> packet_info \<Rightarrow> addr" where
  "line_addr pr info = roundDown (pi_addr info) (ucast (lineSize pr))"

definition linear_samples :: "stack_dist_probe \<Rightarrow> nat list" where
  "linear_samples pr = readLinearHist pr @ writeLinearHist pr"

definition same_config :: "stack_dist_probe \<Rightarrow> stack_dist_probe \<Rightarrow> bool" where
  "same_config pr pr' \<longleftrightarrow> lineSize pr' = lineSize pr \<and> disableLinearHists pr' = disableLinearHists pr"

lemma distance_small:
  assumes "simulated v (Suc k) st (stk, M)" "fst (verifyStackDist a True stk) \<noteq> Infinity"
  shows "fst (verifyStackDist a True stk) < 2 ^ 31"
proof -
  have r: "represents st stk M" and n: "sd_index st < 2 ^ 31" using assms(1) by (auto simp: simulated_def)
  have "a \<in> set stk" using assms(2) verify_missing by fastforce
  then obtain ys zs where stk: "stk = ys @ a # zs" "a \<notin> set zs" using represents_split [OF r] by metis
  have "length zs < 2 ^ 31" using represents_length [OF r] n stk by simp
  then show ?thesis using stk by (simp add: verify_found)
qed

lemma log_sample: "sd < 2 ^ 31 \<Longrightarrow> \<exists>lg. (if sd = 0 then Inr 1 else floorLog2 (of_nat sd)) = Inr lg"
proof (cases "sd = 0")
  case False
  assume "sd < 2 ^ 31"
  then have "unat (of_nat sd :: 64 word) = sd" unfolding unsigned_of_nat by (simp add: take_bit_nat_eq_self)
  then have "(of_nat sd :: 64 word) \<noteq> 0" using False by (metis unsigned_0)
  then show ?thesis using floorLog2_spec False by auto
qed simp

lemma handleRequest_step:
  assumes "simulated v (Suc k) (pb_calc pr) (stk, M)" "is_access (pi_cmd info)"
  shows "\<exists>pr'. handleRequest info pr = Inr pr' \<and> same_config pr pr' \<and>
    simulated v k (pb_calc pr') (snd (naive_op (Access (line_addr pr info)) (stk, M))) \<and>
    (let d = fst (verifyStackDist (line_addr pr info) True stk) in
      infiniteSD pr' = infiniteSD pr + (if d = Infinity then 1 else 0) \<and>
      (\<not> disableLinearHists pr \<longrightarrow> length (filter P (linear_samples pr')) =
         length (filter P (linear_samples pr)) + (if d \<noteq> Infinity \<and> P d then 1 else 0)))"
proof -
  let ?a = "line_addr pr info" let ?d = "fst (verifyStackDist ?a True stk)"
  have sim: "simulated v (Suc k) st s \<Longrightarrow> v \<longrightarrow> keeps x \<Longrightarrow>
      \<exists>st'. run_sd_op x st = Inr (fst (naive_op x s), st') \<and> simulated v k st' (snd (naive_op x s))" for st s x
    by (rule sdc.simulates)
  obtain calc where c: "calcStackDistAndUpdate ?a True (pb_calc pr) = Inr ((?d, M ?a), calc)"
    "simulated v k calc (snd (naive_op (Access ?a) (stk, M)))"
    using sim [OF assms(1), of "Access ?a"] by auto
  show ?thesis
  proof (cases "?d = Infinity")
    case True
    then show ?thesis using c assms(2)
      by (simp add: handleRequest_def line_addr_def [symmetric] is_access_def same_config_def linear_samples_def)
  next
    case False
    obtain lg where "(if ?d = 0 then Inr 1 else floorLog2 (of_nat ?d)) = Inr lg"
      using log_sample [OF distance_small [OF assms(1) False]] by blast
    then show ?thesis using c assms(2) False
      by (auto simp: handleRequest_def line_addr_def [symmetric] is_access_def same_config_def linear_samples_def Let_def)
  qed
qed

definition distances :: "addr list \<Rightarrow> 64 word list \<times> (64 word \<Rightarrow> bool) \<Rightarrow> nat list" where
  "distances as s = map fst (fst (run_spec naive_op (map Access as) s))"

lemma distances_simps [simp]:
  "distances [] s = []"
  "distances (a # as) (stk, M) =
     fst (verifyStackDist a True stk) # distances as (snd (verifyStackDist a True stk), M(a := False))"
  by (simp_all add: distances_def split_beta Let_def)

lemma handleRequests:
  assumes "simulated v (length xs) (pb_calc pr) s" "list_all (\<lambda>i. is_access (pi_cmd i)) xs"
    "\<not> disableLinearHists pr"
  shows "\<exists>pr'. foldE handleRequest xs pr = Inr pr' \<and>
    infiniteSD pr' = infiniteSD pr + length (filter (\<lambda>d. d = Infinity) (distances (map (line_addr pr) xs) s)) \<and>
    length (filter P (linear_samples pr')) = length (filter P (linear_samples pr)) +
      length (filter (\<lambda>d. d \<noteq> Infinity \<and> P d) (distances (map (line_addr pr) xs) s))"
  using assms
proof (induction xs arbitrary: pr s)
  case (Cons i xs)
  obtain stk M where s: "s = (stk, M)" by (cases s)
  let ?a = "line_addr pr i" let ?s = "(snd (verifyStackDist ?a True stk), M(?a := False))"
  let ?d = "fst (verifyStackDist ?a True stk)"
  have sim: "simulated v (Suc (length xs)) (pb_calc pr) (stk, M)" "is_access (pi_cmd i)"
    using Cons.prems(1,2) s by simp_all
  obtain pr1 where 1: "handleRequest i pr = Inr pr1" "same_config pr pr1" "simulated v (length xs) (pb_calc pr1) ?s"
    "infiniteSD pr1 = infiniteSD pr + (if ?d = Infinity then 1 else 0)"
    "length (filter P (linear_samples pr1)) =
       length (filter P (linear_samples pr)) + (if ?d \<noteq> Infinity \<and> P ?d then 1 else 0)"
    using handleRequest_step [OF sim, of P] Cons.prems(3) by (auto simp: Let_def)
  have "line_addr pr1 = line_addr pr" "\<not> disableLinearHists pr1"
    using 1(2) Cons.prems(3) by (auto simp: same_config_def line_addr_def)
  then show ?case using Cons.IH [OF 1(3)] Cons.prems(2) 1 s by auto
qed simp

end
