(* ===== verification/LRU_Stack.thy ===== *)
theory LRU_Stack
  imports Tags_Props StackDist_Probe
begin

text \<open>
  Tags with least-recently-used replacement against stacks of addresses. A cache that looks a
  request up and fills the victim on a miss holds in each set, most recent first, the top of the
  stack of the blocks of the set; a request hits exactly if the distance of its block in that stack is
  below the associativity.
\<close>

subsection \<open>A reference to the cache\<close>

text \<open>The calls on the tags of \<^verbatim>\<open>Cache::access\<close> and, after a miss, of \<^verbatim>\<open>Cache::allocateBlock\<close> and
  \<^verbatim>\<open>Cache::handleFill\<close> with the response of the memory, at the same tick.\<close>

type_synonym reference = "tick \<times> packet"

abbreviation ref_addr :: "reference \<Rightarrow> addr" where
  "ref_addr r \<equiv> pk_addr (snd r)"

definition fill_status :: "packet \<Rightarrow> cache_blk \<Rightarrow> cache_blk" where
  "fill_status pkt b = b\<lparr>status := status b OR (if pk_isSecure pkt then BlkSecure else 0) OR (BlkValid OR BlkReadable)\<rparr>"

definition cache_ref :: "nat \<Rightarrow> (tick \<Rightarrow> 64 word) \<Rightarrow> reference \<Rightarrow> tags \<Rightarrow> (bool \<times> tags) result" where
  "cache_ref mm t2c r t =
     ebind (getAddr (snd r)) (\<lambda>a.
     ebind (lru_accessBlock t2c (fst r) a (pk_isSecure (snd r)) t) (\<lambda>(blk, lat, t1).
       case blk of
         Some p \<Rightarrow> Inr (True, t1)
       | None \<Rightarrow>
           (case lru_findVictim a t1 of
              None \<Rightarrow> Inr (False, t1)
            | Some v \<Rightarrow> ebind (lru_insertBlock mm (fst r) (snd r) v t1) (\<lambda>t2.
                Inr (False, upd_blk v (fill_status (snd r)) t2)))))"

definition plain_ref :: "nat \<Rightarrow> reference \<Rightarrow> bool" where
  "plain_ref mm r \<longleftrightarrow> getAddr (snd r) = Inr (pk_addr (snd r)) \<and> \<not> pk_isSecure (snd r) \<and>
     unat (rq_masterId (pk_req (snd r))) < mm"

subsection \<open>Lines of a set\<close>

definition line :: "cache_blk \<Rightarrow> addr option" where
  "line b = (if blk_isValid b then Some (blk_tag b) else None)"

definition contents :: "tags \<Rightarrow> nat \<Rightarrow> addr option list" where
  "contents t s = map (\<lambda>p. line (blk_at t p)) (sets t ! s)"

text \<open>The top of a stack of tags in a set of \<open>n\<close> ways.\<close>

definition stack_top :: "nat \<Rightarrow> addr list \<Rightarrow> addr option list" where
  "stack_top n T = map Some (take n T) @ replicate (n - length T) None"

lemma top_hit_iff: "Some g \<in> set (stack_top n T) \<longleftrightarrow> g \<in> set (take n T)"
  by (auto simp: stack_top_def)

lemma top_length [simp]: "length (stack_top n T) = n"
  by (simp add: stack_top_def)

lemma remove1_map_Some: "remove1 (Some g) (map Some xs) = map Some (remove1 g xs)"
  by (induction xs) auto

lemma take_remove1: "g \<in> set (take (Suc n) xs) \<Longrightarrow> remove1 g (take (Suc n) xs) = take n (remove1 g xs)"
proof (induction xs arbitrary: n)
  case (Cons x xs)
  then show ?case by (cases n) auto
qed simp

lemma take_remove1_beyond: "g \<notin> set (take (Suc n) xs) \<Longrightarrow> take n (remove1 g xs) = take n xs"
proof (induction xs arbitrary: n)
  case (Cons x xs)
  then show ?case by (cases n) auto
qed simp

lemma top_hit:
  assumes "g \<in> set (take n T)"
  shows "Some g # remove1 (Some g) (stack_top n T) = stack_top n (g # remove1 g T)"
proof -
  obtain k where n: "n = Suc k" using assms by (cases n) auto
  have g: "g \<in> set T" using assms by (meson in_set_takeD)
  then have "length (remove1 g T) = length T - 1" "0 < length T" by (auto simp: length_remove1)
  moreover have "remove1 (Some g) (stack_top n T) = map Some (remove1 g (take n T)) @ replicate (n - length T) None"
    using assms by (simp add: stack_top_def remove1_append remove1_map_Some)
  ultimately show ?thesis using take_remove1 [of g k T] assms n by (simp add: stack_top_def)
qed

lemma butlast_top: "butlast (stack_top (Suc k) T) = map Some (take k T) @ replicate (k - length T) None"
proof (cases "length T < Suc k")
  case True
  then have "Suc k - length T = Suc (k - length T)" by simp
  then show ?thesis using True by (simp add: stack_top_def butlast_append flip: replicate_append_same)
next
  case False
  then show ?thesis by (simp add: stack_top_def butlast_take flip: map_butlast)
qed

lemma top_miss:
  assumes "g \<notin> set (take n T)" "0 < n"
  shows "Some g # butlast (stack_top n T) = stack_top n (g # remove1 g T)"
proof -
  obtain k where n: "n = Suc k" using assms(2) by (cases n) auto
  have "k - length (remove1 g T) = k - length T"
  proof (cases "g \<in> set T")
    case True
    have "k < length T"
    proof (rule ccontr)
      assume "\<not> k < length T"
      then show False using True assms(1) n by simp
    qed
    then show ?thesis using True by (simp add: length_remove1)
  qed (simp add: remove1_idem)
  then show ?thesis using butlast_top [of k T] take_remove1_beyond [of g k T] assms(1) n by (simp add: stack_top_def)
qed

subsection \<open>What a reference does to the lines\<close>

definition plain_tags :: "nat \<Rightarrow> tags \<Rightarrow> bool" where
  "plain_tags mm t \<longleftrightarrow> allocAssoc t = assoc t \<and> (\<forall>p < length (blks t).
     \<not> blk_isSecure (blk_at t p) \<and> (blk_isValid (blk_at t p) \<longrightarrow> unat (srcMasterId (blk_at t p)) < mm))"

lemma findBlk_first:
  assumes "\<forall>p \<in> set ps. \<not> blk_isSecure (bs ! p)"
  shows "case fst (findBlk bs g False ps) of
      None \<Rightarrow> Some g \<notin> set (map (\<lambda>p. line (bs ! p)) ps)
    | Some p \<Rightarrow> line (bs ! p) = Some g \<and>
        map (\<lambda>p. line (bs ! p)) (remove1 p ps) = remove1 (Some g) (map (\<lambda>p. line (bs ! p)) ps)"
  using assms
proof (induction ps)
  case (Cons q ps)
  then show ?case by (auto simp: line_def split: option.splits prod.splits if_splits)
qed simp

text \<open>An operation that keeps what the lookup sees of the blocks.\<close>

definition same_lines :: "tags \<Rightarrow> tags \<Rightarrow> bool" where
  "same_lines t t' \<longleftrightarrow> length (blks t') = length (blks t) \<and> (\<forall>p < length (blks t).
     status (blk_at t' p) = status (blk_at t p) \<and> blk_tag (blk_at t' p) = blk_tag (blk_at t p) \<and>
     srcMasterId (blk_at t' p) = srcMasterId (blk_at t p))"

lemma same_lines_line: "same_lines t t' \<Longrightarrow> p < length (blks t) \<Longrightarrow> line (blk_at t' p) = line (blk_at t p)"
  by (simp add: same_lines_def line_def blk_isValid_def)

lemma nth_upd: "p < length xs \<Longrightarrow> xs[i := y] ! p = (if i = p then y else xs ! p)"
  by (cases "i = p") auto

lemma access_lines:
  assumes "lru_accessBlock t2c now a sec t = Inr (r, lat, t')"
  shows "same_lines t t'"
proof -
  have "same_lines t (snd (snd (base_accessBlock t2c now a sec t)))"
    by (auto simp: base_accessBlock_def Let_def same_lines_def upd_blk_def nth_upd split: option.splits)
  then show ?thesis using assms
    by (auto simp: lru_accessBlock_def Let_def upd_set_def result_iffs same_lines_def split: prod.splits option.splits if_splits)
qed

lemma insert_lines:
  assumes "plain_tags mm t" "v < length (blks t)" "getAddr pkt = Inr a" "unat (rq_masterId (pk_req pkt)) < mm"
  shows "\<exists>t'. base_insertBlock mm now pkt v t = Inr t' \<and> blk_tag (blk_at t' v) = extractTag t a \<and>
    (\<forall>p < length (blks t). p \<noteq> v \<longrightarrow> blk_at t' p = blk_at t p) \<and> srcMasterId (blk_at t' v) = rq_masterId (pk_req pkt) \<and>
    \<not> blk_isSecure (blk_at t' v)"
  using assms
  by (auto simp: base_insertBlock_def Let_def upd_blk_def plain_tags_def blk_invalidate_def blk_isValid_def
      blk_isSecure_def extractTag_def)

lemma fill_line:
  assumes "\<not> pk_isSecure pkt"
  shows "line (fill_status pkt b) = Some (blk_tag b)" "blk_isSecure (fill_status pkt b) = blk_isSecure b"
proof -
  have "BlkSecure AND BlkValid = 0" "BlkReadable AND BlkSecure = 0" "BlkValid AND BlkValid = BlkValid" "BlkValid \<noteq> 0"
    by (simp_all add: blk_status_bits)
  then show "line (fill_status pkt b) = Some (blk_tag b)" "blk_isSecure (fill_status pkt b) = blk_isSecure b"
    using assms
    by (simp_all add: line_def fill_status_def blk_isValid_def blk_isSecure_def bit.conj_disj_distrib2)
      (auto simp: and.commute)
qed

lemma victim_last:
  assumes "tags_ok t" "geom t b n" "allocAssoc t = assoc t"
  shows "lru_findVictim a t = Some (last (sets t ! extractSet t a)) \<and> sets t ! extractSet t a \<noteq> []"
proof -
  let ?ps = "sets t ! extractSet t a"
  note L = extractSet_less [OF assms(2), of a]
  have ne: "?ps \<noteq> []" using assms(1) L by (auto simp: tags_ok_def)
  have "way (blk_at t p) < int (allocAssoc t)" if "p \<in> set ?ps" for p
    using tags_ok_set_member(1) [OF assms(1) L that] assms(1,3) by (simp add: tags_ok_def)
  then show ?thesis using ne by (cases ?ps rule: rev_cases) (auto simp: lru_findVictim_def)
qed

lemma remove1_last: "distinct ps \<Longrightarrow> ps \<noteq> [] \<Longrightarrow> remove1 (last ps) ps = butlast ps"
  by (cases ps rule: rev_cases) (auto simp: remove1_append)

text \<open>A hit moves the line to the front, a miss puts it there in place of the last one.\<close>

definition line_moved :: "tags \<Rightarrow> addr \<Rightarrow> tags \<Rightarrow> bool" where
  "line_moved t a t' \<longleftrightarrow> (\<forall>s < numSets t. contents t' s =
     (if s \<noteq> extractSet t a then contents t s
      else Some (extractTag t a) # (if Some (extractTag t a) \<in> set (contents t s)
        then remove1 (Some (extractTag t a)) (contents t s) else butlast (contents t s))))"

lemma lines_in_set:
  assumes "tags_ok t" "s < numSets t" "\<forall>p < length (blks t). line (blk_at t' p) = line (blk_at t p)" "set ps \<subseteq> set (sets t ! s)"
  shows "map (\<lambda>p. line (blk_at t' p)) ps = map (\<lambda>p. line (blk_at t p)) ps"
  using tags_ok_set_member(1) [OF assms(1,2)] assms(3,4) by auto

lemma findBlock_lines:
  assumes "tags_ok t" "geom t b n" "plain_tags mm t"
  shows "case findBlock t a False of
      None \<Rightarrow> Some (extractTag t a) \<notin> set (contents t (extractSet t a))
    | Some p \<Rightarrow> line (blk_at t p) = Some (extractTag t a) \<and> Some (extractTag t a) \<in> set (contents t (extractSet t a)) \<and>
        map (\<lambda>p. line (blk_at t p)) (remove1 p (sets t ! extractSet t a)) =
        remove1 (Some (extractTag t a)) (contents t (extractSet t a))"
proof -
  let ?ps = "sets t ! extractSet t a"
  have "\<forall>p \<in> set ?ps. \<not> blk_isSecure (blk_at t p)"
    using tags_ok_set_member(1) [OF assms(1) extractSet_less [OF assms(2)]] assms(3) by (auto simp: plain_tags_def)
  note F = findBlk_first [OF this, of "extractTag t a"]
  show ?thesis
  proof (cases "findBlock t a False")
    case (Some p)
    moreover have "line (blk_at t p) \<in> set (contents t (extractSet t a))"
      using findBlock_Some(1) [OF Some assms(1,2)] by (simp add: contents_def)
    ultimately show ?thesis using F by (simp add: findBlock_def contents_def)
  qed (use F in \<open>simp add: findBlock_def contents_def\<close>)
qed

lemma access_hit:
  assumes "tags_ok t" "geom t b n" "plain_tags mm t" "findBlock t a False = Some p"
  shows "\<exists>lat t'. lru_accessBlock t2c now a False t = Inr (Some p, lat, t') \<and> tags_ok t' \<and> geom t' b n \<and>
    assoc t' = assoc t \<and> plain_tags mm t' \<and> line_moved t a t'"
proof -
  let ?s = "extractSet t a"
  obtain lat t' where t': "lru_accessBlock t2c now a False t = Inr (Some p, lat, t')" "tags_ok t'" "geom t' b n"
    "reordered ?s (p # remove1 p (sets t ! ?s)) t t'"
    using lru_access_cases [OF assms(1,2), of t2c now a False] assms(4) by auto
  note lines = access_lines [OF t'(1)]
  note P = findBlock_Some [OF assms(4,1,2)] and L = extractSet_less [OF assms(2), of a]
  have r: "sets t' = (sets t)[?s := p # remove1 p (sets t ! ?s)]" "allocAssoc t' = allocAssoc t" "assoc t' = assoc t"
    using t'(4) by (auto simp: reordered_def same_shape_def)
  have len: "length (sets t) = numSets t" using assms(1) by (simp add: tags_ok_def)
  have "set (p # remove1 p (sets t ! ?s)) \<subseteq> set (sets t ! ?s)" using P(1) set_remove1_subset by fastforce
  then have "contents t' ?s = map (\<lambda>p. line (blk_at t p)) (p # remove1 p (sets t ! ?s))"
    using lines_in_set [OF assms(1) L, of t' "p # remove1 p (sets t ! ?s)"] same_lines_line [OF lines] r(1) L len
    by (simp add: contents_def)
  moreover have "contents t' s = contents t s" if "s < numSets t" "s \<noteq> ?s" for s
    using lines_in_set [OF assms(1) that(1), of t' "sets t ! s"] same_lines_line [OF lines] r(1) that
    by (simp add: contents_def)
  ultimately have "line_moved t a t'" using findBlock_lines [OF assms(1-3), of a] assms(4) by (simp add: line_moved_def)
  moreover have "plain_tags mm t'" using assms(3) lines r(2,3)
    by (simp add: plain_tags_def same_lines_def blk_isValid_def blk_isSecure_def)
  ultimately show ?thesis using t' r(3) by blast
qed

lemma placed_line:
  assumes "tags_ok t" "geom t b n" "plain_tags mm t" "Some (extractTag t a) \<notin> set (contents t (extractSet t a))"
    "v = last (sets t ! extractSet t a)" "sets t ! extractSet t a \<noteq> []"
    "sets t' = (sets t)[extractSet t a := v # butlast (sets t ! extractSet t a)]"
    "assoc t' = assoc t" "allocAssoc t' = allocAssoc t" "length (blks t') = length (blks t)"
    and at: "\<forall>p < length (blks t). blk_at t' p = (if p = v then c else blk_at t p)"
    and c: "line c = Some (extractTag t a)" "\<not> blk_isSecure c" "unat (srcMasterId c) < mm"
  shows "plain_tags mm t' \<and> line_moved t a t'"
proof
  let ?s = "extractSet t a" let ?ps = "sets t ! extractSet t a"
  show "plain_tags mm t'" using assms(3,8-10) at c by (simp add: plain_tags_def)
  note L = extractSet_less [OF assms(2), of a] and D = tags_ok_distinct [OF assms(1) extractSet_less [OF assms(2)], of a]
  have len: "length (sets t) = numSets t" using assms(1) by (simp add: tags_ok_def)
  have vin: "v \<in> set ?ps" "v \<notin> set (butlast ?ps)" using assms(5,6) D by (cases ?ps rule: rev_cases; auto)+
  have "line (blk_at t' p) = line (blk_at t p)" if "p \<in> set (butlast ?ps)" for p
    using at vin(2) that tags_ok_set_member(1) [OF assms(1) L in_set_butlastD [OF that]] by auto
  then have here: "contents t' ?s = Some (extractTag t a) # butlast (contents t ?s)"
    using at c(1) tags_ok_set_member(1) [OF assms(1) L vin(1)] assms(7) L len by (simp add: contents_def flip: map_butlast)
  have "contents t' s = contents t s" if s: "s < numSets t" "s \<noteq> ?s" for s
  proof -
    have "line (blk_at t' p) = line (blk_at t p)" if "p \<in> set (sets t ! s)" for p
      using at tags_ok_set_member [OF assms(1) s(1) that] tags_ok_set_member(2) [OF assms(1) L vin(1)] s(2) by auto
    then show ?thesis using assms(7) s by (simp add: contents_def)
  qed
  then show "line_moved t a t'" using here assms(4) by (simp add: line_moved_def)
qed

lemma fill_miss:
  assumes "tags_ok t" "geom t b n" "plain_tags mm t" "plain_ref mm r"
    "Some (extractTag t (ref_addr r)) \<notin> set (contents t (extractSet t (ref_addr r)))"
  shows "\<exists>v t2. lru_findVictim (ref_addr r) t = Some v \<and> lru_insertBlock mm (fst r) (snd r) v t = Inr t2 \<and>
    (let t' = upd_blk v (fill_status (snd r)) t2 in tags_ok t' \<and> geom t' b n \<and> assoc t' = assoc t \<and>
       plain_tags mm t' \<and> line_moved t (ref_addr r) t')"
proof -
  let ?a = "ref_addr r" let ?s = "extractSet t ?a" let ?v = "last (sets t ! ?s)"
  have pr: "getAddr (snd r) = Inr ?a" "unat (rq_masterId (pk_req (snd r))) < mm" "\<not> pk_isSecure (snd r)"
    using assms(4) by (auto simp: plain_ref_def)
  note L = extractSet_less [OF assms(2), of ?a]
  have v: "lru_findVictim ?a t = Some ?v" "sets t ! ?s \<noteq> []"
    using victim_last [OF assms(1,2)] assms(3) by (auto simp: plain_tags_def)
  then have vin: "?v \<in> set (sets t ! ?s)" by simp
  note vlen = tags_ok_set_member(1) [OF assms(1) L vin] and D = tags_ok_distinct [OF assms(1) L]
  obtain t1 where t1: "base_insertBlock mm (fst r) (snd r) ?v t = Inr t1" "blk_tag (blk_at t1 ?v) = extractTag t ?a"
    "\<forall>p < length (blks t). p \<noteq> ?v \<longrightarrow> blk_at t1 p = blk_at t p" "srcMasterId (blk_at t1 ?v) = rq_masterId (pk_req (snd r))"
    "\<not> blk_isSecure (blk_at t1 ?v)"
    using insert_lines [OF assms(3) vlen pr(1,2)] by blast
  note ss = base_shapes(3) [OF t1(1)]
  define t2 where "t2 = t1\<lparr>sets := (sets t)[?s := ?v # butlast (sets t ! ?s)]\<rparr>"
  define t' where "t' = upd_blk ?v (fill_status (snd r)) t2"
  have m: "upd_set ?s (moveToHead ?v) t1 = Inr t2" "tags_ok t2" "reordered ?s (?v # butlast (sets t ! ?s)) t t2"
    using move_shape [where f = "moveToHead ?v", OF ss assms(1) L moveToHead_eq [OF vin] move_perm(1,2) [OF vin D]]
      remove1_last [OF D v(2)] by (simp_all add: t2_def)
  have ins: "lru_insertBlock mm (fst r) (snd r) ?v t = Inr t2"
    using t1(1) m(1) pr(1) same_shape_extract(1) [OF ss] by (simp add: lru_insertBlock_def)
  have ss2: "same_shape t2 t'" by (simp add: t'_def keeps_place_def fill_status_def)
  have sh: "tags_ok t'" "geom t' b n" "sets t' = (sets t)[?s := ?v # butlast (sets t ! ?s)]" "assoc t' = assoc t"
    "allocAssoc t' = allocAssoc t" "length (blks t') = length (blks t)"
    using same_shape_ok [OF ss2 m(2)] same_shape_geom [OF ss2] reordered_geom [OF m(3)] assms(2) m(3) ss2
      same_shape_length [OF ss] same_shape_length [OF ss2]
    by (auto simp: reordered_def same_shape_def t2_def)
  have at: "blk_at t' p = (if p = ?v then fill_status (snd r) (blk_at t1 p) else blk_at t p)" if "p < length (blks t)" for p
    using that t1(3) same_shape_length [OF ss] by (simp add: t'_def t2_def upd_blk_def nth_upd)
  then have "\<forall>p < length (blks t). blk_at t' p = (if p = ?v then fill_status (snd r) (blk_at t1 ?v) else blk_at t p)" by simp
  from placed_line [OF assms(1-3,5) refl v(2) sh(3-6) this] have "plain_tags mm t' \<and> line_moved t ?a t'"
    using t1(2,4,5) fill_line [OF pr(3)] pr(2) by (simp add: fill_status_def)
  then show ?thesis using v(1) ins sh by (auto simp: t'_def [symmetric])
qed

lemma cache_ref_step:
  assumes "tags_ok t" "geom t b n" "plain_tags mm t" "plain_ref mm r"
  shows "\<exists>t'. cache_ref mm t2c r t =
      Inr (Some (extractTag t (ref_addr r)) \<in> set (contents t (extractSet t (ref_addr r))), t') \<and>
    tags_ok t' \<and> geom t' b n \<and> assoc t' = assoc t \<and> plain_tags mm t' \<and> line_moved t (ref_addr r) t'"
proof -
  let ?a = "ref_addr r"
  have pr: "getAddr (snd r) = Inr ?a" "\<not> pk_isSecure (snd r)" using assms(4) by (auto simp: plain_ref_def)
  note F = findBlock_lines [OF assms(1-3), of ?a]
  show ?thesis
  proof (cases "findBlock t ?a False")
    case (Some p)
    then show ?thesis using access_hit [OF assms(1-3) Some, of t2c "fst r"] F pr by (auto simp: cache_ref_def)
  next
    case None
    obtain lat t1 where t1: "lru_accessBlock t2c (fst r) ?a False t = Inr (None, lat, t1)" "tags_ok t1" "geom t1 b n" "same_shape t t1"
      using lru_access_cases [OF assms(1,2), of t2c "fst r" ?a False] None by auto
    note lines = access_lines [OF t1(1)]
    have e: "extractTag t1 ?a = extractTag t ?a" "extractSet t1 ?a = extractSet t ?a" "assoc t1 = assoc t" "numSets t1 = numSets t"
      using same_shape_extract [OF t1(4)] t1(4) by (auto simp: same_shape_def)
    have c: "contents t1 s = contents t s" if "s < numSets t" for s
      using lines_in_set [OF assms(1) that, of t1 "sets t ! s"] same_lines_line [OF lines] t1(4)
      by (simp add: contents_def same_shape_def)
    have pl: "plain_tags mm t1" using assms(3) lines t1(4)
      by (simp add: plain_tags_def same_lines_def blk_isValid_def blk_isSecure_def same_shape_def)
    have miss: "Some (extractTag t1 ?a) \<notin> set (contents t1 (extractSet t1 ?a))"
      using F None c [OF extractSet_less [OF assms(2)]] e by simp
    obtain v t2 where v: "lru_findVictim ?a t1 = Some v" "lru_insertBlock mm (fst r) (snd r) v t1 = Inr t2"
      "let t' = upd_blk v (fill_status (snd r)) t2 in tags_ok t' \<and> geom t' b n \<and> assoc t' = assoc t1 \<and>
         plain_tags mm t' \<and> line_moved t1 ?a t'"
      using fill_miss [OF t1(2,3) pl assms(4) miss] by blast
    have "line_moved t1 ?a t' \<Longrightarrow> line_moved t ?a t'" for t' using c e by (simp add: line_moved_def)
    then show ?thesis using v t1(1) pr e miss c [OF extractSet_less [OF assms(2), of ?a]] by (auto simp: cache_ref_def Let_def)
  qed
qed

subsection \<open>One stack for each set\<close>

definition stack_ref :: "tags \<Rightarrow> reference \<Rightarrow> (nat \<Rightarrow> addr list) \<Rightarrow> bool \<times> (nat \<Rightarrow> addr list)" where
  "stack_ref t0 r S =
     (let s = extractSet t0 (ref_addr r); d = verifyStackDist (blkAlign t0 (ref_addr r)) True (S s)
      in (fst d < assoc t0, S(s := snd d)))"

definition stack_ok :: "tags \<Rightarrow> nat \<Rightarrow> addr list \<Rightarrow> bool" where
  "stack_ok t0 s stk \<longleftrightarrow> distinct stk \<and> (\<forall>a \<in> set stk. blkAlign t0 a = a \<and> extractSet t0 a = s)"

definition tags_of :: "tags \<Rightarrow> addr list \<Rightarrow> addr list" where
  "tags_of t0 stk = map (extractTag t0) (rev stk)"

definition tracks :: "nat \<Rightarrow> tags \<Rightarrow> nat \<Rightarrow> tags \<Rightarrow> (nat \<Rightarrow> addr list) \<Rightarrow> bool" where
  "tracks mm t0 k t S \<longleftrightarrow> tags_ok t \<and> (\<exists>b n. geom t b n \<and> geom t0 b n) \<and> plain_tags mm t \<and>
     assoc t = assoc t0 \<and> assoc t0 < 2 ^ 32 \<and>
     (\<forall>s < numSets t0. stack_ok t0 s (S s) \<and> contents t s = stack_top (assoc t0) (tags_of t0 (S s)))"

lemma in_take: "g \<notin> set xs \<Longrightarrow> g \<in> set (take k (xs @ g # ys)) \<longleftrightarrow> length xs < k"
  by (cases "k - length xs") (auto dest: in_set_takeD)

lemma stack_step:
  assumes g: "geom t0 b n" and ok: "stack_ok t0 (extractSet t0 x) stk" and N: "N < 2 ^ 32"
  defines "d \<equiv> verifyStackDist (blkAlign t0 x) True stk"
  shows "(fst d < N \<longleftrightarrow> extractTag t0 x \<in> set (take N (tags_of t0 stk))) \<and>
    tags_of t0 (snd d) = extractTag t0 x # remove1 (extractTag t0 x) (tags_of t0 stk) \<and>
    stack_ok t0 (extractSet t0 x) (snd d)"
proof -
  let ?a = "blkAlign t0 x" let ?g = "extractTag t0 x"
  have a: "extractTag t0 ?a = ?g" "extractSet t0 ?a = extractSet t0 x" "blkAlign t0 ?a = ?a"
    using extract_align [OF g] regenerate_addr [OF g] by metis+
  have in_iff: "?g \<in> extractTag t0 ` set xs \<longleftrightarrow> ?a \<in> set xs" if "set xs \<subseteq> set stk" for xs
  proof
    assume "?g \<in> extractTag t0 ` set xs"
    then obtain c where c: "c \<in> set xs" "extractTag t0 c = ?g" by auto
    then have "blkAlign t0 c = c" "extractSet t0 c = extractSet t0 x" using ok that by (auto simp: stack_ok_def)
    then show "?a \<in> set xs" using c regenerate_addr [OF g, of c] regenerate_addr [OF g, of x] by simp
  qed (metis a(1) image_eqI)
  show ?thesis
  proof (cases "?a \<in> set stk")
    case True
    then obtain ys zs where stk: "stk = ys @ ?a # zs" by (meson split_list)
    then have na: "?a \<notin> set ys" "?a \<notin> set zs" using ok by (auto simp: stack_ok_def)
    then have ng: "?g \<notin> extractTag t0 ` set ys" "?g \<notin> extractTag t0 ` set zs" using in_iff stk by auto
    have d: "d = (length zs, ys @ zs @ [?a])" unfolding d_def stk verify_found [OF na(2)] by simp
    have "tags_of t0 stk = map (extractTag t0) (rev zs) @ ?g # map (extractTag t0) (rev ys)"
      using stk a(1) by (simp add: tags_of_def)
    then show ?thesis using d ng in_take [of ?g "map (extractTag t0) (rev zs)" N] ok stk a
      by (auto simp: tags_of_def remove1_append stack_ok_def)
  next
    case False
    then have ng: "?g \<notin> set (tags_of t0 stk)" using in_iff [of stk] by (simp add: tags_of_def)
    moreover have "d = (Infinity, stk @ [?a])" using False by (simp add: d_def verify_missing)
    moreover have "\<not> Infinity < N" using N by (simp add: Infinity_def)
    ultimately show ?thesis using ok False a by (auto simp: tags_of_def remove1_idem stack_ok_def dest: in_set_takeD)
  qed
qed

lemma geom_extract:
  assumes "geom t b n" "geom t0 b n"
  shows "extractTag t a = extractTag t0 a" "extractSet t a = extractSet t0 a" "numSets t = numSets t0"
  using assms by (simp_all add: extractTag_def extractSet_def geom_def)

lemma tracks_step:
  assumes "tracks mm t0 k t S" "plain_ref mm r"
  shows "\<exists>t'. cache_ref mm t2c r t = Inr (fst (stack_ref t0 r S), t') \<and> tracks mm t0 k' t' (snd (stack_ref t0 r S))"
proof -
  obtain b n where t: "tags_ok t" "geom t b n" "geom t0 b n" "plain_tags mm t" "assoc t = assoc t0" "assoc t0 < 2 ^ 32"
    and S: "\<And>s. s < numSets t0 \<Longrightarrow> stack_ok t0 s (S s) \<and> contents t s = stack_top (assoc t0) (tags_of t0 (S s))"
    using assms(1) by (auto simp: tracks_def)
  let ?x = "ref_addr r" let ?s = "extractSet t0 (ref_addr r)" let ?g = "extractTag t0 (ref_addr r)"
  define d where "d = verifyStackDist (blkAlign t0 ?x) True (S ?s)"
  note E = geom_extract [OF t(2,3)] and L = extractSet_less [OF t(3), of ?x]
  obtain t' where t': "cache_ref mm t2c r t = Inr (Some ?g \<in> set (contents t ?s), t')" "tags_ok t'" "geom t' b n"
    "assoc t' = assoc t" "plain_tags mm t'" "line_moved t ?x t'"
    using cache_ref_step [OF t(1,2,4) assms(2), of t2c] E by auto
  have D: "fst d < assoc t0 \<longleftrightarrow> ?g \<in> set (take (assoc t0) (tags_of t0 (S ?s)))"
    "tags_of t0 (snd d) = ?g # remove1 ?g (tags_of t0 (S ?s))" "stack_ok t0 ?s (snd d)"
    using stack_step [OF t(3) conjunct1 [OF S [OF L]] t(6)] by (simp_all add: d_def)
  have "0 < assoc t0" using t(1,5) by (simp add: tags_ok_def)
  then have "contents t' ?s = stack_top (assoc t0) (tags_of t0 (snd d))"
    using t'(6) S [OF L] L D(2) top_hit [of ?g "assoc t0"] top_miss [of ?g "assoc t0"]
    by (simp add: line_moved_def E top_hit_iff)
  moreover have "contents t' s = contents t s" if "s < numSets t0" "s \<noteq> ?s" for s
    using t'(6) that by (simp add: line_moved_def E)
  ultimately have "tracks mm t0 k' t' (S(?s := snd d))" using t t' S D(3) by (auto simp: tracks_def)
  then show ?thesis using t'(1) D(1) S [OF L] by (simp add: stack_ref_def d_def [symmetric] Let_def top_hit_iff)
qed

interpretation lrus: simulation "cache_ref mm t2c" "stack_ref t0" "plain_ref mm" "tracks mm t0" for mm t2c t0
  by unfold_locales (rule tracks_step)

subsection \<open>Distances of a trace\<close>

definition in_set :: "tags \<Rightarrow> nat \<Rightarrow> reference \<Rightarrow> bool" where
  "in_set t0 s r \<longleftrightarrow> extractSet t0 (ref_addr r) = s"

definition block_trace :: "tags \<Rightarrow> reference list \<Rightarrow> addr list" where
  "block_trace t0 refs = map (\<lambda>r. blkAlign t0 (ref_addr r)) refs"

lemma stack_hits:
  "map snd (filter (\<lambda>(r, h). in_set t0 s r) (zip refs (fst (run_spec (stack_ref t0) refs S)))) =
   map (\<lambda>d. d < assoc t0) (distances (block_trace t0 (filter (in_set t0 s) refs)) (S s, M))"
proof (induction refs arbitrary: S M)
  case (Cons r refs)
  let ?S = "snd (stack_ref t0 r S)"
  have "in_set t0 s r \<Longrightarrow> ?S s = snd (verifyStackDist (blkAlign t0 (ref_addr r)) True (S s))"
    "\<not> in_set t0 s r \<Longrightarrow> ?S s = S s"
    "in_set t0 s r \<Longrightarrow> fst (stack_ref t0 r S) = (fst (verifyStackDist (blkAlign t0 (ref_addr r)) True (S s)) < assoc t0)"
    by (auto simp: stack_ref_def in_set_def Let_def)
  then show ?case using Cons.IH [of ?S]
    by (cases "in_set t0 s r") (simp_all add: split_beta Let_def block_trace_def)
qed (simp add: block_trace_def)

lemma tracks_new:
  assumes "new_tags cap blkSize asc lat sq = Inr t" "cap < 2 ^ 32" "blkSize < 2 ^ 32"
  shows "tracks mm t k t (\<lambda>_. [])" "assoc t = asc"
proof -
  note F = new_tags_fields [OF assms(1)]
  let ?ns = "cap div (blkSize * asc)"
  have "0 < ?ns" "0 < blkSize" using assms(1) by (auto simp: new_tags_def Let_def split: if_splits)
  then have "blkSize * asc \<le> cap" by (simp add: div_greater_zero_iff)
  then have asc: "asc < 2 ^ 32" using \<open>0 < blkSize\<close> assms(2)
    by (metis le_less_trans mult_le_mono1 nat_mult_1 One_nat_def Suc_leI order_trans)
  have ok: "tags_ok t" "\<exists>b n. geom t b n" using new_tags_Inr [OF assms] by auto
  then have ns: "numSets t = ?ns" using F(1) by (simp add: tags_ok_def)
  have blk: "\<not> blk_isValid (blk_at t p) \<and> \<not> blk_isSecure (blk_at t p)" if "p < length (blks t)" for p
    using that F(2) by (simp add: init_blk_def blk_isValid_def blk_isSecure_def blk_invalidate_def)
  have "contents t s = replicate asc None" if s: "s < numSets t" for s
  proof -
    have "length (sets t ! s) = asc" using F(1) s ns by simp
    moreover have "line (blk_at t p) = None" if "p \<in> set (sets t ! s)" for p
      using blk tags_ok_set_member(1) [OF ok(1) s that] by (simp add: line_def)
    ultimately show ?thesis unfolding contents_def by (intro replicate_eqI) auto
  qed
  then show "tracks mm t k t (\<lambda>_. [])" using ok blk F(3,4) asc
    by (auto simp: tracks_def plain_tags_def stack_ok_def stack_top_def tags_of_def)
qed (rule new_tags_fields(4) [OF assms(1)])

lemma infinite_distances:
  assumes "length stk + length as < Infinity"
  shows "length (filter (\<lambda>d. d = Infinity) (distances as (stk, M))) = card (set as - set stk)"
  using assms
proof (induction as arbitrary: stk M)
  case (Cons a as)
  show ?case
  proof (cases "a \<in> set stk")
    case True
    then obtain ys zs where stk: "stk = ys @ a # zs" "a \<notin> set zs" using split_list_last by metis
    moreover have "length zs \<noteq> Infinity" using Cons.prems stk by simp
    ultimately show ?thesis using Cons.IH [of "ys @ zs @ [a]"] Cons.prems by (simp add: verify_found insert_commute Un_commute)
  next
    case False
    have "insert a (set as) - set stk = insert a (set as - set (stk @ [a]))" using False by auto
    then show ?thesis using Cons.IH [of "stk @ [a]"] Cons.prems False by (simp add: verify_missing card_insert_if)
  qed
qed simp

lemma line_is_block:
  assumes "new_tags cap blkSize asc lat sq = Inr t" "cap < 2 ^ 32" "blkSize < 2 ^ 32" "lineSize pr = of_nat blkSize"
  shows "line_addr pr info = blkAlign t (pi_addr info)"
proof -
  obtain b n where g: "geom t b n" using new_tags_Inr [OF assms(1-3)] by auto
  have "tg_blkSize t = blkSize" using assms(1) by (auto simp: new_tags_def Let_def result_iffs split: if_splits)
  then have b: "blkSize = 2 ^ b" "b < 32" "blkMask t = mask b" using g by (auto simp: geom_def)
  have "(ucast (lineSize pr) :: addr) = 2 ^ b"
  proof -
    have "unat (lineSize pr) = 2 ^ b" unfolding assms(4) unsigned_of_nat using b assms(3) by (simp add: take_bit_nat_eq_self)
    then show ?thesis by (metis of_nat_numeral of_nat_power of_nat_unat)
  qed
  then show ?thesis using b(2,3)
    by (simp add: line_addr_def blkAlign_def roundDown_def Let_def ucast_mask32 flip: mask_eq_exp_minus_1)
qed

lemma tree_distances:
  assumes "length as \<le> 2 ^ 31"
  shows "\<exists>ds st. runE run_sd_op (map Access as) (new_calc v) = Inr (ds, st) \<and> map fst ds = distances as ([], \<lambda>_. False)"
proof -
  have "list_all (\<lambda>x. v \<longrightarrow> keeps x) (map Access as)" by (simp add: list_all_iff)
  then show ?thesis
    using sdc.runs [OF simulated_new [of "0 + length (map Access as)" v]] assms
    by (auto simp: distances_def)
qed

lemma cache_hits:
  assumes "new_tags cap blkSize asc lat sq = Inr t" "cap < 2 ^ 32" "blkSize < 2 ^ 32" "list_all (plain_ref mm) refs"
  shows "\<exists>hits t'. runE (cache_ref mm t2c) refs t = Inr (hits, t') \<and> length hits = length refs \<and>
    map snd (filter (\<lambda>(r, h). in_set t s r) (zip refs hits)) =
    map (\<lambda>d. d < asc) (distances (block_trace t (filter (in_set t s) refs)) ([], \<lambda>_. False))"
proof -
  have l: "length (fst (run_spec g refs S)) = length refs" for g and S :: "nat \<Rightarrow> addr list"
    by (induction refs arbitrary: S) (simp_all add: split_beta Let_def)
  obtain t' where "runE (cache_ref mm t2c) refs t = Inr (fst (run_spec (stack_ref t) refs (\<lambda>_. [])), t')"
    using lrus.runs [where mm = mm, OF tracks_new(1) [OF assms(1-3), where mm = mm and k = "0 + length refs"] assms(4)] by blast
  then show ?thesis
    using stack_hits [of t s refs "\<lambda>_. []" "\<lambda>_. False"] tracks_new(2) [OF assms(1-3)] l by auto
qed

lemma single_set:
  assumes "geom t b n" "numSets t = 1"
  shows "in_set t 0 r"
  using extractSet_less [OF assms(1), of "ref_addr r"] assms(2) by (simp add: in_set_def)

end
